(* ===== verification/Prelude.thy ===== *)
theory Prelude
  imports Main "HOL-Library.Word"
begin

text \<open>
  Shared vocabulary of the development: the machine integer types of the Rust code, the
  outcome of a Rust function (a value, an \<open>Err\<close> or a panic), integer arithmetic with
  Rust's overflow rule, decimal rendering of numbers, arrays of bytes addressed by bit, and
  the named collections of rewrite rules the component theories fill.
\<close>

unbundle bit_operations_syntax

section \<open>Types\<close>

type_synonym u8 = "8 word"
type_synonym u16 = "16 word"
type_synonym u32 = "32 word"
type_synonym u64 = "64 word"
type_synonym i32 = "32 word"  \<comment> \<open>read with \<open>sint\<close>\<close>
type_synonym bytes = "u8 list"

named_theorems enum_simps
named_theorems header_simps
named_theorems codec_simps
named_theorems step_simps

section \<open>Outcomes of a Rust function\<close>

text \<open>
  \<open>Ok\<close> and \<open>Err\<close> are the two variants of \<open>std::result::Result\<close>. A panic
  (\<open>unwrap\<close> of an error, \<open>todo!()\<close>, an arithmetic overflow with overflow checks on)
  leaves the function without either, so it is a third outcome.
\<close>

datatype ('e, 'a) res = Ok 'a | Err 'e | Panic string

fun res_bind :: "('e, 'a) res \<Rightarrow> ('a \<Rightarrow> ('e, 'b) res) \<Rightarrow> ('e, 'b) res" where
  "res_bind (Ok x) f = f x"
| "res_bind (Err e) f = Err e"
| "res_bind (Panic m) f = Panic m"

fun map_err :: "('e \<Rightarrow> 'f) \<Rightarrow> ('e, 'a) res \<Rightarrow> ('f, 'a) res" where
  "map_err f (Ok x) = Ok x"
| "map_err f (Err e) = Err (f e)"
| "map_err f (Panic m) = Panic m"

fun is_ok :: "('e, 'a) res \<Rightarrow> bool" where
  "is_ok (Ok _) = True"
| "is_ok _ = False"

lemma res_bind_eq_Ok:
  "res_bind m f = Ok y \<longleftrightarrow> (\<exists>x. m = Ok x \<and> f x = Ok y)"
  by (cases m) auto

lemma map_err_eq_Ok [simp]: "map_err f m = Ok x \<longleftrightarrow> m = Ok x"
  by (cases m) auto

lemma is_ok_iff: "is_ok m \<longleftrightarrow> (\<exists>x. m = Ok x)"
  by (cases m) auto

section \<open>Integer arithmetic\<close>

text \<open>
  Rust's \<open>+\<close> and \<open>-\<close> on machine integers panic on overflow when the crate is built with
  overflow checks (the default of the \<open>dev\<close> profile) and wrap around otherwise (the
  \<open>release\<close> profile). The repository sets neither, so the build's choice is the argument
  \<open>chk\<close> of every definition that computes with these operators.
\<close>

definition add_u :: "bool \<Rightarrow> 'l::len word \<Rightarrow> 'l word \<Rightarrow> ('e, 'l word) res" where
  "add_u chk a b =
     (if chk \<and> 2 ^ LENGTH('l) \<le> unat a + unat b
      then Panic ''attempt to add with overflow'' else Ok (a + b))"

definition sub_u :: "bool \<Rightarrow> 'l::len word \<Rightarrow> 'l word \<Rightarrow> ('e, 'l word) res" where
  "sub_u chk a b =
     (if chk \<and> unat a < unat b
      then Panic ''attempt to subtract with overflow'' else Ok (a - b))"

definition sub_i :: "bool \<Rightarrow> 'l::len word \<Rightarrow> 'l word \<Rightarrow> ('e, 'l word) res" where
  "sub_i chk a b =
     (if chk \<and> sint (a - b) \<noteq> sint a - sint b
      then Panic ''attempt to subtract with overflow'' else Ok (a - b))"

lemma add_u_Ok_unat:
  assumes "unat a + unat b < 2 ^ LENGTH('l::len)"
  shows "add_u chk (a :: 'l word) b = Ok (a + b) \<and> unat (a + b) = unat a + unat b"
  using assms by (simp add: add_u_def unat_word_ariths)

lemma add_u_checked_Ok:
  assumes "add_u True (a :: 'l::len word) b = Ok c"
  shows "c = a + b \<and> unat c = unat a + unat b \<and> unat a + unat b < 2 ^ LENGTH('l)"
  using assms by (auto simp: add_u_def unat_word_ariths split: if_splits)

lemma sint_succ:
  assumes "sint (a :: i32) < 2 ^ 31 - 1"
  shows "sint (a + 1) = sint a + 1"
proof -
  have "- (2 ^ 31) \<le> sint a"
    using sint_ge [of a] by simp
  then show ?thesis
    using assms by (simp add: sint_word_ariths signed_take_bit_int_eq_self)
qed

section \<open>Slices\<close>

text \<open>
  \<open>Bytes\<close> is an immutable byte sequence, here a list; \<open>slice\<close> panics when the range
  leaves it.
\<close>

definition slice_from :: "nat \<Rightarrow> bytes \<Rightarrow> ('e, bytes) res" where
  "slice_from lo bs =
     (if lo \<le> length bs then Ok (drop lo bs) else Panic ''range start out of bounds'')"

definition slice :: "nat \<Rightarrow> nat \<Rightarrow> bytes \<Rightarrow> ('e, bytes) res" where
  "slice lo hi bs =
     (if hi < lo then Panic ''range start must not be greater than end''
      else if length bs < hi then Panic ''range end out of bounds''
      else Ok (take (hi - lo) (drop lo bs)))"

section \<open>Decimal rendering\<close>

definition digit_char :: "nat \<Rightarrow> char" where
  "digit_char d = char_of (48 + d)"

fun to_string :: "nat \<Rightarrow> string" where
  "to_string n =
     (if n < 10 then [digit_char n]
      else to_string (n div 10) @ [digit_char (n mod 10)])"

declare to_string.simps [simp del]

lemma to_string_small: "n < 10 \<Longrightarrow> to_string n = [digit_char n]"
  by (subst to_string.simps) simp

text \<open>Rust's \<open>{:?}\<close> of a string without characters that need escaping.\<close>

definition debug_str :: "string \<Rightarrow> string" where
  "debug_str s = CHR 0x22 # s @ [CHR 0x22]"

section \<open>Bits of a byte array\<close>

text \<open>
  Bit \<open>p\<close> of an array is bit \<open>p mod 8\<close> of byte \<open>p div 8\<close>: the numbering of a packed C
  bit-field structure on a little-endian target.
\<close>

definition abit :: "bytes \<Rightarrow> nat \<Rightarrow> bool" where
  "abit a p = bit (a ! (p div 8)) (p mod 8)"

lemma array_eqI:
  assumes len: "length a = length b"
    and bits: "\<And>p. p < 8 * length a \<Longrightarrow> abit a p = abit b p"
  shows "a = b"
proof (rule nth_equalityI [OF len])
  fix k
  assume k: "k < length a"
  show "a ! k = b ! k"
  proof (rule bit_word_eqI)
    fix n
    assume "n < LENGTH(8)"
    then have n: "n < 8" by simp
    have "8 * k + n < 8 * length a"
      using k n by linarith
    then show "bit (a ! k) n = bit (b ! k) n"
      using bits [of "8 * k + n"] n by (simp add: abit_def)
  qed
qed

text \<open>The first element with a property splits a list in one way only.\<close>

lemma first_split_unique:
  assumes "xs @ x # ys = us @ u # vs" "P x" "P u"
    and "\<And>z. z \<in> set xs \<Longrightarrow> \<not> P z" "\<And>z. z \<in> set us \<Longrightarrow> \<not> P z"
  shows "xs = us \<and> x = u \<and> ys = vs"
  using assms
proof (induction xs arbitrary: us)
  case Nil
  then show ?case by (cases us) auto
next
  case (Cons a as)
  then show ?case by (cases us) auto
qed

lemma length_1_conv: "length xs = 1 \<longleftrightarrow> (\<exists>a. xs = [a])"
  by (cases xs) auto

lemma length_2_conv: "length xs = 2 \<longleftrightarrow> (\<exists>a b. xs = [a, b])"
  by (cases xs; cases "tl xs") auto

lemma take_bit_Suc_Suc_0 [simp]: "take_bit (Suc (Suc 0)) x = take_bit 2 x"
  by (simp only: numeral_2_eq_2)

lemma take_bit_less_8:
  assumes "unat (x :: u8) < 2 ^ n"
  shows "take_bit n x = x"
proof (rule word_unat_eq_iff [THEN iffD2])
  show "unat (take_bit n x) = unat x"
    using assms by (simp add: unsigned_take_bit_eq take_bit_nat_eq_self)
qed

end
