(* ===== verification/Errors.thy ===== *)
theory Errors
  imports Prelude
begin

text \<open>
  The error types of the two crates. \<open>mctp-base-lib/src/base/errors.rs\<close> declares
  \<open>MctpBaseLibError\<close>; \<open>src/endpoint/error.rs\<close>, \<open>src/phys/error.rs\<close> and
  \<open>src/network/error.rs\<close> each declare an \<open>Error\<close>; \<open>src/lib.rs\<close> declares
  \<open>MctpEmuError\<close>, which wraps them. An \<open>anyhow::Error\<close> is what its \<open>Display\<close> chain
  shows: the messages from the outermost context to the root cause.
\<close>

type_synonym anyhow = "string list"
type_synonym io_error = string

datatype mctp_base_lib_error =
    InvalidPayloadSize (expected: string) (found: string)
  | UnknownValue (unknown_value: string)
  | BaseOther anyhow

text \<open>The \<open>#[error(...)]\<close> attributes give each variant its message.\<close>

fun base_error_chain :: "mctp_base_lib_error \<Rightarrow> anyhow" where
  "base_error_chain (InvalidPayloadSize e f) =
     [''invalid payload size (found '' @ debug_str f @ '', expected '' @ debug_str e @ '')'']"
| "base_error_chain (UnknownValue v) = [''unknown value ('' @ debug_str v @ '')'']"
| "base_error_chain (BaseOther e) = e"

datatype endpoint_error = EndpointOther anyhow | EndpointUnknown

datatype phys_error =
    SocketError io_error
  | TransmitError string
  | InvalidAddress u64
  | PhysOther anyhow
  | PhysUnknown

datatype network_error =
    InvalidSocketError i32
  | InvalidBindingError u64
  | NetworkOther anyhow
  | NetworkUnknown

datatype mctp_emu_error =
    EmuBase mctp_base_lib_error
  | EmuEndpoint endpoint_error
  | EmuPhys phys_error
  | EmuNetwork network_error
  | EmuOther anyhow
  | EmuUnknown

text \<open>
  \<open>anyhow::Context::context\<close> puts a message in front of the chain.
\<close>

definition any_context :: "string \<Rightarrow> anyhow \<Rightarrow> anyhow" where
  "any_context msg e = msg # e"

definition with_context :: "string \<Rightarrow> (mctp_base_lib_error, 'a) res \<Rightarrow> (anyhow, 'a) res" where
  "with_context msg r = map_err (\<lambda>e. any_context msg (base_error_chain e)) r"

lemma with_context_Ok [simp]: "with_context msg (Ok x) = Ok x"
  by (simp add: with_context_def)

lemma with_context_Err [simp]:
  "with_context msg (Err e) = Err (msg # base_error_chain e)"
  by (simp add: with_context_def any_context_def)

lemma with_context_Panic [simp]: "with_context msg (Panic p) = Panic p"
  by (simp add: with_context_def)

end
