(* ===== verification/Crates.thy ===== *)
theory Crates
  imports Errors
begin

text \<open>
  The third-party crates the program calls, as an interface. Their code is not in the
  repository, so no definition of this development says what they compute: every operation
  that uses them takes a \<open>crates\<close> record \<open>C\<close>, and what the program relies on is the
  locale \<open>crates_spec\<close>, whose assumptions are the documented behaviour of the crates.
  \<open>std_crates\<close> is an executable implementation of that contract; it shows the assumptions
  can hold together and lets concrete inputs be evaluated.

  \<^item> \<open>c2rust_bitfields\<close>: \<open>#[bitfield(name, ty, bits = "lo..=hi")]\<close> derives a getter and a
    setter for the bits \<open>lo..=hi\<close> of a byte array, with C's layout and C's truncation;
  \<^item> \<open>bincode\<close> with \<open>serde\<close>: a \<open>u8\<close> is one byte, read back from the front of the input;
    a derived structure is its fields in declaration order, without framing;
  \<^item> \<open>num_enum::FromPrimitive\<close>: \<open>from\<close> returns the variant with the given discriminant,
    and the variant marked \<open>#[default]\<close> when there is none;
  \<^item> \<open>smbus_pec::pec\<close>: the packet error code of a byte string, nothing is assumed of it;
  \<^item> the message of \<open>bincode\<close>'s end-of-input error, the \<open>Debug\<close> renderings of \<open>MctpEmuError\<close> (partly \<open>anyhow\<close>'s) and of tokio's
    \<open>RecvError\<close>, of which nothing is assumed either.
\<close>

record crates =
  bits_get :: "nat \<Rightarrow> nat \<Rightarrow> bytes \<Rightarrow> u8"
  bits_set :: "nat \<Rightarrow> nat \<Rightarrow> u8 \<Rightarrow> bytes \<Rightarrow> bytes"
  write_u8 :: "u8 \<Rightarrow> bytes"
  read_u8 :: "bytes \<Rightarrow> (u8 \<times> bytes) option"
  from_primitive :: "u8 list \<Rightarrow> nat \<Rightarrow> u8 \<Rightarrow> nat"
    \<comment> \<open>discriminants in declaration order, position of the default, value: position of the variant\<close>
  pec :: "bytes \<Rightarrow> u8"
  bincode_eof :: string
  debug_emu_error :: "mctp_emu_error \<Rightarrow> string"
  debug_recv_error :: string

text \<open>A list of bit ranges that covers the first \<open>n\<close> bits of an array.\<close>

definition field_cover :: "nat \<Rightarrow> (nat \<times> nat) list \<Rightarrow> bool" where
  "field_cover n fs \<longleftrightarrow>
     list_all (\<lambda>(lo, hi). lo \<le> hi \<and> hi < n \<and> hi - lo < 8) fs \<and>
     list_all (\<lambda>p. list_ex (\<lambda>(lo, hi). lo \<le> p \<and> p \<le> hi) fs) [0..<n]"

locale crates_spec =
  fixes C :: crates
  assumes get_bit:
      "\<lbrakk>lo \<le> hi; hi < 8 * length a; hi - lo < 8; i < 8\<rbrakk>
        \<Longrightarrow> bit (bits_get C lo hi a) i \<longleftrightarrow> i \<le> hi - lo \<and> abit a (lo + i)"
    and set_length: "\<lbrakk>lo \<le> hi; hi < 8 * length a\<rbrakk> \<Longrightarrow> length (bits_set C lo hi v a) = length a"
    and set_bit:
      "\<lbrakk>lo \<le> hi; hi < 8 * length a; p < 8 * length a\<rbrakk>
        \<Longrightarrow> abit (bits_set C lo hi v a) p \<longleftrightarrow>
              (if lo \<le> p \<and> p \<le> hi then bit v (p - lo) else abit a p)"
    and write_byte: "write_u8 C b = [b]"
    and read_byte: "read_u8 C (b # bs) = Some (b, bs)"
    and read_empty: "read_u8 C [] = None"
    and from_variant: "\<lbrakk>distinct ds; k < length ds\<rbrakk> \<Longrightarrow> from_primitive C ds d (ds ! k) = k"
    and from_other: "v \<notin> set ds \<Longrightarrow> from_primitive C ds d v = d"
begin

lemmas wire_u8 = write_byte read_byte read_empty

text \<open>A field reads back what was written to it, truncated to its width.\<close>

lemma get_set_same:
  assumes "lo \<le> hi" "hi < 8 * length a" "hi - lo < 8"
  shows "bits_get C lo hi (bits_set C lo hi v a) = take_bit (Suc (hi - lo)) v"
proof (rule bit_word_eqI)
  fix n
  assume "n < LENGTH(8)"
  then have n: "n < 8" by simp
  have "bit (bits_get C lo hi (bits_set C lo hi v a)) n \<longleftrightarrow>
      n \<le> hi - lo \<and> abit (bits_set C lo hi v a) (lo + n)"
    using assms n by (intro get_bit) (simp_all add: set_length)
  also have "\<dots> \<longleftrightarrow> n \<le> hi - lo \<and> bit v n"
    using assms by (auto simp: set_bit split: if_splits)
  finally show "bit (bits_get C lo hi (bits_set C lo hi v a)) n = bit (take_bit (Suc (hi - lo)) v) n"
    by (auto simp: bit_take_bit_iff)
qed

text \<open>Writing one field leaves every disjoint field as it was.\<close>

lemma get_set_other:
  assumes f: "lo \<le> hi" "hi < 8 * length a" "hi - lo < 8"
    and g: "lo' \<le> hi'" "hi' < 8 * length a"
    and sep: "hi < lo' \<or> hi' < lo"
  shows "bits_get C lo hi (bits_set C lo' hi' v a) = bits_get C lo hi a"
proof (rule bit_word_eqI)
  fix n
  assume "n < LENGTH(8)"
  then have n: "n < 8" by simp
  have "abit (bits_set C lo' hi' v a) (lo + n) = abit a (lo + n)" if "n \<le> hi - lo"
    using that f g sep by (subst set_bit) auto
  then show "bit (bits_get C lo hi (bits_set C lo' hi' v a)) n = bit (bits_get C lo hi a) n"
    using f g n by (subst (1 2) get_bit) (auto simp: set_length)
qed

text \<open>A field never reads a value wider than itself.\<close>

lemma get_bound:
  assumes "lo \<le> hi" "hi < 8 * length a" "hi - lo < 8"
  shows "take_bit (Suc (hi - lo)) (bits_get C lo hi a) = bits_get C lo hi a"
  using assms by (intro bit_word_eqI) (auto simp: bit_take_bit_iff get_bit)

text \<open>A field of an array of zeros is zero.\<close>

lemma get_zero:
  assumes "lo \<le> hi" "hi < 8 * length a" "hi - lo < 8" "set a \<subseteq> {0}"
  shows "bits_get C lo hi a = 0"
proof (rule bit_word_eqI)
  fix n
  assume "n < LENGTH(8)"
  then have n: "n < 8" by simp
  have "\<not> abit a (lo + n)" if "n \<le> hi - lo"
  proof -
    have "(lo + n) div 8 < length a" using that assms by linarith
    then have "a ! ((lo + n) div 8) = 0" using assms(4) nth_mem by blast
    then show ?thesis by (simp add: abit_def)
  qed
  then show "bit (bits_get C lo hi a) n = bit (0 :: u8) n"
    using assms n by (simp add: get_bit)
qed

text \<open>The bits of an array, read off the field that covers them.\<close>

lemma abit_get:
  assumes "lo \<le> p" "p \<le> hi" "hi < 8 * length a" "hi - lo < 8"
  shows "abit a p = bit (bits_get C lo hi a) (p - lo)"
  using assms by (subst get_bit) auto

lemma abit_eq_of_get:
  assumes "bits_get C lo hi a = bits_get C lo hi b"
    and "lo \<le> p" "p \<le> hi" "hi < 8 * length a" "hi < 8 * length b" "hi - lo < 8"
  shows "abit a p = abit b p"
  using assms abit_get [of lo p hi a] abit_get [of lo p hi b] by simp

text \<open>Two arrays that agree on a list of fields that covers them are equal.\<close>

lemma array_eq_fields:
  assumes len: "length a = length b" "field_cover (8 * length a) fs"
    and gets: "list_all (\<lambda>(lo, hi). bits_get C lo hi a = bits_get C lo hi b) fs"
  shows "a = b"
proof (rule array_eqI [OF len(1)])
  fix p
  assume "p < 8 * length a"
  then have "list_ex (\<lambda>(lo, hi). lo \<le> p \<and> p \<le> hi) fs"
    using len(2) by (simp add: field_cover_def list_all_iff)
  then obtain lo hi where f: "(lo, hi) \<in> set fs" "lo \<le> p" "p \<le> hi"
    unfolding list_ex_iff by blast
  have "hi < 8 * length a \<and> hi - lo < 8"
    using len(2) f(1) by (auto simp: field_cover_def list_all_iff)
  moreover have "bits_get C lo hi a = bits_get C lo hi b"
    using gets f(1) by (auto simp: list_all_iff)
  ultimately have "hi < 8 * length a" "hi - lo < 8" "bits_get C lo hi a = bits_get C lo hi b"
    by simp_all
  with f len(1) show "abit a p = abit b p"
    by (intro abit_eq_of_get [of lo hi]) simp_all
qed

end

section \<open>An implementation of the contract\<close>

definition std_bits_get :: "nat \<Rightarrow> nat \<Rightarrow> bytes \<Rightarrow> u8" where
  "std_bits_get lo hi a = horner_sum of_bool 2 (map (\<lambda>i. abit a (lo + i)) [0..<Suc (hi - lo)])"

definition std_bits_set :: "nat \<Rightarrow> nat \<Rightarrow> u8 \<Rightarrow> bytes \<Rightarrow> bytes" where
  "std_bits_set lo hi v a =
     map (\<lambda>k. horner_sum of_bool 2
       (map (\<lambda>i. if lo \<le> 8 * k + i \<and> 8 * k + i \<le> hi
                 then bit v (8 * k + i - lo) else abit a (8 * k + i)) [0..<8])) [0..<length a]"

fun std_read_u8 :: "bytes \<Rightarrow> (u8 \<times> bytes) option" where
  "std_read_u8 [] = None"
| "std_read_u8 (b # bs) = Some (b, bs)"

fun std_position :: "u8 list \<Rightarrow> u8 \<Rightarrow> nat" where
  "std_position [] v = 0"
| "std_position (x # xs) v = (if x = v then 0 else Suc (std_position xs v))"

definition std_from_primitive :: "u8 list \<Rightarrow> nat \<Rightarrow> u8 \<Rightarrow> nat" where
  "std_from_primitive ds d v =
     (let k = std_position ds v in if k < length ds then k else d)"

text \<open>CRC-8 with polynomial 7 and start value 0, the SMBus packet error code.\<close>

definition crc8_bit :: "u8 \<Rightarrow> u8" where
  "crc8_bit c = (if bit c 7 then push_bit 1 c XOR 7 else push_bit 1 c)"

definition std_pec :: "bytes \<Rightarrow> u8" where
  "std_pec bs = fold (\<lambda>b c. (crc8_bit ^^ 8) (c XOR b)) bs 0"

definition std_crates :: crates where
  "std_crates =
     \<lparr>bits_get = std_bits_get, bits_set = std_bits_set, write_u8 = (\<lambda>b. [b]),
      read_u8 = std_read_u8, from_primitive = std_from_primitive, pec = std_pec,
      bincode_eof = ''io error: unexpected end of file'', debug_emu_error = (\<lambda>_. []), debug_recv_error = ''RecvError(())''\<rparr>"

lemma std_position_nth:
  "distinct ds \<Longrightarrow> k < length ds \<Longrightarrow> std_position ds (ds ! k) = k"
proof (induction ds arbitrary: k)
  case Nil
  then show ?case by simp
next
  case (Cons x xs)
  then show ?case by (cases k) auto
qed

lemma std_position_other: "v \<notin> set ds \<Longrightarrow> std_position ds v = length ds"
  by (induction ds) auto

lemma std_bits_set_abit:
  assumes "p < 8 * length a"
  shows "abit (std_bits_set lo hi v a) p \<longleftrightarrow>
    (if lo \<le> p \<and> p \<le> hi then bit v (p - lo) else abit a p)"
proof -
  have k: "p div 8 < length a" and "p mod 8 < 8" and e: "8 * (p div 8) + p mod 8 = p"
    using assms by auto
  then show ?thesis
    unfolding abit_def [of "std_bits_set lo hi v a"]
    unfolding std_bits_set_def
    by (simp add: bit_horner_sum_bit_iff del: upt_Suc)
qed

interpretation std: crates_spec std_crates
proof (unfold_locales, goal_cases)
  case (1 lo hi a i)
  then show ?case
    by (auto simp: std_crates_def std_bits_get_def bit_horner_sum_bit_iff simp del: upt_Suc)
next
  case (3 lo hi a p v)
  then show ?case by (simp add: std_crates_def std_bits_set_abit)
next
  case (7 ds k d)
  then show ?case by (simp add: std_crates_def std_from_primitive_def std_position_nth)
next
  case (8 v ds d)
  then show ?case by (simp add: std_crates_def std_from_primitive_def std_position_other)
qed (simp_all add: std_crates_def std_bits_set_def)

lemmas std_crates_spec = std.crates_spec_axioms

end
