(* ===== verification/Codec.thy ===== *)
theory Codec
  imports Crates "HOL-Library.Monad_Syntax"
begin

text \<open>
  The derive macros of \<open>mctp-emu-derive/src/lib.rs\<close>: the byte conversions every wire
  structure gets, and the single-byte conversion of enumerations. The contract the users of
  the conversions rely on is the locale \<open>codec\<close>; \<open>exact_codec\<close> adds that decoding loses
  nothing. The message theories interpret them for every structure of the protocol.
\<close>

section \<open>Fields on the wire\<close>

text \<open>
  \<open>bincode\<close>'s image of a fixed array \<open>[u8; N]\<close> is its elements, and a derived
  \<open>Deserialize\<close> reads the fields one after the other.
\<close>

definition put_array :: "crates \<Rightarrow> bytes \<Rightarrow> bytes" where
  "put_array C a = concat (map (write_u8 C) a)"

fun get_array :: "crates \<Rightarrow> nat \<Rightarrow> bytes \<Rightarrow> (bytes \<times> bytes) option" where
  "get_array C 0 bs = Some ([], bs)"
| "get_array C (Suc n) bs =
     (case read_u8 C bs of
        None \<Rightarrow> None
      | Some (b, r) \<Rightarrow>
          (case get_array C n r of None \<Rightarrow> None | Some (a, r') \<Rightarrow> Some (b # a, r')))"

text \<open>\<open>SerializeU8Enum\<close> writes the discriminant, \<open>DeserializeU8Enum\<close> reads a byte and converts it.\<close>

definition serialize_u8_enum :: "crates \<Rightarrow> ('e \<Rightarrow> u8) \<Rightarrow> 'e \<Rightarrow> bytes" where
  "serialize_u8_enum C to_u8 e = write_u8 C (to_u8 e)"

definition deserialize_u8_enum :: "crates \<Rightarrow> (u8 \<Rightarrow> 'e) \<Rightarrow> bytes \<Rightarrow> ('e \<times> bytes) option" where
  "deserialize_u8_enum C from_u8 bs =
     (case read_u8 C bs of None \<Rightarrow> None | Some (v, r) \<Rightarrow> Some (from_u8 v, r))"

section \<open>Conversions of a structure\<close>

text \<open>
  \<open>bincode::deserialize\<close> runs the structure's \<open>Deserialize\<close> on the front of the input
  and ignores what is left; a failure becomes \<open>Other\<close> with a context message. The size
  test comes first.
\<close>

definition bincode_deserialize ::
  "crates \<Rightarrow> (bytes \<Rightarrow> ('a \<times> bytes) option) \<Rightarrow> bytes \<Rightarrow> (mctp_base_lib_error, 'a) res" where
  "bincode_deserialize C dec bs =
     (case dec bs of
        Some (x, _) \<Rightarrow> Ok x
      | None \<Rightarrow> Err (BaseOther (any_context ''Failed deserializing message'' [bincode_eof C])))"

definition from_binary_try_from ::
  "crates \<Rightarrow> nat \<Rightarrow> (bytes \<Rightarrow> ('a \<times> bytes) option) \<Rightarrow> bytes \<Rightarrow> (mctp_base_lib_error, 'a) res" where
  "from_binary_try_from C struct_size dec bs =
     (if length bs < struct_size
      then Err (InvalidPayloadSize (to_string struct_size) (to_string (length bs)))
      else bincode_deserialize C dec bs)"

definition from_control_payload_try_from ::
  "crates \<Rightarrow> nat \<Rightarrow> (bytes \<Rightarrow> ('a \<times> bytes) option) \<Rightarrow> bytes \<Rightarrow> (mctp_base_lib_error, 'a) res" where
  "from_control_payload_try_from C struct_size dec bs =
     (if length bs < struct_size
      then Err (InvalidPayloadSize (to_string struct_size) (to_string (length bs)))
      else bincode_deserialize C dec bs)"

lemma control_payload_eq_binary:
  "from_control_payload_try_from = from_binary_try_from"
  by (intro ext) (simp add: from_control_payload_try_from_def from_binary_try_from_def)

section \<open>The contract of a conversion\<close>

locale codec =
  fixes enc :: "'a \<Rightarrow> bytes"
    and dec :: "bytes \<Rightarrow> ('a \<times> bytes) option"
    and sz :: nat
    and wf :: "'a \<Rightarrow> bool"
  assumes enc_length: "wf x \<Longrightarrow> length (enc x) = sz"
    and dec_enc: "wf x \<Longrightarrow> dec (enc x @ r) = Some (x, r)"
    and dec_total: "length bs = sz \<Longrightarrow> \<exists>x. wf x \<and> (\<forall>r. dec (bs @ r) = Some (x, r))"
begin

lemma dec_long:
  assumes "sz \<le> length bs"
  obtains x where "wf x" "dec bs = Some (x, drop sz bs)" "dec (take sz bs) = Some (x, [])"
proof -
  have "length (take sz bs) = sz" using assms by simp
  from dec_total [OF this] obtain x
    where x: "wf x" "\<And>r. dec (take sz bs @ r) = Some (x, r)" by blast
  from x(2) [of "drop sz bs"] x(2) [of "[]"] show thesis
    using x(1) that by simp
qed

lemma try_from_short:
  "length bs < sz \<Longrightarrow>
    from_binary_try_from C sz dec bs = Err (InvalidPayloadSize (to_string sz) (to_string (length bs)))"
  by (simp add: from_binary_try_from_def)

text \<open>With the size test passed nothing can fail: the deserialization error is dead code.\<close>

lemma try_from_long:
  assumes "sz \<le> length bs"
  shows "\<exists>x. wf x \<and> from_binary_try_from C sz dec bs = Ok x"
  using assms by (auto simp: from_binary_try_from_def bincode_deserialize_def elim: dec_long)

lemma try_from_is_ok: "is_ok (from_binary_try_from C sz dec bs) \<longleftrightarrow> sz \<le> length bs"
  using try_from_long [where bs = bs and C = C] try_from_short [where bs = bs and C = C] by (cases "length bs < sz") auto

lemma try_from_wf: "from_binary_try_from C sz dec bs = Ok x \<Longrightarrow> wf x"
  using try_from_long [where bs = bs and C = C] try_from_short [where bs = bs and C = C] by (cases "length bs < sz") auto

lemma try_from_enc:
  "wf x \<Longrightarrow> from_binary_try_from C sz dec (enc x @ r) = Ok x"
  by (simp add: from_binary_try_from_def bincode_deserialize_def dec_enc enc_length)

lemma try_from_enc_exact: "wf x \<Longrightarrow> from_binary_try_from C sz dec (enc x) = Ok x"
  using try_from_enc [where x = x and r = "[]" and C = C] by simp

text \<open>Only the first \<open>sz\<close> bytes matter: trailing bytes are ignored.\<close>

lemma try_from_take:
  assumes "sz \<le> length bs"
  shows "from_binary_try_from C sz dec (take sz bs) = from_binary_try_from C sz dec bs"
  using assms by (rule dec_long) (simp add: from_binary_try_from_def bincode_deserialize_def assms min_def)

lemma enc_inj: "wf x \<Longrightarrow> wf y \<Longrightarrow> enc x = enc y \<Longrightarrow> x = y"
  using dec_enc [of x "[]"] dec_enc [of y "[]"] by simp

end

locale exact_codec = codec +
  assumes enc_dec: "length bs = sz \<Longrightarrow> dec bs = Some (x, []) \<Longrightarrow> enc x = bs"
begin

lemma try_from_inverse:
  assumes "from_binary_try_from C sz dec bs = Ok x"
  shows "enc x = take sz bs"
proof -
  have len: "sz \<le> length bs"
    using assms try_from_is_ok [where bs = bs and C = C] by (simp add: is_ok_iff)
  from dec_long [OF len] obtain y
    where y: "dec bs = Some (y, drop sz bs)" "dec (take sz bs) = Some (y, [])" .
  have "x = y"
    using assms len y by (simp add: from_binary_try_from_def bincode_deserialize_def)
  with y enc_dec [of "take sz bs" y] len show ?thesis by simp
qed

end

section \<open>Fields under the contract of the crates\<close>

context crates_spec
begin

lemma put_array_id [codec_simps]: "put_array C a = a"
  by (induction a) (simp_all add: put_array_def write_byte)

lemma get_array_append [codec_simps]: "length a = n \<Longrightarrow> get_array C n (a @ r) = Some (a, r)"
  by (induction a arbitrary: n) (auto simp: read_byte)

lemma get_array_1 [codec_simps]: "get_array C (Suc 0) (b # r) = Some ([b], r)"
  by (simp add: read_byte)

lemma get_array_2 [codec_simps]: "get_array C 2 (b # c # r) = Some ([b, c], r)"
  by (simp add: numeral_2_eq_2 read_byte)

lemma deserialize_enum [codec_simps]:
  "deserialize_u8_enum C f (b # r) = Some (f b, r)"
  by (simp add: deserialize_u8_enum_def read_byte)

lemma serialize_enum [codec_simps]: "serialize_u8_enum C t e = [t e]"
  by (simp add: serialize_u8_enum_def write_byte)

end

end
