(* ===== verification/Transport.thy ===== *)
theory Transport
  imports Codec
begin

text \<open>
  The MCTP transport header of \<open>mctp-base-lib/src/base/models.rs\<close>: its packed fields, the
  accessors the bit-field attributes declare, construction, the response header, and its
  wire conversions.
\<close>

section \<open>The header\<close>

definition MCTP_BASE_PROTOCOL_SUPPORTED_HDR_VERSION :: u8 where
  "MCTP_BASE_PROTOCOL_SUPPORTED_HDR_VERSION = 0x1"

record transport_header =
  header_version_rsvd :: bytes
  destination_eid :: u8
  source_eid :: u8
  msg_tag_tag_owner_packet_seq_eom_som :: bytes

text \<open>The two bit-field arrays are \<open>[u8; 1]\<close>.\<close>

definition wf_transport_header :: "transport_header \<Rightarrow> bool" where
  "wf_transport_header h \<longleftrightarrow>
     length (header_version_rsvd h) = 1 \<and> length (msg_tag_tag_owner_packet_seq_eom_som h) = 1"

definition header_version :: "crates \<Rightarrow> transport_header \<Rightarrow> u8" where
  "header_version C h = bits_get C 0 3 (header_version_rsvd h)"

definition rsvd :: "crates \<Rightarrow> transport_header \<Rightarrow> u8" where
  "rsvd C h = bits_get C 4 7 (header_version_rsvd h)"

definition msg_tag :: "crates \<Rightarrow> transport_header \<Rightarrow> u8" where
  "msg_tag C h = bits_get C 0 2 (msg_tag_tag_owner_packet_seq_eom_som h)"

definition tag_owner :: "crates \<Rightarrow> transport_header \<Rightarrow> u8" where
  "tag_owner C h = bits_get C 3 3 (msg_tag_tag_owner_packet_seq_eom_som h)"

definition packet_seq :: "crates \<Rightarrow> transport_header \<Rightarrow> u8" where
  "packet_seq C h = bits_get C 4 5 (msg_tag_tag_owner_packet_seq_eom_som h)"

definition eom :: "crates \<Rightarrow> transport_header \<Rightarrow> u8" where
  "eom C h = bits_get C 6 6 (msg_tag_tag_owner_packet_seq_eom_som h)"

definition som :: "crates \<Rightarrow> transport_header \<Rightarrow> u8" where
  "som C h = bits_get C 7 7 (msg_tag_tag_owner_packet_seq_eom_som h)"

definition set_header_version :: "crates \<Rightarrow> u8 \<Rightarrow> transport_header \<Rightarrow> transport_header" where
  "set_header_version C v h = h\<lparr>header_version_rsvd := bits_set C 0 3 v (header_version_rsvd h)\<rparr>"

definition set_flag_bits :: "crates \<Rightarrow> nat \<Rightarrow> nat \<Rightarrow> u8 \<Rightarrow> transport_header \<Rightarrow> transport_header" where
  "set_flag_bits C lo hi v h =
     h\<lparr>msg_tag_tag_owner_packet_seq_eom_som :=
         bits_set C lo hi v (msg_tag_tag_owner_packet_seq_eom_som h)\<rparr>"

definition set_msg_tag :: "crates \<Rightarrow> u8 \<Rightarrow> transport_header \<Rightarrow> transport_header" where
  "set_msg_tag C = set_flag_bits C 0 2"

definition set_tag_owner :: "crates \<Rightarrow> u8 \<Rightarrow> transport_header \<Rightarrow> transport_header" where
  "set_tag_owner C = set_flag_bits C 3 3"

definition set_eom :: "crates \<Rightarrow> u8 \<Rightarrow> transport_header \<Rightarrow> transport_header" where
  "set_eom C = set_flag_bits C 6 6"

definition set_som :: "crates \<Rightarrow> u8 \<Rightarrow> transport_header \<Rightarrow> transport_header" where
  "set_som C = set_flag_bits C 7 7"

text \<open>
  \<open>TransportHeader::new\<close>, which the derived builder calls; an omitted optional flag is
  \<open>None\<close> and \<open>unwrap_or_default\<close> makes it false. \<open>cascade!\<close> runs the setters in order.
\<close>

definition unwrap_or_default :: "bool option \<Rightarrow> bool" where
  "unwrap_or_default o' = (case o' of None \<Rightarrow> False | Some b \<Rightarrow> b)"

definition transport_header_new ::
  "crates \<Rightarrow> u8 \<Rightarrow> u8 \<Rightarrow> u8 \<Rightarrow> bool option \<Rightarrow> bool option \<Rightarrow> bool option \<Rightarrow> transport_header" where
  "transport_header_new C src_eid dst_eid tag owner start_of_msg end_of_msg =
     (let h = \<lparr>header_version_rsvd = [0], destination_eid = dst_eid, source_eid = src_eid,
               msg_tag_tag_owner_packet_seq_eom_som = [0]\<rparr>;
          h = set_header_version C MCTP_BASE_PROTOCOL_SUPPORTED_HDR_VERSION h;
          h = set_msg_tag C tag h;
          h = set_tag_owner C (of_bool (unwrap_or_default owner)) h;
          h = set_som C (of_bool (unwrap_or_default start_of_msg)) h;
          h = set_eom C (of_bool (unwrap_or_default end_of_msg)) h
      in h)"

definition create_response :: "crates \<Rightarrow> transport_header \<Rightarrow> transport_header" where
  "create_response C h =
     transport_header_new C (destination_eid h) (source_eid h) (msg_tag C h)
       (Some (tag_owner C h = 0)) (Some True) (Some True)"

section \<open>Wire conversions\<close>

definition transport_header_ser :: "crates \<Rightarrow> transport_header \<Rightarrow> bytes" where
  "transport_header_ser C h =
     put_array C (header_version_rsvd h) @ write_u8 C (destination_eid h) @
     write_u8 C (source_eid h) @ put_array C (msg_tag_tag_owner_packet_seq_eom_som h)"

definition transport_header_de :: "crates \<Rightarrow> bytes \<Rightarrow> (transport_header \<times> bytes) option" where
  "transport_header_de C bs = do {
     (v, r) \<leftarrow> get_array C 1 bs;
     (d, r) \<leftarrow> read_u8 C r;
     (s, r) \<leftarrow> read_u8 C r;
     (f, r) \<leftarrow> get_array C 1 r;
     Some (\<lparr>header_version_rsvd = v, destination_eid = d, source_eid = s,
            msg_tag_tag_owner_packet_seq_eom_som = f\<rparr>, r)
   }"

definition transport_header_size :: nat where
  "transport_header_size = 4"

definition transport_header_try_from ::
  "crates \<Rightarrow> bytes \<Rightarrow> (mctp_base_lib_error, transport_header) res" where
  "transport_header_try_from C =
     from_binary_try_from C transport_header_size (transport_header_de C)"

lemma length_4_conv: "length bs = 4 \<longleftrightarrow> (\<exists>a b c d. bs = [a, b, c, d])"
  by (auto simp: numeral_eq_Suc length_Suc_conv)

sublocale crates_spec \<subseteq> th: exact_codec "transport_header_ser C" "transport_header_de C"
  transport_header_size wf_transport_header
proof (unfold_locales, goal_cases)
  case (1 x)
  then show ?case
    by (simp add: transport_header_ser_def codec_simps wire_u8 wf_transport_header_def
        transport_header_size_def)
next
  case (2 x r)
  then show ?case
    by (auto simp: transport_header_ser_def transport_header_de_def codec_simps wire_u8
        wf_transport_header_def length_Suc_conv)
next
  case (3 bs)
  then show ?case
    by (auto simp: transport_header_size_def length_4_conv transport_header_de_def codec_simps
        wire_u8 wf_transport_header_def)
next
  case (4 bs x)
  then show ?case
    by (auto simp: transport_header_size_def length_4_conv transport_header_de_def
        transport_header_ser_def codec_simps wire_u8)
qed

section \<open>What the fields of a header are\<close>

lemma version_cover: "field_cover 8 [(0, 3), (4, 7)]"
  by code_simp

lemma flag_cover: "field_cover 8 [(0, 2), (3, 3), (4, 5), (6, 6), (7, 7)]"
  by code_simp

context crates_spec
begin

lemmas flag_access =
  header_version_def rsvd_def msg_tag_def tag_owner_def packet_seq_def eom_def som_def
  set_header_version_def set_msg_tag_def set_tag_owner_def set_eom_def set_som_def set_flag_bits_def

lemma take_bit_of_bool [simp]: "take_bit (Suc 0) (of_bool b :: u8) = of_bool b"
  by (cases b) simp_all

lemma new_wf [header_simps]: "wf_transport_header (transport_header_new C s d t own so eo)"
  by (simp add: transport_header_new_def flag_access wf_transport_header_def set_length)

lemma new_eids [header_simps]:
  "destination_eid (transport_header_new C s d t own so eo) = d"
  "source_eid (transport_header_new C s d t own so eo) = s"
  by (simp_all add: transport_header_new_def flag_access)

lemma new_fields [header_simps]:
  "header_version C (transport_header_new C s d t own so eo) = 1"
  "rsvd C (transport_header_new C s d t own so eo) = 0"
  "msg_tag C (transport_header_new C s d t own so eo) = take_bit 3 t"
  "tag_owner C (transport_header_new C s d t own so eo) = of_bool (unwrap_or_default own)"
  "packet_seq C (transport_header_new C s d t own so eo) = 0"
  "eom C (transport_header_new C s d t own so eo) = of_bool (unwrap_or_default eo)"
  "som C (transport_header_new C s d t own so eo) = of_bool (unwrap_or_default so)"
  by (simp_all add: transport_header_new_def flag_access set_length get_set_same get_set_other
      get_zero MCTP_BASE_PROTOCOL_SUPPORTED_HDR_VERSION_def)

text \<open>A header is its two identifiers and its seven bit fields.\<close>

lemma version_byte_eqI:
  assumes "length a = 1" "length b = 1"
    and "bits_get C 0 3 a = bits_get C 0 3 b" "bits_get C 4 7 a = bits_get C 4 7 b"
  shows "a = b"
  by (rule array_eq_fields [where fs = "[(0, 3), (4, 7)]"])
    (use assms version_cover in simp_all)

lemma flag_byte_eqI:
  assumes "length a = 1" "length b = 1"
    and "bits_get C 0 2 a = bits_get C 0 2 b" "bits_get C 3 3 a = bits_get C 3 3 b"
    and "bits_get C 4 5 a = bits_get C 4 5 b" "bits_get C 6 6 a = bits_get C 6 6 b"
    and "bits_get C 7 7 a = bits_get C 7 7 b"
  shows "a = b"
  by (rule array_eq_fields [where fs = "[(0, 2), (3, 3), (4, 5), (6, 6), (7, 7)]"])
    (use assms flag_cover in simp_all)

lemma transport_header_eqI:
  assumes "wf_transport_header h" "wf_transport_header k"
    and "destination_eid h = destination_eid k" "source_eid h = source_eid k"
    and "header_version C h = header_version C k" "rsvd C h = rsvd C k"
    and "msg_tag C h = msg_tag C k" "tag_owner C h = tag_owner C k"
    and "packet_seq C h = packet_seq C k" "eom C h = eom C k" "som C h = som C k"
  shows "h = k"
  using assms version_byte_eqI [of "header_version_rsvd h" "header_version_rsvd k"]
    flag_byte_eqI [of "msg_tag_tag_owner_packet_seq_eom_som h"
      "msg_tag_tag_owner_packet_seq_eom_som k"]
  by (cases h; cases k) (simp add: flag_access wf_transport_header_def)

lemma msg_tag_bound:
  "wf_transport_header h \<Longrightarrow> take_bit 3 (msg_tag C h) = msg_tag C h"
  using get_bound [of 0 2 "msg_tag_tag_owner_packet_seq_eom_som h"]
  by (simp add: msg_tag_def wf_transport_header_def eval_nat_numeral)

lemma one_bit_cases:
  assumes "take_bit (Suc 0) (x :: u8) = x"
  shows "x = 0 \<or> x = 1"
  using assms by (metis take_bit_Suc_0 mod_2_eq_odd of_bool_eq_0_iff of_bool_eq_1_iff)

lemma tag_owner_cases:
  assumes "wf_transport_header h"
  shows "tag_owner C h = 0 \<or> tag_owner C h = 1"
  using one_bit_cases get_bound [of 3 3 "msg_tag_tag_owner_packet_seq_eom_som h"] assms
  by (simp add: tag_owner_def wf_transport_header_def)

lemma response_fields [header_simps]:
  assumes "wf_transport_header h"
  shows "wf_transport_header (create_response C h)"
    "destination_eid (create_response C h) = source_eid h"
    "source_eid (create_response C h) = destination_eid h"
    "msg_tag C (create_response C h) = msg_tag C h"
    "tag_owner C (create_response C h) = of_bool (tag_owner C h = 0)"
    "header_version C (create_response C h) = 1"
    "packet_seq C (create_response C h) = 0"
    "rsvd C (create_response C h) = 0"
    "som C (create_response C h) = 1" "eom C (create_response C h) = 1"
  using assms
  by (simp_all add: create_response_def header_simps msg_tag_bound unwrap_or_default_def)

end

section \<open>Properties\<close>

context crates_spec
begin

lemma header_roundtrip:
  "wf_transport_header h \<Longrightarrow> length (transport_header_ser C h) = 4 \<and>
    transport_header_try_from C (transport_header_ser C h @ r) = Ok h"
  using th.try_from_enc [of h C r] th.enc_length [of h]
  by (simp add: transport_header_try_from_def transport_header_size_def)

lemma header_parse_cases:
  "if length bs < 4
   then transport_header_try_from C bs = Err (InvalidPayloadSize (to_string 4) (to_string (length bs)))
   else \<exists>h. wf_transport_header h \<and> transport_header_try_from C bs = Ok h \<and>
            transport_header_ser C h = take 4 bs"
  using th.try_from_short [of bs C] th.try_from_long [of bs C] th.try_from_inverse [of C bs]
  by (auto simp: transport_header_try_from_def transport_header_size_def)

end

text \<open>
  C28: a transport header written to the wire is four bytes and
  parses back to itself, whatever follows it.
\<close>

theorem transport_header_roundtrip:
  assumes "crates_spec C" "wf_transport_header h"
  shows "length (transport_header_ser C h) = 4 \<and>
    transport_header_try_from C (transport_header_ser C h @ rest) = Ok h"
  by (rule crates_spec.header_roundtrip [OF assms])

theorem transport_header_roundtrip_witness:
  "length (transport_header_ser std_crates (transport_header_new std_crates 8 9 3 (Some True) None (Some True))) = 4 \<and>
   transport_header_try_from std_crates
     (transport_header_ser std_crates (transport_header_new std_crates 8 9 3 (Some True) None (Some True)) @ [7]) =
   Ok (transport_header_new std_crates 8 9 3 (Some True) None (Some True))"
  by (rule transport_header_roundtrip [OF std_crates_spec std.new_wf])

text \<open>
  Parsing a transport header fails exactly when there are fewer
  than four bytes, with the error that names both sizes; otherwise it succeeds and loses
  nothing, since writing the header gives the four bytes back.
\<close>

theorem transport_header_parse:
  assumes "crates_spec C"
  shows "if length bs < 4
    then transport_header_try_from C bs = Err (InvalidPayloadSize (to_string 4) (to_string (length bs)))
    else \<exists>h. wf_transport_header h \<and> transport_header_try_from C bs = Ok h \<and>
             transport_header_ser C h = take 4 bs"
  by (rule crates_spec.header_parse_cases [OF assms])

theorem transport_header_parse_witness:
  "transport_header_try_from std_crates [1, 2, 3] = Err (InvalidPayloadSize (to_string 4) (to_string 3)) \<and>
   (\<exists>h. wf_transport_header h \<and> transport_header_try_from std_crates [0x11, 9, 8, 0xcb, 0] = Ok h \<and>
        transport_header_ser std_crates h = [0x11, 9, 8, 0xcb])"
  using transport_header_parse [OF std_crates_spec, of "[1, 2, 3]"]
    transport_header_parse [OF std_crates_spec, of "[0x11, 9, 8, 0xcb, 0]"]
  by (simp add: eval_nat_numeral)

text \<open>
  C35: every field of a header built by \<open>TransportHeader::new\<close> is
  the value given to it, the message tag truncated to its three bits; an omitted flag is
  clear, the version is 1 and the reserved and sequence bits are 0.
\<close>

theorem transport_header_fields:
  assumes "crates_spec C" "h = transport_header_new C src dst tag owner som' eom'"
  shows "wf_transport_header h \<and> source_eid h = src \<and> destination_eid h = dst \<and>
    msg_tag C h = take_bit 3 tag \<and> tag_owner C h = of_bool (owner = Some True) \<and>
    som C h = of_bool (som' = Some True) \<and> eom C h = of_bool (eom' = Some True) \<and>
    header_version C h = 1 \<and> rsvd C h = 0 \<and> packet_seq C h = 0"
  unfolding assms(2)
  by (simp add: crates_spec.new_wf [OF assms(1)] crates_spec.new_eids [OF assms(1)]
      crates_spec.new_fields [OF assms(1)] unwrap_or_default_def split: option.split)

theorem transport_header_fields_witness:
  "msg_tag std_crates (transport_header_new std_crates 8 9 13 (Some True) None (Some False)) = take_bit 3 13 \<and>
   tag_owner std_crates (transport_header_new std_crates 8 9 13 (Some True) None (Some False)) = 1 \<and>
   som std_crates (transport_header_new std_crates 8 9 13 (Some True) None (Some False)) = 0"
  using transport_header_fields [OF std_crates_spec refl, of 8 9 13 "Some True" None "Some False"] by simp

end
