(* ===== verification/Flows.thy ===== *)
theory Flows
  imports Transport
begin

text \<open>
  Message flows: \<open>MsgFlowTag\<close> and \<open>MctpFlowList\<close> of \<open>src/endpoint/types.rs\<close>, the tag of
  a packet (\<open>create_tag\<close> of \<open>src/network/simple_network.rs\<close>), and the scan of the table of
  flows in flight that \<open>callback_handler\<close> runs for every packet received. The contract of
  the table is the locale \<open>flow_table\<close>.
\<close>

section \<open>Tags\<close>

record msg_flow_tag =
  flow_dest_eid :: u8
  flow_src_eid :: u8
  flow_msg_tag :: u8
  flow_tag_owner :: bool

text \<open>A flow is its tag and the sender of the one-shot channel its caller waits on.\<close>

type_synonym 's mctp_flow = "msg_flow_tag \<times> 's"
type_synonym 's mctp_flow_list = "'s mctp_flow list"

definition msg_flow_tag_default :: msg_flow_tag where
  "msg_flow_tag_default =
     \<lparr>flow_dest_eid = 0, flow_src_eid = 0, flow_msg_tag = 0, flow_tag_owner = False\<rparr>"

definition header_tag :: "crates \<Rightarrow> transport_header \<Rightarrow> msg_flow_tag" where
  "header_tag C h =
     \<lparr>flow_dest_eid = destination_eid h, flow_src_eid = source_eid h,
      flow_msg_tag = msg_tag C h, flow_tag_owner = (tag_owner C h \<noteq> 0)\<rparr>"

definition create_tag :: "crates \<Rightarrow> bytes \<Rightarrow> msg_flow_tag option" where
  "create_tag C bs =
     (if length bs < 4 then Some msg_flow_tag_default
      else case transport_header_try_from C bs of
             Ok h \<Rightarrow> Some (header_tag C h)
           | _ \<Rightarrow> None)"

text \<open>The test of the scan: does the packet with tag \<open>recv\<close> answer the flow \<open>tag\<close>?\<close>

definition flow_matches :: "msg_flow_tag \<Rightarrow> msg_flow_tag \<Rightarrow> bool" where
  "flow_matches tag recv \<longleftrightarrow>
     flow_msg_tag tag = flow_msg_tag recv \<and>
     flow_tag_owner tag \<noteq> flow_tag_owner recv \<and>
     flow_dest_eid tag = flow_src_eid recv"

section \<open>The table of flows in flight\<close>

text \<open>
  The \<open>while\<close> loop: \<open>index\<close> runs up to the first flow that matches, or to the end.
\<close>

function flow_scan :: "'s mctp_flow_list \<Rightarrow> msg_flow_tag \<Rightarrow> nat \<Rightarrow> nat" where
  "flow_scan flows recv index =
     (if index < length flows
      then if flow_matches (fst (flows ! index)) recv then index
           else flow_scan flows recv (index + 1)
      else index)"
  by pat_completeness auto
termination
  by (relation "measure (\<lambda>(flows, recv, index). length flows - index)") auto

declare flow_scan.simps [simp del]

text \<open>\<open>Vec::remove\<close> at the index found.\<close>

definition flow_take ::
  "msg_flow_tag \<Rightarrow> 's mctp_flow_list \<Rightarrow> ('s mctp_flow \<times> 's mctp_flow_list) option" where
  "flow_take recv flows =
     (let index = flow_scan flows recv 0
      in if index \<noteq> length flows
         then Some (flows ! index, take index flows @ drop (Suc index) flows)
         else None)"

definition flow_push :: "msg_flow_tag \<Rightarrow> 's \<Rightarrow> 's mctp_flow_list \<Rightarrow> 's mctp_flow_list" where
  "flow_push tag s flows = flows @ [(tag, s)]"

section \<open>The contract of the table\<close>

locale flow_table =
  fixes match :: "'t \<Rightarrow> 't \<Rightarrow> bool"
    and push :: "'t \<Rightarrow> 's \<Rightarrow> ('t \<times> 's) list \<Rightarrow> ('t \<times> 's) list"
    and takef :: "'t \<Rightarrow> ('t \<times> 's) list \<Rightarrow> (('t \<times> 's) \<times> ('t \<times> 's) list) option"
  assumes push_snoc: "push t s fs = fs @ [(t, s)]"
    and take_None_iff: "takef r fs = None \<longleftrightarrow> (\<forall>f \<in> set fs. \<not> match (fst f) r)"
    and take_split:
      "takef r fs = Some (f, rest) \<Longrightarrow>
         \<exists>pre post. fs = pre @ f # post \<and> rest = pre @ post \<and> match (fst f) r \<and>
                    (\<forall>g \<in> set pre. \<not> match (fst g) r)"
begin

lemma take_matches: "takef r fs = Some (f, rest) \<Longrightarrow> match (fst f) r"
  by (drule take_split) blast

lemma take_member: "takef r fs = Some (f, rest) \<Longrightarrow> f \<in> set fs"
  by (drule take_split) auto

lemma take_rest_subset: "takef r fs = Some (f, rest) \<Longrightarrow> set rest \<subseteq> set fs"
  by (drule take_split) auto

lemma take_set: "takef r fs = Some (f, rest) \<Longrightarrow> set fs = insert f (set rest)"
  by (drule take_split) auto

lemma take_length: "takef r fs = Some (f, rest) \<Longrightarrow> length fs = Suc (length rest)"
  by (drule take_split) auto

text \<open>Each waiter is served at most once: its sender leaves the table with the flow.\<close>

lemma take_distinct:
  assumes "distinct (map snd fs)" "takef r fs = Some (f, rest)"
  shows "distinct (map snd rest) \<and> snd f \<notin> snd ` set rest"
proof -
  from take_split [OF assms(2)] obtain pre post
    where "fs = pre @ f # post" "rest = pre @ post" by blast
  with assms(1) show ?thesis by (simp add: image_Un)
qed

text \<open>A flow that was pushed is found again, unless an older one matches as well.\<close>

lemma take_push:
  assumes "match t r"
  shows "takef r (push t s fs) =
    (case takef r fs of None \<Rightarrow> Some ((t, s), fs) | Some (f, rest) \<Rightarrow> Some (f, push t s rest))"
proof -
  have "takef r (push t s fs) \<noteq> None"
    using assms by (auto simp: take_None_iff push_snoc)
  then obtain f rest where tk: "takef r (push t s fs) = Some (f, rest)" by auto
  then obtain pre post where sp: "fs @ [(t, s)] = pre @ f # post" "rest = pre @ post"
      "match (fst f) r" "\<And>g. g \<in> set pre \<Longrightarrow> \<not> match (fst g) r"
    using take_split [OF tk] by (auto simp: push_snoc)
  show ?thesis
  proof (cases "takef r fs")
    case None
    then have no: "\<And>g. g \<in> set fs \<Longrightarrow> \<not> match (fst g) r" by (simp add: take_None_iff)
    have "post = []"
    proof (rule ccontr)
      assume "post \<noteq> []"
      then obtain ps p where "post = ps @ [p]" by (cases post rule: rev_cases) auto
      with sp(1) have "f \<in> set fs" by auto
      with no sp(3) show False by blast
    qed
    with sp None tk show ?thesis by simp
  next
    case (Some a)
    obtain f' rest' where a: "takef r fs = Some (f', rest')" using Some by (cases a) auto
    obtain pre' post' where sp': "fs = pre' @ f' # post'" "rest' = pre' @ post'"
        "match (fst f') r" "\<And>g. g \<in> set pre' \<Longrightarrow> \<not> match (fst g) r"
      using take_split [OF a] by blast
    have "pre' @ f' # (post' @ [(t, s)]) = pre @ f # post" using sp(1) sp'(1) by simp
    then have "pre' = pre \<and> f' = f \<and> post' @ [(t, s)] = post"
      by (rule first_split_unique [where P = "\<lambda>g. match (fst g) r"])
        (simp_all add: sp(3,4) sp'(3,4))
    with a tk sp(2) sp'(2) show ?thesis by (auto simp: push_snoc)
  qed
qed

end

lemma flow_scan_step:
  "flow_scan flows recv i =
    (if i < length flows then if flow_matches (fst (flows ! i)) recv then i
      else flow_scan flows recv (Suc i) else i)"
  by (subst flow_scan.simps) simp

lemma flow_scan_spec:
  assumes "i \<le> length flows"
  shows "i \<le> flow_scan flows recv i \<and> flow_scan flows recv i \<le> length flows \<and>
    (\<forall>k. i \<le> k \<and> k < flow_scan flows recv i \<longrightarrow> \<not> flow_matches (fst (flows ! k)) recv) \<and>
    (flow_scan flows recv i < length flows \<longrightarrow>
       flow_matches (fst (flows ! flow_scan flows recv i)) recv)"
  using assms
proof (induction flows recv i rule: flow_scan.induct)
  case (1 flows recv i)
  show ?case
  proof (cases "i < length flows \<and> \<not> flow_matches (fst (flows ! i)) recv")
    case True
    with "1.IH" have
      "Suc i \<le> flow_scan flows recv (Suc i) \<and> flow_scan flows recv (Suc i) \<le> length flows \<and>
       (\<forall>k. Suc i \<le> k \<and> k < flow_scan flows recv (Suc i) \<longrightarrow> \<not> flow_matches (fst (flows ! k)) recv) \<and>
       (flow_scan flows recv (Suc i) < length flows \<longrightarrow>
         flow_matches (fst (flows ! flow_scan flows recv (Suc i))) recv)"
      by simp
    moreover have "flow_scan flows recv i = flow_scan flows recv (Suc i)"
      using True by (subst flow_scan_step) simp
    ultimately show ?thesis using True by (metis Suc_leD Suc_leI le_neq_implies_less)
  next
    case False
    then show ?thesis using "1.prems" by (auto simp: flow_scan_step [of flows recv i])
  qed
qed

interpretation flows: flow_table flow_matches flow_push flow_take
proof (unfold_locales, goal_cases)
  case (1 t s fs)
  show ?case by (simp add: flow_push_def)
next
  case (2 r fs)
  let ?i = "flow_scan fs r 0"
  have spec: "?i \<le> length fs" "\<And>k. k < ?i \<Longrightarrow> \<not> flow_matches (fst (fs ! k)) r"
      "?i < length fs \<Longrightarrow> flow_matches (fst (fs ! ?i)) r"
    using flow_scan_spec [of 0 fs r] by simp_all
  show ?case
  proof (cases "?i = length fs")
    case True
    then have "\<not> flow_matches (fst f) r" if "f \<in> set fs" for f
      using that spec(2) by (metis in_set_conv_nth)
    with True show ?thesis by (simp add: flow_take_def)
  next
    case False
    with spec have "fs ! ?i \<in> set fs" "flow_matches (fst (fs ! ?i)) r" by simp_all
    with False show ?thesis unfolding flow_take_def Let_def by auto
  qed
next
  case (3 r fs f rest)
  let ?i = "flow_scan fs r 0"
  from 3 have i: "?i < length fs" "f = fs ! ?i" "rest = take ?i fs @ drop (Suc ?i) fs"
    using flow_scan_spec [of 0 fs r] by (auto simp: flow_take_def Let_def split: if_splits)
  have "fs = take ?i fs @ f # drop (Suc ?i) fs"
    using i by (simp add: id_take_nth_drop)
  moreover have "\<not> flow_matches (fst g) r" if "g \<in> set (take ?i fs)" for g
  proof -
    from that obtain k where "k < ?i" "g = fs ! k" by (auto simp: in_set_conv_nth)
    then show ?thesis using flow_scan_spec [of 0 fs r] by simp
  qed
  moreover have "flow_matches (fst f) r"
    using i flow_scan_spec [of 0 fs r] by simp
  ultimately show ?case using i(3) by blast
qed

text \<open>The first flow that matches, by its position.\<close>

lemma flow_take_nth:
  assumes "i < length fs" "flow_matches (fst (fs ! i)) r" "\<And>j. j < i \<Longrightarrow> \<not> flow_matches (fst (fs ! j)) r"
  shows "flow_take r fs = Some (fs ! i, take i fs @ drop (Suc i) fs)"
proof -
  have "flow_scan fs r 0 = i"
    using flow_scan_spec [of 0 fs r] assms by (metis le_neq_implies_less linorder_neqE_nat order_less_le_trans zero_le)
  with assms(1) show ?thesis by (simp add: flow_take_def)
qed

lemma flow_take_hd:
  "flow_matches t r \<Longrightarrow> flow_take r ((t, s) # fs) = Some ((t, s), fs)"
  by (simp add: flow_take_def flow_scan_step [of "(t, s) # fs" r 0])

section \<open>Tags of requests and responses\<close>

lemma flow_matches_irrefl: "\<not> flow_matches t t"
  by (simp add: flow_matches_def)

context crates_spec
begin

lemma create_tag_long:
  assumes "4 \<le> length bs"
  shows "\<exists>h. wf_transport_header h \<and> transport_header_try_from C bs = Ok h \<and>
    create_tag C bs = Some (header_tag C h)"
  using th.try_from_long [of bs C] assms
  by (auto simp: create_tag_def transport_header_try_from_def transport_header_size_def)

text \<open>\<open>create_tag\<close> never returns \<open>None\<close>: its error branches cannot be reached.\<close>

lemma create_tag_total: "\<exists>t. create_tag C bs = Some t"
  using create_tag_long [of bs] by (cases "length bs < 4") (auto simp: create_tag_def)

lemma create_tag_ser:
  assumes "wf_transport_header h"
  shows "create_tag C (transport_header_ser C h @ r) = Some (header_tag C h)"
  using assms th.try_from_enc [of h C r] th.enc_length [of h]
  by (simp add: create_tag_def transport_header_try_from_def transport_header_size_def)

text \<open>The response header answers the flow of its request.\<close>

lemma response_matches:
  assumes "wf_transport_header h"
  shows "flow_matches (header_tag C h) (header_tag C (create_response C h))"
  using assms tag_owner_cases [OF assms]
  by (auto simp: flow_matches_def header_tag_def header_simps)

end

section \<open>The table as a search\<close>

text \<open>The reference: a recursive search that takes the first flow that matches.\<close>

fun flow_search ::
  "msg_flow_tag \<Rightarrow> 's mctp_flow_list \<Rightarrow> ('s mctp_flow \<times> 's mctp_flow_list) option" where
  "flow_search recv [] = None"
| "flow_search recv (f # fs) =
     (if flow_matches (fst f) recv then Some (f, fs)
      else map_option (\<lambda>(g, rest). (g, f # rest)) (flow_search recv fs))"

lemma flow_search_None: "\<forall>f \<in> set fs. \<not> flow_matches (fst f) recv \<Longrightarrow> flow_search recv fs = None"
  by (induction fs) simp_all

lemma flow_search_split:
  "\<forall>g \<in> set pre. \<not> flow_matches (fst g) recv \<Longrightarrow> flow_matches (fst f) recv \<Longrightarrow>
     flow_search recv (pre @ f # post) = Some (f, pre @ post)"
  by (induction pre) simp_all

section \<open>Properties\<close>

text \<open>
  C25: the loop that counts an index up to the first flow that matches and
  then removes that index is the search for the oldest flow the received tag answers; that flow
  and nothing else leaves the table.
\<close>

theorem flow_take_is_search: "flow_take recv fs = flow_search recv fs"
proof (cases "flow_take recv fs")
  case None
  then show ?thesis using flows.take_None_iff [of recv fs] by (simp add: flow_search_None)
next
  case (Some x)
  obtain f rest where x: "x = (f, rest)" by (cases x)
  from flows.take_split [OF Some [unfolded x]] obtain pre post
    where "fs = pre @ f # post" "rest = pre @ post" "flow_matches (fst f) recv"
      "\<forall>g \<in> set pre. \<not> flow_matches (fst g) recv" by blast
  then show ?thesis using Some x by (simp add: flow_search_split)
qed

context crates_spec
begin

lemma response_packet_matches:
  assumes "wf_transport_header h"
  shows "\<exists>t rt. create_tag C (transport_header_ser C h @ body) = Some t \<and>
    create_tag C (transport_header_ser C (create_response C h) @ reply) = Some rt \<and>
    flow_matches t rt \<and> \<not> flow_matches t t"
  using create_tag_ser [OF assms] create_tag_ser [OF response_fields(1) [OF assms]]
    response_matches [OF assms] flow_matches_irrefl by blast

end

text \<open>
  C26: a packet sent with the response header of a request matches
  the flow the request is recorded under, whatever the two bodies are; the request itself
  does not match its own flow.
\<close>

theorem response_answers_request:
  assumes "crates_spec C" "wf_transport_header h"
  shows "\<exists>t rt. create_tag C (transport_header_ser C h @ body) = Some t \<and>
    create_tag C (transport_header_ser C (create_response C h) @ reply) = Some rt \<and>
    flow_matches t rt \<and> \<not> flow_matches t t"
  by (rule crates_spec.response_packet_matches [OF assms])

theorem response_answers_request_witness:
  "\<exists>t rt. create_tag std_crates (transport_header_ser std_crates
       (transport_header_new std_crates 8 9 5 (Some True) (Some True) (Some True)) @ [0, 0x80, 2]) = Some t \<and>
    create_tag std_crates (transport_header_ser std_crates (create_response std_crates
       (transport_header_new std_crates 8 9 5 (Some True) (Some True) (Some True))) @ [0, 0, 2, 0]) = Some rt \<and>
    flow_matches t rt \<and> \<not> flow_matches t t"
  by (rule response_answers_request [OF std_crates_spec std.new_wf])

end
