(* ===== verification/Enums.thy ===== *)
theory Enums
  imports Codec
begin

text \<open>
  The enumerations of \<open>mctp-base-lib/src/control/enums.rs\<close>. Each is a datatype with the
  source's variants, its \<open>as u8\<close> cast (the declared discriminants) and the \<open>From<u8>\<close>
  that \<open>num_enum::FromPrimitive\<close> derives from the declaration: the discriminants, in
  declaration order, and the variant marked \<open>#[default]\<close>. The locale \<open>u8_enum\<close> is the
  contract of such a pair of conversions.
\<close>

section \<open>The contract of a byte enumeration\<close>

locale u8_enum =
  fixes to_u8 :: "'e \<Rightarrow> u8"
    and from_u8 :: "u8 \<Rightarrow> 'e"
    and variants :: "'e list"
    and dflt :: 'e
  assumes variants_all: "e \<in> set variants"
    and from_to: "from_u8 (to_u8 e) = e"
    and from_unknown: "v \<notin> to_u8 ` set variants \<Longrightarrow> from_u8 v = dflt"
begin

lemma to_u8_inj: "to_u8 e = to_u8 f \<longleftrightarrow> e = f"
  by (metis from_to)

text \<open>Decoding a byte is exact, or it falls back to the default variant.\<close>

lemma to_from: "to_u8 (from_u8 v) = v \<or> from_u8 v = dflt"
proof (cases "v \<in> to_u8 ` set variants")
  case True
  then show ?thesis by (auto simp: from_to)
qed (simp add: from_unknown)

lemma from_eq_iff: "e \<noteq> dflt \<Longrightarrow> from_u8 v = e \<longleftrightarrow> v = to_u8 e"
  by (metis from_to to_from)

lemma to_from_known: "v \<in> to_u8 ` set variants \<Longrightarrow> to_u8 (from_u8 v) = v"
  by (auto simp: from_to)

lemma from_dflt_iff: "from_u8 v = dflt \<longleftrightarrow> v = to_u8 dflt \<or> v \<notin> to_u8 ` set variants"
proof (cases "v \<in> to_u8 ` set variants")
  case True
  then show ?thesis by (auto simp: from_to to_u8_inj)
qed (simp add: from_unknown)

end

definition enum_from :: "crates \<Rightarrow> 'e list \<Rightarrow> ('e \<Rightarrow> u8) \<Rightarrow> nat \<Rightarrow> u8 \<Rightarrow> 'e" where
  "enum_from C vs to_u8 d v = vs ! from_primitive C (map to_u8 vs) d v"

context crates_spec
begin

lemma enum_from_u8_enum:
  assumes all: "\<And>e. e \<in> set vs"
    and dist: "distinct (map to_u8 vs)"
    and d: "vs ! d = dflt"
  shows "u8_enum to_u8 (enum_from C vs to_u8 d) vs dflt"
proof
  fix e
  from all obtain k where k: "k < length vs" "vs ! k = e"
    by (auto simp: in_set_conv_nth)
  then have "from_primitive C (map to_u8 vs) d (map to_u8 vs ! k) = k"
    using dist by (intro from_variant) simp_all
  with k show "enum_from C vs to_u8 d (to_u8 e) = e"
    by (simp add: enum_from_def)
next
  fix v
  assume "v \<notin> to_u8 ` set vs"
  then have "from_primitive C (map to_u8 vs) d v = d"
    by (intro from_other) simp
  with d show "enum_from C vs to_u8 d v = dflt"
    by (simp add: enum_from_def)
qed (rule all)

end

section \<open>The enumerations\<close>

text \<open>\<open>CommandCode\<close>: the command byte of a control message.\<close>

datatype command_code =
    Reserved | SetEndpointID | GetEndpointID | GetEndpointUUID
  | GetMCTPVersionSupport | GetMessageTypeSupport | GetVendorDefinedMessageSupport | ResolveEndpointID
  | AllocateEndpointIDs | RoutingInformationUpdate | GetRoutingTableEntries | PrepareForEndpointDiscovery
  | EndpointDiscovery | DiscoveryNotify | GetNetworkID | QueryHop
  | ResolveUUID | QueryRateLimit | RequestTXRateLimit | UpdateRateLimit
  | QuerySupportedInterfaces | Unknown

fun command_code_to_u8 :: "command_code \<Rightarrow> u8" where
  "command_code_to_u8 Reserved = 0x00"
| "command_code_to_u8 SetEndpointID = 0x01"
| "command_code_to_u8 GetEndpointID = 0x02"
| "command_code_to_u8 GetEndpointUUID = 0x03"
| "command_code_to_u8 GetMCTPVersionSupport = 0x04"
| "command_code_to_u8 GetMessageTypeSupport = 0x05"
| "command_code_to_u8 GetVendorDefinedMessageSupport = 0x06"
| "command_code_to_u8 ResolveEndpointID = 0x07"
| "command_code_to_u8 AllocateEndpointIDs = 0x08"
| "command_code_to_u8 RoutingInformationUpdate = 0x09"
| "command_code_to_u8 GetRoutingTableEntries = 0x0A"
| "command_code_to_u8 PrepareForEndpointDiscovery = 0x0B"
| "command_code_to_u8 EndpointDiscovery = 0x0C"
| "command_code_to_u8 DiscoveryNotify = 0x0D"
| "command_code_to_u8 GetNetworkID = 0x0E"
| "command_code_to_u8 QueryHop = 0x0F"
| "command_code_to_u8 ResolveUUID = 0x10"
| "command_code_to_u8 QueryRateLimit = 0x11"
| "command_code_to_u8 RequestTXRateLimit = 0x12"
| "command_code_to_u8 UpdateRateLimit = 0x13"
| "command_code_to_u8 QuerySupportedInterfaces = 0x14"
| "command_code_to_u8 Unknown = 0xFF"

definition command_code_variants :: "command_code list" where
  "command_code_variants =
     [Reserved, SetEndpointID, GetEndpointID, GetEndpointUUID,
      GetMCTPVersionSupport, GetMessageTypeSupport, GetVendorDefinedMessageSupport, ResolveEndpointID,
      AllocateEndpointIDs, RoutingInformationUpdate, GetRoutingTableEntries, PrepareForEndpointDiscovery,
      EndpointDiscovery, DiscoveryNotify, GetNetworkID, QueryHop,
      ResolveUUID, QueryRateLimit, RequestTXRateLimit, UpdateRateLimit,
      QuerySupportedInterfaces, Unknown]"

definition command_code_from_u8 :: "crates \<Rightarrow> u8 \<Rightarrow> command_code" where
  "command_code_from_u8 C = enum_from C command_code_variants command_code_to_u8 21"

definition command_code_default :: command_code where
  "command_code_default = Unknown"

sublocale crates_spec \<subseteq> command_code_enum: u8_enum command_code_to_u8 "command_code_from_u8 C" command_code_variants command_code_default
  unfolding command_code_from_u8_def
proof (rule enum_from_u8_enum)
  show "e \<in> set command_code_variants" for e
    by (cases e) (simp_all add: command_code_variants_def)
qed (simp_all add: command_code_variants_def command_code_default_def)

text \<open>\<open>CompletionCode\<close>: the status byte of a response.\<close>

datatype completion_code =
    Success | Error | ErrorInvalidData | ErrorInvalidLength
  | ErrorNotReady | ErrorUnsupportedCmd

fun completion_code_to_u8 :: "completion_code \<Rightarrow> u8" where
  "completion_code_to_u8 Success = 0x00"
| "completion_code_to_u8 Error = 0x01"
| "completion_code_to_u8 ErrorInvalidData = 0x02"
| "completion_code_to_u8 ErrorInvalidLength = 0x03"
| "completion_code_to_u8 ErrorNotReady = 0x04"
| "completion_code_to_u8 ErrorUnsupportedCmd = 0x05"

definition completion_code_variants :: "completion_code list" where
  "completion_code_variants =
     [Success, Error, ErrorInvalidData, ErrorInvalidLength,
      ErrorNotReady, ErrorUnsupportedCmd]"

definition completion_code_from_u8 :: "crates \<Rightarrow> u8 \<Rightarrow> completion_code" where
  "completion_code_from_u8 C = enum_from C completion_code_variants completion_code_to_u8 5"

definition completion_code_default :: completion_code where
  "completion_code_default = ErrorUnsupportedCmd"

sublocale crates_spec \<subseteq> completion_code_enum: u8_enum completion_code_to_u8 "completion_code_from_u8 C" completion_code_variants completion_code_default
  unfolding completion_code_from_u8_def
proof (rule enum_from_u8_enum)
  show "e \<in> set completion_code_variants" for e
    by (cases e) (simp_all add: completion_code_variants_def)
qed (simp_all add: completion_code_variants_def completion_code_default_def)

text \<open>\<open>MessageType\<close>: the type of an MCTP message.\<close>

datatype message_type =
    Control | Pldm | NCSIOverMCTP | EthernetOverMCTP
  | NvmExpressOverMCTP | SpdmOverMCTP | SecuredMessages | CxlFmApiOverMCTP
  | CxlCciOverMCTP | VendorDefinedPCI | VendorDefinedIANA | Invalid

fun message_type_to_u8 :: "message_type \<Rightarrow> u8" where
  "message_type_to_u8 Control = 0x00"
| "message_type_to_u8 Pldm = 0x01"
| "message_type_to_u8 NCSIOverMCTP = 0x02"
| "message_type_to_u8 EthernetOverMCTP = 0x03"
| "message_type_to_u8 NvmExpressOverMCTP = 0x04"
| "message_type_to_u8 SpdmOverMCTP = 0x05"
| "message_type_to_u8 SecuredMessages = 0x06"
| "message_type_to_u8 CxlFmApiOverMCTP = 0x07"
| "message_type_to_u8 CxlCciOverMCTP = 0x08"
| "message_type_to_u8 VendorDefinedPCI = 0x7E"
| "message_type_to_u8 VendorDefinedIANA = 0x7F"
| "message_type_to_u8 Invalid = 0xFF"

definition message_type_variants :: "message_type list" where
  "message_type_variants =
     [Control, Pldm, NCSIOverMCTP, EthernetOverMCTP,
      NvmExpressOverMCTP, SpdmOverMCTP, SecuredMessages, CxlFmApiOverMCTP,
      CxlCciOverMCTP, VendorDefinedPCI, VendorDefinedIANA, Invalid]"

definition message_type_from_u8 :: "crates \<Rightarrow> u8 \<Rightarrow> message_type" where
  "message_type_from_u8 C = enum_from C message_type_variants message_type_to_u8 11"

definition message_type_default :: message_type where
  "message_type_default = Invalid"

sublocale crates_spec \<subseteq> message_type_enum: u8_enum message_type_to_u8 "message_type_from_u8 C" message_type_variants message_type_default
  unfolding message_type_from_u8_def
proof (rule enum_from_u8_enum)
  show "e \<in> set message_type_variants" for e
    by (cases e) (simp_all add: message_type_variants_def)
qed (simp_all add: message_type_variants_def message_type_default_def)

text \<open>\<open>PhysicalMediumIdentifier\<close>.\<close>

datatype physical_medium_identifier =
    Unspecified | SMBUS_2_0_100khz | SMBUS_2_0_I2C_100khz | I2C_100khz
  | SMBUS_3_0_I2C_400khz | SMBUS_3_0_I2C_1mhz | I2C_3_4mhz | PCIeRev_1_1
  | PCIeRev_2_0 | PCIeRev_2_1 | PCIeRev_3 | PCIeRev_4
  | PCIeRev_5 | PCICompatible | USB_1_1 | USB_2
  | USB_3 | NCSIOverRBT | KCSLegacy | KCSPCI
  | SerialHostLegacy | SerialHostPCI | AsyncSerial | I3CBasic

fun physical_medium_identifier_to_u8 :: "physical_medium_identifier \<Rightarrow> u8" where
  "physical_medium_identifier_to_u8 Unspecified = 0x00"
| "physical_medium_identifier_to_u8 SMBUS_2_0_100khz = 0x01"
| "physical_medium_identifier_to_u8 SMBUS_2_0_I2C_100khz = 0x02"
| "physical_medium_identifier_to_u8 I2C_100khz = 0x03"
| "physical_medium_identifier_to_u8 SMBUS_3_0_I2C_400khz = 0x04"
| "physical_medium_identifier_to_u8 SMBUS_3_0_I2C_1mhz = 0x05"
| "physical_medium_identifier_to_u8 I2C_3_4mhz = 0x06"
| "physical_medium_identifier_to_u8 PCIeRev_1_1 = 0x08"
| "physical_medium_identifier_to_u8 PCIeRev_2_0 = 0x09"
| "physical_medium_identifier_to_u8 PCIeRev_2_1 = 0x0A"
| "physical_medium_identifier_to_u8 PCIeRev_3 = 0x0B"
| "physical_medium_identifier_to_u8 PCIeRev_4 = 0x0C"
| "physical_medium_identifier_to_u8 PCIeRev_5 = 0x0D"
| "physical_medium_identifier_to_u8 PCICompatible = 0x0F"
| "physical_medium_identifier_to_u8 USB_1_1 = 0x10"
| "physical_medium_identifier_to_u8 USB_2 = 0x11"
| "physical_medium_identifier_to_u8 USB_3 = 0x12"
| "physical_medium_identifier_to_u8 NCSIOverRBT = 0x18"
| "physical_medium_identifier_to_u8 KCSLegacy = 0x20"
| "physical_medium_identifier_to_u8 KCSPCI = 0x21"
| "physical_medium_identifier_to_u8 SerialHostLegacy = 0x22"
| "physical_medium_identifier_to_u8 SerialHostPCI = 0x23"
| "physical_medium_identifier_to_u8 AsyncSerial = 0x24"
| "physical_medium_identifier_to_u8 I3CBasic = 0x30"

definition physical_medium_identifier_variants :: "physical_medium_identifier list" where
  "physical_medium_identifier_variants =
     [Unspecified, SMBUS_2_0_100khz, SMBUS_2_0_I2C_100khz, I2C_100khz,
      SMBUS_3_0_I2C_400khz, SMBUS_3_0_I2C_1mhz, I2C_3_4mhz, PCIeRev_1_1,
      PCIeRev_2_0, PCIeRev_2_1, PCIeRev_3, PCIeRev_4,
      PCIeRev_5, PCICompatible, USB_1_1, USB_2,
      USB_3, NCSIOverRBT, KCSLegacy, KCSPCI,
      SerialHostLegacy, SerialHostPCI, AsyncSerial, I3CBasic]"

definition physical_medium_identifier_from_u8 :: "crates \<Rightarrow> u8 \<Rightarrow> physical_medium_identifier" where
  "physical_medium_identifier_from_u8 C = enum_from C physical_medium_identifier_variants physical_medium_identifier_to_u8 0"

definition physical_medium_identifier_default :: physical_medium_identifier where
  "physical_medium_identifier_default = Unspecified"

sublocale crates_spec \<subseteq> physical_medium_identifier_enum: u8_enum physical_medium_identifier_to_u8 "physical_medium_identifier_from_u8 C" physical_medium_identifier_variants physical_medium_identifier_default
  unfolding physical_medium_identifier_from_u8_def
proof (rule enum_from_u8_enum)
  show "e \<in> set physical_medium_identifier_variants" for e
    by (cases e) (simp_all add: physical_medium_identifier_variants_def)
qed (simp_all add: physical_medium_identifier_variants_def physical_medium_identifier_default_def)

text \<open>\<open>PhysicalTransportBinding\<close>; its \<open>Reserved\<close> is \<open>BindingReserved\<close> here.\<close>

datatype physical_transport_binding =
    BindingReserved | MCTPoverSMBus | MCTPoverPcieVdm | MCTPoverKCS
  | MCTPoverSerial | MCTPoverI3C | VendorDefined

fun physical_transport_binding_to_u8 :: "physical_transport_binding \<Rightarrow> u8" where
  "physical_transport_binding_to_u8 BindingReserved = 0x00"
| "physical_transport_binding_to_u8 MCTPoverSMBus = 0x01"
| "physical_transport_binding_to_u8 MCTPoverPcieVdm = 0x02"
| "physical_transport_binding_to_u8 MCTPoverKCS = 0x04"
| "physical_transport_binding_to_u8 MCTPoverSerial = 0x05"
| "physical_transport_binding_to_u8 MCTPoverI3C = 0x06"
| "physical_transport_binding_to_u8 VendorDefined = 0xFF"

definition physical_transport_binding_variants :: "physical_transport_binding list" where
  "physical_transport_binding_variants =
     [BindingReserved, MCTPoverSMBus, MCTPoverPcieVdm, MCTPoverKCS,
      MCTPoverSerial, MCTPoverI3C, VendorDefined]"

definition physical_transport_binding_from_u8 :: "crates \<Rightarrow> u8 \<Rightarrow> physical_transport_binding" where
  "physical_transport_binding_from_u8 C = enum_from C physical_transport_binding_variants physical_transport_binding_to_u8 6"

definition physical_transport_binding_default :: physical_transport_binding where
  "physical_transport_binding_default = VendorDefined"

sublocale crates_spec \<subseteq> physical_transport_binding_enum: u8_enum physical_transport_binding_to_u8 "physical_transport_binding_from_u8 C" physical_transport_binding_variants physical_transport_binding_default
  unfolding physical_transport_binding_from_u8_def
proof (rule enum_from_u8_enum)
  show "e \<in> set physical_transport_binding_variants" for e
    by (cases e) (simp_all add: physical_transport_binding_variants_def)
qed (simp_all add: physical_transport_binding_variants_def physical_transport_binding_default_def)

text \<open>\<open>CommandCode\<close> derives \<open>PartialOrd\<close> and \<open>Ord\<close>: variants compare by their discriminants.\<close>

definition command_code_le :: "command_code \<Rightarrow> command_code \<Rightarrow> bool" where
  "command_code_le a b \<longleftrightarrow> command_code_to_u8 a \<le> command_code_to_u8 b"

definition command_code_lt :: "command_code \<Rightarrow> command_code \<Rightarrow> bool" where
  "command_code_lt a b \<longleftrightarrow> command_code_to_u8 a < command_code_to_u8 b"

lemma command_code_le_antisym:
  assumes "command_code_le a b" "command_code_le b a"
  shows "a = b"
proof -
  from assms have "command_code_to_u8 a = command_code_to_u8 b" by (simp add: command_code_le_def)
  then show ?thesis by (simp add: std.command_code_enum.to_u8_inj)
qed

instantiation command_code :: linorder
begin

definition less_eq_command_code :: "command_code \<Rightarrow> command_code \<Rightarrow> bool" where
  "less_eq_command_code = command_code_le"

definition less_command_code :: "command_code \<Rightarrow> command_code \<Rightarrow> bool" where
  "less_command_code = command_code_lt"

instance
  by standard
    (auto simp: less_eq_command_code_def less_command_code_def command_code_lt_def command_code_le_def
      intro: command_code_le_antisym [unfolded command_code_le_def])

end

section \<open>Response status\<close>

text \<open>
  \<open>derive(AddControlMsgResponse)\<close> gives a response its \<open>completion_code\<close> and
  \<open>is_success\<close>, both from the raw byte of its \<open>completion_code\<close> field.
\<close>

definition response_completion_code :: "crates \<Rightarrow> u8 \<Rightarrow> completion_code" where
  "response_completion_code C raw = completion_code_from_u8 C raw"

definition response_is_success :: "crates \<Rightarrow> u8 \<Rightarrow> (anyhow, unit) res" where
  "response_is_success C raw =
     (if completion_code_from_u8 C raw \<noteq> Success
      then Err [''Response returned an error code: '' @ to_string (unat raw)]
      else Ok ())"

context crates_spec
begin

text \<open>A response is successful exactly when its byte is 0: unknown codes are errors.\<close>

lemma is_success_iff: "is_ok (response_is_success C raw) \<longleftrightarrow> raw = 0"
  using completion_code_enum.from_eq_iff [of Success raw]
  by (simp add: response_is_success_def completion_code_default_def)

lemma is_success_zero [simp]: "response_is_success C 0 = Ok ()"
  using completion_code_enum.from_to [of Success] by (simp add: response_is_success_def)

end

section \<open>Properties\<close>

context crates_spec
begin

lemma command_code_codec:
  "command_code_from_u8 C (command_code_to_u8 c) = c \<and>
   (command_code_from_u8 C v = Unknown \<longleftrightarrow>
      v = command_code_to_u8 Unknown \<or> v \<notin> command_code_to_u8 ` set command_code_variants) \<and>
   (v \<in> command_code_to_u8 ` set command_code_variants \<longrightarrow>
      command_code_to_u8 (command_code_from_u8 C v) = v)"
  using command_code_enum.from_to [of c] command_code_enum.from_dflt_iff [of v]
    command_code_enum.to_from_known [of v]
  unfolding command_code_default_def by (intro conjI impI) simp_all

end

text \<open>
  Decoding a command byte never fails. Every variant survives the
  round trip, a byte that is the code of a variant is kept, and exactly the other bytes (and
  the code of \<open>Unknown\<close> itself) decode to \<open>Unknown\<close>.
\<close>

theorem command_code_total:
  assumes "crates_spec C"
  shows "command_code_from_u8 C (command_code_to_u8 c) = c \<and>
    (command_code_from_u8 C v = Unknown \<longleftrightarrow>
       v = command_code_to_u8 Unknown \<or> v \<notin> command_code_to_u8 ` set command_code_variants) \<and>
    (v \<in> command_code_to_u8 ` set command_code_variants \<longrightarrow>
       command_code_to_u8 (command_code_from_u8 C v) = v)"
  by (rule crates_spec.command_code_codec [OF assms])

theorem command_code_total_witness:
  "command_code_from_u8 std_crates (command_code_to_u8 DiscoveryNotify) = DiscoveryNotify \<and>
   command_code_from_u8 std_crates 0x77 = Unknown"
  using command_code_total [OF std_crates_spec, of DiscoveryNotify "0x77"]
  by (simp add: command_code_variants_def)

end
