(* ===== verification/NetTypes.thy ===== *)
theory NetTypes
  imports Flows Enums
begin

text \<open>
  The vocabulary of the network layer, \<open>src/network/types.rs\<close>: socket addresses, clients,
  routes and neighbours, the messages a physical binding delivers, and the trait
  \<open>NetworkBinding\<close>, whose contract is the locale \<open>network_binding\<close>.
\<close>

section \<open>Addresses\<close>

definition MCTP_NET_ANY :: u8 where "MCTP_NET_ANY = 0x08"
definition MCTP_ADDR_ANY :: u8 where "MCTP_ADDR_ANY = 0x08"
definition MCTP_ADDR_BCAST :: u8 where "MCTP_ADDR_BCAST = 0xff"
definition MCTP_TAG_OWNER :: u8 where "MCTP_TAG_OWNER = 0x08"

datatype socket_address =
    Basic u8 u8 u8                \<comment> \<open>address, message type, tag\<close>
  | Extended u8 u32 u64 u64       \<comment> \<open>address, network, binding id, physical address\<close>

text \<open>The C layout of socket addresses; nothing in the repository reads them.\<close>

record mctp_addr =
  s_addr :: u8

record sock_addr_mctp =
  smctp_family :: u16
  smctp_pad0 :: u16
  smctp_network :: u32
  smctp_addr :: mctp_addr
  smctp_type :: u8
  smctp_tag :: u8
  smctp_pad1 :: u8

record sock_addr_mctp_ext =
  smctp_base :: sock_addr_mctp
  smctp_ifindex :: i32
  smctp_halen :: u8
  smctp_ext_pad0 :: bytes
  smctp_haddr :: bytes

datatype network_binding_callback_msg = BindingReceive u64 bytes

datatype client_callback_msg = ClientReceive socket_address bytes

text \<open>
  A client and the queue of its message channel, which holds at most 32 messages; nothing in
  the repository sends on it.
\<close>

record client =
  client_address :: u8
  client_msg_type :: u8
  client_tag :: u8
  client_receive_chan :: "client_callback_msg list"

definition client_new :: "u8 \<Rightarrow> u8 \<Rightarrow> u8 \<Rightarrow> client" where
  "client_new address msg_type' tag =
     \<lparr>client_address = address, client_msg_type = msg_type', client_tag = tag,
      client_receive_chan = []\<rparr>"

section \<open>Routes and neighbours\<close>

datatype neighbour_source = NeighbourStatic | NeighbourDiscover

record neighbour =
  neighbour_eid :: u8
  neighbour_source :: neighbour_source
  neighbour_ha :: bytes

record route =
  min_eid :: u8
  max_eid :: u8
  route_net :: u32
  route_mtu :: u32
  route_type :: u8

definition route_matches :: "route \<Rightarrow> u32 \<Rightarrow> u8 \<Rightarrow> bool" where
  "route_matches r dnet daddr \<longleftrightarrow> dnet = route_net r \<and> min_eid r \<le> daddr \<and> max_eid r \<ge> daddr"

section \<open>Network devices\<close>

text \<open>
  The trait \<open>NetDevice\<close> and its commands, with the response channels as numbers; nothing in the
  repository implements it.
\<close>

datatype mctp_sender_command =
    OneShot message_type bytes nat
  | Broadcast message_type bytes nat

record 'd net_device_ops =
  dev_address :: "'d \<Rightarrow> u8 option"
  queue_xmit :: "'d \<Rightarrow> mctp_sender_command \<Rightarrow> (mctp_emu_error, unit) res \<times> 'd"

section \<open>Physical bindings\<close>

text \<open>The tasks the program spawns and whose handles it keeps.\<close>

datatype task = CallbackHandler | PollSocket u64

text \<open>A \<open>dyn NetworkBinding\<close>: the two methods of the trait on a binding of type \<open>'b\<close>.\<close>

record 'b binding_ops =
  op_transmit :: "'b \<Rightarrow> bytes \<Rightarrow> u64 \<Rightarrow> (mctp_emu_error, unit) res \<times> 'b"
  op_bind :: "'b \<Rightarrow> u64 \<Rightarrow> (mctp_emu_error, task) res \<times> 'b"

text \<open>
  What a network relies on: \<open>transmit\<close> appends to what is on the wire only datagrams that
  carry the message to the address, possibly cut short by the medium, at least a whole one when
  it returns \<open>Ok\<close>, and nothing when it returns an error about the address; \<open>bind\<close> sends
  nothing.
\<close>

locale network_binding =
  fixes ops :: "'b binding_ops"
    and wire :: "'b \<Rightarrow> bytes list"
    and carries :: "bytes \<Rightarrow> u64 \<Rightarrow> bytes \<Rightarrow> bool"
  assumes transmit_wire:
      "op_transmit ops b m a = (r, b') \<Longrightarrow>
         \<exists>fs. wire b' = wire b @ fs \<and> (\<forall>f \<in> set fs. \<exists>g n. carries m a g \<and> f = take n g) \<and>
           (r = Ok () \<longrightarrow> (\<exists>f \<in> set fs. carries m a f))"
    and transmit_rejects:
      "op_transmit ops b m a = (Err (EmuPhys (InvalidAddress x)), b') \<Longrightarrow> b' = b"
    and bind_wire: "op_bind ops b i = (h, b') \<Longrightarrow> wire b' = wire b"
begin

lemma transmit_ok:
  assumes "op_transmit ops b m a = (Ok (), b')"
  obtains f fs where "wire b' = wire b @ fs" "f \<in> set fs" "carries m a f"
  using transmit_wire [OF assms] by blast

lemma transmit_prefix: "op_transmit ops b m a = (r, b') \<Longrightarrow> \<exists>fs. wire b' = wire b @ fs"
  using transmit_wire by blast

end

section \<open>Sockets\<close>

text \<open>
  Both networks number their sockets with a wrapping counter and keep the bound clients in a
  map. The contract the two implementations of \<open>socket\<close> and \<open>bind\<close> share.
\<close>

locale socket_layer =
  fixes socket :: "'n \<Rightarrow> i32 \<times> 'n"
    and bindc :: "bool \<Rightarrow> 'n \<Rightarrow> i32 \<Rightarrow> u8 \<Rightarrow> u8 \<Rightarrow> u8 \<Rightarrow> (mctp_emu_error, unit) res \<times> 'n"
    and counter :: "'n \<Rightarrow> i32"
    and lookup :: "'n \<Rightarrow> i32 \<Rightarrow> client option"
  assumes socket_spec: "socket n = (sd, n') \<Longrightarrow>
      sd = counter n \<and> counter n' = counter n + 1 \<and> lookup n' = lookup n"
    and bind_spec: "bindc chk n sd a t g = (r, n') \<Longrightarrow>
      counter n' = counter n \<and>
      lookup n' = (if r = Ok () then (lookup n)(sd \<mapsto> client_new a t g) else lookup n)"
    and bind_result: "fst (bindc chk n sd a t g) =
      res_bind (sub_i chk (counter n) 1)
        (\<lambda>m. if sint sd < sint m then Err (EmuNetwork (InvalidSocketError sd)) else Ok ())"
begin

text \<open>The socket just opened can be bound, and its client is found under it.\<close>

lemma socket_then_bind:
  assumes "socket n = (sd, n1)" "bindc chk n1 sd a t g = (r, n2)"
    and no_wrap: "sint (counter n) < 2 ^ 31 - 1"
  shows "r = Ok () \<and> lookup n2 sd = Some (client_new a t g)"
proof -
  have n1: "sd = counter n" "counter n1 = counter n + 1"
    using socket_spec [OF assms(1)] by simp_all
  have "sint (counter n + 1) = sint (counter n) + 1"
    using no_wrap by (rule sint_succ)
  then have "fst (bindc chk n1 sd a t g) = Ok ()"
    by (simp add: bind_result n1 sub_i_def)
  with assms(2) have "r = Ok ()" by simp
  with bind_spec [OF assms(2)] show ?thesis by simp
qed

text \<open>Binding one descriptor leaves the clients of the others alone.\<close>

lemma bind_other:
  "bindc chk n sd a t g = (r, n') \<Longrightarrow> sd' \<noteq> sd \<Longrightarrow> lookup n' sd' = lookup n sd'"
  using bind_spec by auto

end

end
