(* ===== verification/Smbus.thy ===== *)
theory Smbus
  imports NetTypes
begin

text \<open>
  The SMBus transport binding: the packet header of \<open>src/phys/smbus_types.rs\<close> and
  \<open>SmbusNetDevBinding\<close> of \<open>src/phys/smbus_netdev.rs\<close>. The UDP socket is tokio's: the
  result of each of its calls is an argument, and the datagrams handed to it are recorded with
  the socket's answers, so that what it refused is told from what it sent.
\<close>

section \<open>The packet header\<close>

definition SMBUS_COMMAND_CODE_MCTP :: u8 where
  "SMBUS_COMMAND_CODE_MCTP = 0x0f"

record smbus_phys_transport_header =
  smbus_dest_addr :: u8
  smbus_command_code :: u8
  byte_count :: u8
  smbus_src_addr :: u8

definition smbus_header_new :: "u8 \<Rightarrow> u8 \<Rightarrow> u8 \<Rightarrow> smbus_phys_transport_header" where
  "smbus_header_new dest_addr_7bit src_addr_7bit count =
     \<lparr>smbus_dest_addr = push_bit 1 dest_addr_7bit, smbus_command_code = SMBUS_COMMAND_CODE_MCTP,
      byte_count = count, smbus_src_addr = push_bit 1 src_addr_7bit OR 0x01\<rparr>"

definition smbus_header_ser :: "crates \<Rightarrow> smbus_phys_transport_header \<Rightarrow> bytes" where
  "smbus_header_ser C h =
     write_u8 C (smbus_dest_addr h) @ write_u8 C (smbus_command_code h) @
     write_u8 C (byte_count h) @ write_u8 C (smbus_src_addr h)"

definition smbus_header_de :: "crates \<Rightarrow> bytes \<Rightarrow> (smbus_phys_transport_header \<times> bytes) option" where
  "smbus_header_de C bs = do {
     (d, r) \<leftarrow> read_u8 C bs;
     (c, r) \<leftarrow> read_u8 C r;
     (n, r) \<leftarrow> read_u8 C r;
     (s, r) \<leftarrow> read_u8 C r;
     Some (\<lparr>smbus_dest_addr = d, smbus_command_code = c, byte_count = n, smbus_src_addr = s\<rparr>, r)
   }"

definition smbus_header_size :: nat where
  "smbus_header_size = 4"

definition smbus_header_try_from ::
  "crates \<Rightarrow> bytes \<Rightarrow> (mctp_base_lib_error, smbus_phys_transport_header) res" where
  "smbus_header_try_from C = from_binary_try_from C smbus_header_size (smbus_header_de C)"

sublocale crates_spec \<subseteq> smb: exact_codec "smbus_header_ser C" "smbus_header_de C"
  smbus_header_size "\<lambda>_. True"
  by unfold_locales
    (auto simp: smbus_header_ser_def smbus_header_de_def smbus_header_size_def wire_u8
      length_4_conv)

section \<open>The binding\<close>

text \<open>
  A connected UDP socket, as the datagrams it was asked to send and its answers, oldest first:
  the number of bytes it took, or an error.
\<close>

record udp_socket =
  tx_log :: "(bytes \<times> (io_error + nat)) list"

type_synonym send_env = "bytes list \<Rightarrow> bytes \<Rightarrow> io_error + nat"
  \<comment> \<open>the result of \<open>try_send\<close>, from the datagrams it was given before and the datagram\<close>

text \<open>What a socket put on the wire: the datagrams it did not refuse, as far as it took them.\<close>

fun socket_sent :: "bytes \<times> (io_error + nat) \<Rightarrow> bytes list" where
  "socket_sent (d, Inr n) = [take n d]"
| "socket_sent (d, Inl e) = []"

lemma socket_sent_iff: "f \<in> set (socket_sent x) \<longleftrightarrow> (\<exists>d n. x = (d, Inr n) \<and> f = take n d)"
  by (cases x rule: socket_sent.cases) auto

record smbus_net_dev_binding =
  address :: u8
  network_id :: u64
  socket :: "udp_socket option"

definition smbus_binding_default :: smbus_net_dev_binding where
  "smbus_binding_default = \<lparr>address = 0, network_id = 0, socket = None\<rparr>"

definition validate_smbus_address :: "u64 \<Rightarrow> (mctp_emu_error, unit) res" where
  "validate_smbus_address addr =
     (if addr < 8 \<or> drop_bit 3 addr = 0b1111 \<or> addr > 0x7F
      then Err (EmuPhys (InvalidAddress addr)) else Ok ())"

definition set_address ::
  "u8 \<Rightarrow> smbus_net_dev_binding \<Rightarrow> (mctp_emu_error, unit) res \<times> smbus_net_dev_binding" where
  "set_address a b =
     (case validate_smbus_address (ucast a) of
        Ok _ \<Rightarrow> (Ok (), b\<lparr>address := a\<rparr>)
      | Err e \<Rightarrow> (Err e, b)
      | Panic m \<Rightarrow> (Panic m, b))"

text \<open>
  \<open>SmbusNetDevBinding::new\<close>: \<open>cascade!\<close> calls \<open>set_address\<close> as a statement, so its result
  is dropped. \<open>bound\<close> and \<open>connected\<close> are the results of the two socket calls.
\<close>

definition smbus_binding_new ::
  "io_error + unit \<Rightarrow> io_error + unit \<Rightarrow> u8 \<Rightarrow> (mctp_emu_error, smbus_net_dev_binding) res" where
  "smbus_binding_new bound connected a =
     (let b = snd (set_address a smbus_binding_default)
      in case bound of
           Inl e \<Rightarrow> Err (EmuPhys (SocketError e))
         | Inr _ \<Rightarrow>
             (case connected of
                Inl e \<Rightarrow> Err (EmuPhys (SocketError e))
              | Inr _ \<Rightarrow> Ok (b\<lparr>socket := Some \<lparr>tx_log = []\<rparr>\<rparr>)))"

text \<open>\<open>try_send\<close> records the datagram with what the socket answers, and returns the answer.\<close>

definition try_send :: "send_env \<Rightarrow> udp_socket \<Rightarrow> bytes \<Rightarrow> (io_error + nat) \<times> udp_socket" where
  "try_send env s d =
     (let r = env (map fst (tx_log s)) d in (r, s\<lparr>tx_log := tx_log s @ [(d, r)]\<rparr>))"

definition smbus_frame :: "crates \<Rightarrow> u8 \<Rightarrow> bytes \<Rightarrow> u64 \<Rightarrow> bytes" where
  "smbus_frame C own_addr msg phy_addr =
     (let dest_addr = ucast (phy_addr AND 0x7f) :: u8;
          msg_length = word_of_nat (length msg) AND 0xff :: u8;
          h = smbus_header_new dest_addr own_addr msg_length
      in smbus_header_ser C h @ msg @ [pec C msg])"

definition smbus_transmit ::
  "crates \<Rightarrow> send_env \<Rightarrow> smbus_net_dev_binding \<Rightarrow> bytes \<Rightarrow> u64
    \<Rightarrow> (mctp_emu_error, unit) res \<times> smbus_net_dev_binding" where
  "smbus_transmit C env b msg phy_addr =
     (case validate_smbus_address phy_addr of
        Err e \<Rightarrow> (Err e, b)
      | Panic m \<Rightarrow> (Panic m, b)
      | Ok _ \<Rightarrow>
          if length msg \<ge> 256
          then (Panic ''not yet implemented: Support fragmenting messages'', b)
          else
            (let tx_buf = smbus_frame C (address b) msg phy_addr
             in (case socket b of
                   None \<Rightarrow> (Panic ''called Option::unwrap on a None value'', b)
                 | Some s \<Rightarrow>
                     (let (sent_bytes, s1) = try_send env s tx_buf;
                          (result, s2) = try_send env s1 tx_buf
                      in (case result of
                            Inr sent \<Rightarrow>
                              (if sent = length tx_buf then Ok ()
                               else Err (EmuPhys (TransmitError
                                 (''incomplete transfer: '' @ to_string sent @ '' != '' @
                                  to_string (length tx_buf)))))
                          | Inl err \<Rightarrow> Err (EmuPhys (SocketError err)),
                          b\<lparr>socket := Some s2\<rparr>)))))"

definition smbus_bind ::
  "smbus_net_dev_binding \<Rightarrow> u64 \<Rightarrow> (mctp_emu_error, task) res \<times> smbus_net_dev_binding" where
  "smbus_bind b ident =
     (let b = b\<lparr>network_id := ident\<rparr>
      in (case socket b of
            Some _ \<Rightarrow> (Ok (PollSocket ident), b)
          | None \<Rightarrow> (Err (EmuPhys (PhysOther [''failed grabbing socket vector''])), b)))"

text \<open>
  The loop of \<open>poll_socket\<close>, over the results of its calls of \<open>recv_from\<close> (datagrams
  already cut to the 4096 bytes of the buffer): the callback messages it sends, and how it
  ends. Without an I/O error it polls on; an error is unwrapped and ends the task.
\<close>

fun poll_socket ::
  "u64 \<Rightarrow> (io_error + bytes) list \<Rightarrow> network_binding_callback_msg list \<times> string option" where
  "poll_socket ident [] = ([], None)"
| "poll_socket ident (Inl e # rs) = ([], Some (''called Result::unwrap on an Err value: '' @ e))"
| "poll_socket ident (Inr d # rs) =
     (let (ms, e) = poll_socket ident rs
      in (if length d \<noteq> 0 then BindingReceive ident d # ms else ms, e))"

definition smbus_ops :: "crates \<Rightarrow> send_env \<Rightarrow> smbus_net_dev_binding binding_ops" where
  "smbus_ops C env = \<lparr>op_transmit = smbus_transmit C env, op_bind = smbus_bind\<rparr>"

definition smbus_wire :: "smbus_net_dev_binding \<Rightarrow> bytes list" where
  "smbus_wire b = (case socket b of None \<Rightarrow> [] | Some s \<Rightarrow> concat (map socket_sent (tx_log s)))"

section \<open>What the binding does\<close>

lemma validate_iff:
  "validate_smbus_address a = Ok () \<longleftrightarrow> 8 \<le> unat a \<and> unat a < 0x78"
proof -
  have sh: "unat (drop_bit 3 a) = unat a div 8"
    by (simp only: unat_drop_bit_eq) (simp add: drop_bit_eq_div)
  have "drop_bit 3 a = 0b1111 \<longleftrightarrow> unat a div 8 = 15"
    by (simp add: word_unat_eq_iff sh)
  moreover have "unat a div 8 = 15 \<longleftrightarrow> 120 \<le> unat a \<and> unat a < 128"
    by linarith
  ultimately show ?thesis
    by (auto simp: validate_smbus_address_def word_less_nat_alt word_le_nat_alt)
qed

lemma validate_cases:
  "validate_smbus_address a = Ok () \<or> validate_smbus_address a = Err (EmuPhys (InvalidAddress a))"
  by (simp add: validate_smbus_address_def)

lemma unat_of_u8 [simp]: "unat (ucast (a :: u8) :: u64) = unat a"
proof -
  have "unat a < 2 ^ 64"
    using unsigned_less [of a, where 'a = nat] by simp
  then show ?thesis by (simp add: unsigned_ucast_eq take_bit_nat_eq_self)
qed

lemma set_address_spec:
  "set_address a b =
     (if 8 \<le> unat a \<and> unat a < 0x78 then (Ok (), b\<lparr>address := a\<rparr>)
      else (Err (EmuPhys (InvalidAddress (ucast a))), b))"
  using validate_iff [of "ucast a"] validate_cases [of "ucast a"]
  by (auto simp: set_address_def)

text \<open>The outcome of \<open>transmit\<close>, branch by branch.\<close>

lemma smbus_transmit_cases:
  obtains (invalid) "\<not> (8 \<le> unat a \<and> unat a < 0x78)"
      "smbus_transmit C env b m a = (Err (EmuPhys (InvalidAddress a)), b)"
  | (long) s where "8 \<le> unat a" "unat a < 0x78" "256 \<le> length m"
      "smbus_transmit C env b m a = (Panic s, b)"
  | (unconnected) s where "8 \<le> unat a" "unat a < 0x78" "length m < 256" "socket b = None"
      "smbus_transmit C env b m a = (Panic s, b)"
  | (sent) s f x y r where "8 \<le> unat a" "unat a < 0x78" "length m < 256" "socket b = Some s"
      "f = smbus_frame C (address b) m a"
      "x = env (map fst (tx_log s)) f" "y = env (map fst (tx_log s) @ [f]) f"
      "smbus_transmit C env b m a = (r, b\<lparr>socket := Some \<lparr>tx_log = tx_log s @ [(f, x), (f, y)]\<rparr>\<rparr>)"
      "r = Ok () \<longleftrightarrow> y = Inr (length f)"
      "\<And>x. r \<noteq> Err (EmuPhys (InvalidAddress x))"
proof (cases "validate_smbus_address a = Ok ()")
  case False
  with invalid validate_cases [of a] validate_iff [of a] show thesis
    by (auto simp: smbus_transmit_def)
next
  case True
  then have a: "8 \<le> unat a" "unat a < 0x78" by (auto simp: validate_iff)
  show thesis
  proof (cases "256 \<le> length m")
    case long': True
    show thesis using long [OF a long'] True long' by (simp add: smbus_transmit_def)
  next
    case False
    then have short: "length m < 256" by simp
    show thesis
    proof (cases "socket b")
      case None
      then show thesis using unconnected [OF a short] True short by (simp add: smbus_transmit_def)
    next
      case (Some s)
      let ?f = "smbus_frame C (address b) m a"
      show thesis
        using sent [OF a short Some refl refl refl, where r = "fst (smbus_transmit C env b m a)"] True short Some
        by (cases s) (auto simp: smbus_transmit_def try_send_def Let_def split: sum.splits)
    qed
  qed
qed

text \<open>Which datagrams carry a message to an address: a header with that address, then the message.\<close>

definition smbus_carries :: "bytes \<Rightarrow> u64 \<Rightarrow> bytes \<Rightarrow> bool" where
  "smbus_carries m a f \<longleftrightarrow>
     length f = length m + 5 \<and> hd f = push_bit 1 (ucast (a AND 0x7f)) \<and>
     take (length m) (drop 4 f) = m"

context crates_spec
begin

lemma smbus_frame_parts:
  "smbus_frame C own m a =
     [push_bit 1 (ucast (a AND 0x7f)), 0x0f, word_of_nat (length m), push_bit 1 own OR 1] @ m @ [pec C m]"
proof -
  have "(word_of_nat (length m) :: u8) AND 0xff = word_of_nat (length m)"
  proof -
    have "(0xff :: u8) = - 1" by simp
    then show ?thesis by (simp only: and.right_neutral)
  qed
  then show ?thesis
    by (simp add: smbus_frame_def Let_def smbus_header_ser_def smbus_header_new_def wire_u8
        SMBUS_COMMAND_CODE_MCTP_def)
qed

lemma smbus_frame_carries: "smbus_carries m a (smbus_frame C own m a)"
  by (simp add: smbus_carries_def smbus_frame_parts)

lemma smbus_sent_frame:
  "f \<in> set (socket_sent (smbus_frame C own m a, r)) \<Longrightarrow> \<exists>g n. smbus_carries m a g \<and> f = take n g"
  by (cases r) (auto intro: smbus_frame_carries)

lemma smbus_network_binding: "network_binding (smbus_ops C env) smbus_wire smbus_carries"
proof (unfold_locales, goal_cases)
  case (1 b m a r b')
  let ?sent = "\<lambda>x. socket_sent (smbus_frame C (address b) m a, x)"
  have whole: "\<exists>f \<in> set (?sent (Inr (length (smbus_frame C (address b) m a)))). smbus_carries m a f"
    by (simp add: smbus_frame_carries)
  show ?case
  proof (cases rule: smbus_transmit_cases [of a C env b m])
    case (sent s f x y r')
    with 1 have "r' = r" "b' = b\<lparr>socket := Some \<lparr>tx_log = tx_log s @ [(f, x), (f, y)]\<rparr>\<rparr>"
      by (simp_all add: smbus_ops_def)
    with sent whole show ?thesis
      by (intro exI [of _ "?sent x @ ?sent y"]) (auto simp: smbus_wire_def dest!: smbus_sent_frame)
  qed (use 1 in \<open>auto simp: smbus_ops_def\<close>)
next
  case (2 b m a x b')
  then show ?case
    by (cases rule: smbus_transmit_cases [of a C env b m]) (auto simp: smbus_ops_def)
next
  case (3 b i h b')
  then show ?case
    by (auto simp: smbus_ops_def smbus_bind_def smbus_wire_def Let_def split: option.splits)
qed

end

sublocale crates_spec \<subseteq> smbus_dev: network_binding "smbus_ops C env" smbus_wire smbus_carries for env
  by (rule smbus_network_binding)

lemma poll_socket_ok:
  "list_all (\<lambda>r. \<exists>d. r = Inr d) rs \<Longrightarrow>
     poll_socket i rs = (map (BindingReceive i) (filter (\<lambda>d. d \<noteq> []) (map (\<lambda>r. case r of Inr d \<Rightarrow> d) rs)), None)"
  by (induction i rs rule: poll_socket.induct) auto

lemma poll_socket_error:
  "list_all (\<lambda>r. \<exists>d. r = Inr d) rs \<Longrightarrow>
     fst (poll_socket i (rs @ Inl e # rs')) = fst (poll_socket i rs) \<and>
     snd (poll_socket i (rs @ Inl e # rs')) = Some (''called Result::unwrap on an Err value: '' @ e)"
  by (induction i rs rule: poll_socket.induct) (auto split: prod.splits)

section \<open>Properties\<close>

text \<open>
  C27: \<open>transmit\<close> rejects an address outside \<open>8..0x77\<close> and leaves
  the binding alone, panics on a message of 256 bytes or more, and otherwise hands the frame
  of the message to the socket twice; its result depends on the second send only, and is
  \<open>Ok\<close> exactly when that send took the whole frame.
\<close>

theorem smbus_transmit_outcome:
  assumes "socket b = Some s" "f = smbus_frame C (address b) m a"
  shows "if \<not> (8 \<le> unat a \<and> unat a < 0x78)
    then smbus_transmit C env b m a = (Err (EmuPhys (InvalidAddress a)), b)
    else if 256 \<le> length m then \<exists>p. smbus_transmit C env b m a = (Panic p, b)
    else \<exists>r. smbus_transmit C env b m a = (r, b\<lparr>socket := Some \<lparr>tx_log = tx_log s @
               [(f, env (map fst (tx_log s)) f), (f, env (map fst (tx_log s) @ [f]) f)]\<rparr>\<rparr>) \<and>
             (r = Ok () \<longleftrightarrow> env (map fst (tx_log s) @ [f]) f = Inr (length f))"
  using assms by (cases rule: smbus_transmit_cases [of a C env b m]) auto

theorem smbus_transmit_outcome_witness:
  "\<exists>r. smbus_transmit std_crates (\<lambda>_ d. Inr (length d))
      \<lparr>address = 0x10, network_id = 1, socket = Some \<lparr>tx_log = []\<rparr>\<rparr> [1, 2] 0x21 =
     (r, \<lparr>address = 0x10, network_id = 1, socket = Some \<lparr>tx_log =
        [(smbus_frame std_crates 0x10 [1, 2] 0x21, Inr (length (smbus_frame std_crates 0x10 [1, 2] 0x21))),
         (smbus_frame std_crates 0x10 [1, 2] 0x21, Inr (length (smbus_frame std_crates 0x10 [1, 2] 0x21)))]\<rparr>\<rparr>) \<and>
     r = Ok ()"
  using smbus_transmit_outcome [of "\<lparr>address = 0x10, network_id = 1, socket = Some \<lparr>tx_log = []\<rparr>\<rparr>"
      "\<lparr>tx_log = []\<rparr>" "smbus_frame std_crates 0x10 [1, 2] 0x21" std_crates "[1, 2]" "0x21" "\<lambda>_ d. Inr (length d)"]
  by simp

context crates_spec
begin

lemma smbus_frame_parse:
  "smbus_header_try_from C (smbus_frame C own m a) =
     Ok (smbus_header_new (ucast (a AND 0x7f)) own (word_of_nat (length m))) \<and>
   drop 4 (smbus_frame C own m a) = m @ [pec C m]"
proof -
  have "smbus_frame C own m a = smbus_header_ser C
      (smbus_header_new (ucast (a AND 0x7f)) own (word_of_nat (length m))) @ m @ [pec C m]"
    unfolding smbus_frame_parts
    by (simp add: smbus_header_ser_def smbus_header_new_def wire_u8 SMBUS_COMMAND_CODE_MCTP_def)
  then show ?thesis
    using smb.try_from_enc [OF TrueI, of C _ "m @ [pec C m]"] smb.enc_length [OF TrueI]
    by (simp add: smbus_header_try_from_def smbus_header_size_def)
qed

end

text \<open>
  C30: the frame of a message parses as the SMBus header it was built
  with, and behind the four header bytes come the message and one more byte, the error code
  of the message alone; a receiver that cuts off the header only keeps that byte.
\<close>

theorem smbus_frame_parses:
  assumes "crates_spec C"
  shows "smbus_header_try_from C (smbus_frame C own m a) =
      Ok (smbus_header_new (ucast (a AND 0x7f)) own (word_of_nat (length m))) \<and>
    drop 4 (smbus_frame C own m a) = m @ [pec C m]"
  by (rule crates_spec.smbus_frame_parse [OF assms])

theorem smbus_frame_parses_witness:
  "smbus_header_try_from std_crates (smbus_frame std_crates 0x10 [1, 2] 0x21) =
      Ok (smbus_header_new (ucast (0x21 AND 0x7f :: u64)) 0x10 (word_of_nat (length [1 :: u8, 2]))) \<and>
   drop 4 (smbus_frame std_crates 0x10 [1, 2] 0x21) = [1, 2] @ [pec std_crates [1, 2]]"
  by (rule smbus_frame_parses [OF std_crates_spec])

text \<open>
  \<open>SmbusNetDevBinding::new\<close> drops the result of
  \<open>set_address\<close>: an address outside \<open>8..0x77\<close> is not reported, the binding is created
  with address 0 instead.
\<close>

theorem smbus_new_invalid_address:
  assumes "unat a < 8 \<or> 0x78 \<le> unat a"
  shows "fst (set_address a smbus_binding_default) = Err (EmuPhys (InvalidAddress (ucast a))) \<and>
    (\<exists>b. smbus_binding_new (Inr ()) (Inr ()) a = Ok b \<and> address b = 0)"
  using assms by (auto simp: smbus_binding_new_def set_address_spec smbus_binding_default_def)

theorem smbus_new_invalid_address_witness:
  "\<exists>b. smbus_binding_new (Inr ()) (Inr ()) 0x86 = Ok b \<and> address b = 0"
  using smbus_new_invalid_address [of "0x86"] by auto

end
