(* ===== verification/SimpleNet.thy ===== *)
theory SimpleNet
  imports Smbus
begin

text \<open>
  \<open>SimpleNetwork\<close> of \<open>src/network/simple_network.rs\<close>: its sockets, the code of
  \<open>sendto\<close> up to its first \<open>await\<close>, and a turn of the callback handler. Bindings are
  behind handles (\<open>Arc<Mutex<dyn NetworkBinding>>\<close>). The theory \<open>SimpleRuns\<close> interleaves
  these operations.
\<close>

section \<open>The network\<close>

type_synonym binding_handle = nat
type_synonym chan = nat

text \<open>
  \<open>flows\<close> is behind a \<open>std::sync::Mutex\<close>, which is poisoned by a panic under its guard.
\<close>

record simple_network =
  clients :: "i32 \<Rightarrow> client option"
  num_clients :: i32
  phys_bindings :: binding_handle
  callback_handles :: "task list"
  flows :: "chan mctp_flow_list"
  flows_poisoned :: bool

definition simple_network_new :: "binding_handle \<Rightarrow> simple_network" where
  "simple_network_new b =
     \<lparr>clients = Map.empty, num_clients = 0, phys_bindings = b,
      callback_handles = [CallbackHandler], flows = [], flows_poisoned = False\<rparr>"

definition sn_get_binding :: "simple_network \<Rightarrow> u64 \<Rightarrow> (network_error, binding_handle) res" where
  "sn_get_binding n binding_id =
     (if binding_id \<noteq> 1 then Err (InvalidBindingError binding_id) else Ok (phys_bindings n))"

definition sn_get_client :: "simple_network \<Rightarrow> i32 \<Rightarrow> (mctp_emu_error, client) res" where
  "sn_get_client n sd =
     (case clients n sd of
        Some c \<Rightarrow> Ok c
      | None \<Rightarrow> Err (EmuNetwork (InvalidSocketError sd)))"

definition sn_socket :: "simple_network \<Rightarrow> i32 \<times> simple_network" where
  "sn_socket n = (num_clients n, n\<lparr>num_clients := num_clients n + 1\<rparr>)"

definition sn_bind ::
  "bool \<Rightarrow> simple_network \<Rightarrow> i32 \<Rightarrow> u8 \<Rightarrow> u8 \<Rightarrow> u8 \<Rightarrow> (mctp_emu_error, unit) res \<times> simple_network" where
  "sn_bind chk n sd eid mt tag =
     (case sub_i chk (num_clients n) 1 of
        Panic m \<Rightarrow> (Panic m, n)
      | Err e \<Rightarrow> (Err e, n)
      | Ok newest \<Rightarrow>
          if sint sd < sint newest
          then (Err (EmuNetwork (InvalidSocketError sd)), n)
          else (Ok (), n\<lparr>clients := (clients n)(sd \<mapsto> client_new eid mt tag)\<rparr>))"

text \<open>\<open>add_physical_binding\<close>, with the lock of the binding held.\<close>

definition sn_add_physical_binding ::
  "crates \<Rightarrow> 'b binding_ops \<Rightarrow> simple_network \<Rightarrow> 'b
    \<Rightarrow> (mctp_emu_error, unit) res \<times> simple_network \<times> 'b" where
  "sn_add_physical_binding C ops n b =
     (case op_bind ops b 1 of
        (Ok handle, b') \<Rightarrow> (Ok (), n\<lparr>callback_handles := callback_handles n @ [handle]\<rparr>, b')
      | (Err e, b') \<Rightarrow>
          (Err (EmuNetwork (NetworkOther [''failed calling binding: '' @ debug_emu_error C e])), n, b')
      | (Panic m, b') \<Rightarrow> (Panic m, n, b'))"

definition sn_join_handles :: "simple_network \<Rightarrow> task list \<times> simple_network" where
  "sn_join_handles n = (callback_handles n, n\<lparr>callback_handles := []\<rparr>)"

interpretation sn: socket_layer sn_socket sn_bind num_clients clients
  by unfold_locales
    (auto simp: sn_socket_def sn_bind_def sub_i_def split: if_splits)

section \<open>sendto\<close>

definition poison_panic :: string where
  "poison_panic = ''called Result::unwrap on an Err value: PoisonError''"

text \<open>
  The binding handle, the packet, the physical address and the flow's tag that \<open>sendto\<close>
  has computed when it reaches the push of the flow.
\<close>

definition sendto_prepare ::
  "crates \<Rightarrow> simple_network \<Rightarrow> i32 \<Rightarrow> bytes \<Rightarrow> socket_address
    \<Rightarrow> (mctp_emu_error, binding_handle \<times> bytes \<times> u64 \<times> msg_flow_tag) res" where
  "sendto_prepare C n sd payload' addr =
     (case addr of
        Basic _ _ _ \<Rightarrow>
          Panic ''not yet implemented: Support looking up routes to get the physical address''
      | Extended address' network binding_id phy_addr \<Rightarrow>
          res_bind (map_err EmuNetwork (sn_get_binding n binding_id)) (\<lambda>binding_handle.
          res_bind (sn_get_client n sd) (\<lambda>client.
            let h = transport_header_new C (client_address client) address' (client_tag client)
                      (Some True) (Some True) (Some True);
                buf = transport_header_ser C h @ payload'
            in (case create_tag C buf of
                  None \<Rightarrow> Err (EmuNetwork (NetworkOther [''failed to allocate tag'']))
                | Some tag \<Rightarrow>
                    if flows_poisoned n then Panic poison_panic
                    else Ok (binding_handle, buf, phy_addr, tag)))))"

definition sendto_start ::
  "crates \<Rightarrow> simple_network \<Rightarrow> i32 \<Rightarrow> bytes \<Rightarrow> socket_address \<Rightarrow> chan
    \<Rightarrow> (mctp_emu_error, binding_handle \<times> bytes \<times> u64 \<times> msg_flow_tag) res \<times> simple_network" where
  "sendto_start C n sd payload' addr resp_tx =
     (let r = sendto_prepare C n sd payload' addr
      in (r, case r of
               Ok (_, _, _, tag) \<Rightarrow> n\<lparr>flows := flow_push tag resp_tx (flows n)\<rparr>
             | _ \<Rightarrow> n))"

section \<open>The callback handler\<close>

text \<open>
  One turn of \<open>callback_handler\<close>: the message to send and the channel to send it on, if
  a flow matches. The result of \<open>get_binding\<close> is not used.
\<close>

definition sn_callback ::
  "crates \<Rightarrow> simple_network \<Rightarrow> network_binding_callback_msg
    \<Rightarrow> (mctp_emu_error, (chan \<times> client_callback_msg) option) res \<times> simple_network" where
  "sn_callback C n msg =
     (case msg of BindingReceive ident buf \<Rightarrow>
        (case smbus_header_try_from C buf of
           Err _ \<Rightarrow> (Ok None, n)
         | Panic m \<Rightarrow> (Panic m, n)
         | Ok transport_hdr \<Rightarrow>
             (case slice_from 4 buf of
                Err e \<Rightarrow> (Err e, n)
              | Panic m \<Rightarrow> (Panic m, n)
              | Ok buf \<Rightarrow>
                  (case create_tag C buf of
                     None \<Rightarrow> (Ok None, n)
                   | Some recv_tag \<Rightarrow>
                       let response = ClientReceive (Extended 0 1 ident 0) buf
                       in if flows_poisoned n then (Panic poison_panic, n)
                          else (case flow_take recv_tag (flows n) of
                                  None \<Rightarrow> (Ok None, n)
                                | Some ((_, resp), rest) \<Rightarrow>
                                    (Ok (Some (resp, response)), n\<lparr>flows := rest\<rparr>))))))"

section \<open>What the operations do\<close>

context crates_spec
begin

lemma smbus_header_parse:
  "(\<exists>h. smbus_header_try_from C d = Ok h) \<longleftrightarrow> 4 \<le> length d"
  "smbus_header_try_from C d \<noteq> Panic m"
  using smb.try_from_is_ok [of C d] smb.try_from_short [of d C] smb.try_from_long [of d C]
  by (cases "4 \<le> length d"; force simp: smbus_header_try_from_def smbus_header_size_def is_ok_iff)+

lemma sn_callback_cases:
  obtains (ignored) "sn_callback C n (BindingReceive i d) = (Ok None, n)"
  | (poisoned) "flows_poisoned n" "sn_callback C n (BindingReceive i d) = (Panic poison_panic, n)"
  | (answered) rt t ch rest where "4 \<le> length d" "\<not> flows_poisoned n"
      "create_tag C (drop 4 d) = Some rt" "flow_take rt (flows n) = Some ((t, ch), rest)"
      "sn_callback C n (BindingReceive i d) =
        (Ok (Some (ch, ClientReceive (Extended 0 1 i 0) (drop 4 d))), n\<lparr>flows := rest\<rparr>)"
proof (cases "smbus_header_try_from C d")
  case (Ok h)
  then have len: "4 \<le> length d" using smbus_header_parse(1) [of d] by blast
  obtain rt where rt: "create_tag C (drop 4 d) = Some rt" using create_tag_total by blast
  show thesis
  proof (cases "flows_poisoned n")
    case True
    with poisoned Ok len rt show thesis by (simp add: sn_callback_def slice_from_def)
  next
    case False
    with ignored answered [OF len False rt] Ok len rt show thesis
      by (cases "flow_take rt (flows n)") (auto simp: sn_callback_def slice_from_def)
  qed
next
  case (Err e)
  with ignored show thesis by (simp add: sn_callback_def)
next
  case (Panic m)
  with smbus_header_parse(2) show thesis by blast
qed

lemma sn_callback_answer:
  assumes "4 \<le> length d" "\<not> flows_poisoned n" "create_tag C (drop 4 d) = Some rt"
    "flow_take rt (flows n) = Some ((t, ch), rest)"
  shows "sn_callback C n (BindingReceive i d) =
    (Ok (Some (ch, ClientReceive (Extended 0 1 i 0) (drop 4 d))), n\<lparr>flows := rest\<rparr>)"
proof -
  obtain h where "smbus_header_try_from C d = Ok h" using smbus_header_parse(1) assms(1) by blast
  with assms show ?thesis by (simp add: sn_callback_def slice_from_def)
qed

lemma sendto_start_ok:
  assumes "\<not> flows_poisoned n" "clients n sd = Some c"
    "buf = transport_header_ser C (transport_header_new C (client_address c) e (client_tag c)
      (Some True) (Some True) (Some True)) @ p"
    "t = header_tag C (transport_header_new C (client_address c) e (client_tag c)
      (Some True) (Some True) (Some True))"
  shows "sendto_start C n sd p (Extended e net' 1 phy) ch =
    (Ok (phys_bindings n, buf, phy, t), n\<lparr>flows := flows n @ [(t, ch)]\<rparr>)"
  using assms create_tag_ser [OF new_wf]
  by (simp add: sendto_start_def sendto_prepare_def sn_get_binding_def sn_get_client_def
      flow_push_def Let_def)

lemma sendto_start_poisoned:
  assumes "flows_poisoned n" "clients n sd = Some c"
  shows "sendto_start C n sd p (Extended e net' 1 phy) ch = (Panic poison_panic, n)"
proof -
  obtain t where "create_tag C (transport_header_ser C (transport_header_new C (client_address c) e (client_tag c)
      (Some True) (Some True) (Some True)) @ p) = Some t"
    using create_tag_total by blast
  with assms show ?thesis
    by (simp add: sendto_start_def sendto_prepare_def sn_get_binding_def sn_get_client_def Let_def)
qed

end

section \<open>Properties\<close>

text \<open>
  C31: \<open>sendto\<close> to an extended address, up to its first \<open>await\<close>. A
  binding other than 1 and a socket without client are errors that leave the network alone.
  With a poisoned flow table it panics, and records nothing. Otherwise the packet is the payload
  behind a single-packet request header from the client to the address, with the tag of the
  client, and one flow is appended, under the tag of that header.
\<close>

theorem sendto_start_outcome:
  assumes "crates_spec C"
    "h = (\<lambda>c. transport_header_new C (client_address c) e (client_tag c) (Some True) (Some True) (Some True))"
  shows "sendto_start C n sd p (Extended e nw i phy) ch =
    (if i \<noteq> 1 then (Err (EmuNetwork (InvalidBindingError i)), n)
     else case clients n sd of
       None \<Rightarrow> (Err (EmuNetwork (InvalidSocketError sd)), n)
     | Some c \<Rightarrow>
         if flows_poisoned n then (Panic poison_panic, n)
         else (Ok (phys_bindings n, transport_header_ser C (h c) @ p, phy, header_tag C (h c)),
               n\<lparr>flows := flows n @ [(header_tag C (h c), ch)]\<rparr>))"
proof (cases "i = 1")
  case False
  then show ?thesis by (simp add: sendto_start_def sendto_prepare_def sn_get_binding_def)
next
  case i: True
  show ?thesis
  proof (cases "clients n sd")
    case None
    with i show ?thesis
      by (simp add: sendto_start_def sendto_prepare_def sn_get_binding_def sn_get_client_def)
  next
    case c: (Some c)
    show ?thesis
    proof (cases "flows_poisoned n")
      case True
      then show ?thesis using i crates_spec.sendto_start_poisoned [OF assms(1) True c] c by simp
    next
      case False
      from crates_spec.sendto_start_ok [OF assms(1) this c refl refl] i c False assms(2) show ?thesis by simp
    qed
  qed
qed

theorem sendto_start_outcome_witness:
  "\<exists>n. sendto_start std_crates n 0 [1] (Extended 9 1 2 0x21) 0 = (Err (EmuNetwork (InvalidBindingError 2)), n) \<and>
     sendto_start std_crates n 3 [1] (Extended 9 1 1 0x21) 0 = (Err (EmuNetwork (InvalidSocketError 3)), n) \<and>
     fst (sendto_start std_crates n 0 [1] (Extended 9 1 1 0x21) 0) =
       Ok (7, transport_header_ser std_crates (transport_header_new std_crates 8 9 3 (Some True) (Some True) (Some True)) @ [1], 0x21,
         header_tag std_crates (transport_header_new std_crates 8 9 3 (Some True) (Some True) (Some True))) \<and>
     length (flows (snd (sendto_start std_crates n 0 [1] (Extended 9 1 1 0x21) 0))) = 1 \<and>
     sendto_start std_crates (n\<lparr>flows_poisoned := True\<rparr>) 0 [1] (Extended 9 1 1 0x21) 0 =
       (Panic poison_panic, n\<lparr>flows_poisoned := True\<rparr>)"
proof -
  let ?n = "(simple_network_new 7)\<lparr>num_clients := 1, clients := [0 \<mapsto> client_new 8 0 3]\<rparr>"
  note outcome = sendto_start_outcome [OF std_crates_spec refl, where p = "[1]" and e = 9 and nw = 1 and phy = "0x21" and ch = 0]
  show ?thesis
    using outcome [of ?n 0 2] outcome [of ?n 3 1] outcome [of ?n 0 1] outcome [of "?n\<lparr>flows_poisoned := True\<rparr>" 0 1]
    by (intro exI [of _ ?n]) (simp add: simple_network_new_def client_new_def)
qed

text \<open>
  C38: the test of \<open>bind\<close> is \<open>sd < num_clients - 1\<close>. The socket just
  opened can be bound, and its client is found under it; but with two sockets open the older
  one can no longer be bound, while any descriptor above the newest, which no call of
  \<open>socket\<close> ever returned, is accepted.
\<close>

theorem older_socket_rejected:
  assumes "sn_socket n = (sd0, n1)" "sn_socket n1 = (sd1, n2)"
    "0 \<le> sint (num_clients n)" "sint (num_clients n) < 2 ^ 31 - 2" "sint sd1 < sint sd"
  shows "fst (sn_bind chk n2 sd0 a t g) = Err (EmuNetwork (InvalidSocketError sd0)) \<and>
    fst (sn_bind chk n2 sd1 a t g) = Ok () \<and>
    sn_get_client (snd (sn_bind chk n2 sd1 a t g)) sd1 = Ok (client_new a t g) \<and>
    fst (sn_bind chk n2 sd a t g) = Ok ()"
proof -
  let ?c = "num_clients n"
  have n: "sd0 = ?c" "sd1 = ?c + 1" "num_clients n2 = ?c + 1 + 1"
    using sn.socket_spec [OF assms(1)] sn.socket_spec [OF assms(2)] by simp_all
  have s1: "sint (?c + 1) = sint ?c + 1"
    using assms(3,4) by (intro sint_succ) simp_all
  have s2: "sint (?c + 1 + 1) = sint (?c + 1) + 1"
    using assms(3,4) s1 by (intro sint_succ) simp_all
  have "(sub_i chk (num_clients n2) 1 :: (mctp_emu_error, i32) res) = Ok (?c + 1)"
    using s2 by (simp add: sub_i_def n add.commute [of 1])
  moreover have "fst (sn_bind chk n2 sd1 a t g) = Ok () \<and>
      sn_get_client (snd (sn_bind chk n2 sd1 a t g)) sd1 = Ok (client_new a t g)"
    using sn.socket_then_bind [OF assms(2) prod.collapse [symmetric], of chk a t g] sn.socket_spec [OF assms(1)]
      s1 assms(4)
    by (simp add: sn_get_client_def)
  ultimately show ?thesis
    using sn.bind_result [of chk n2 sd0 a t g] sn.bind_result [of chk n2 sd a t g] s1 assms(5)
    by (simp add: n)
qed

theorem older_socket_rejected_witness:
  "\<exists>n2. fst (sn_bind True n2 0 8 0 3) = Err (EmuNetwork (InvalidSocketError 0)) \<and>
        fst (sn_bind True n2 5 8 0 3) = Ok ()"
proof -
  let ?n0 = "simple_network_new 0"
  let ?n1 = "snd (sn_socket ?n0)"
  have "sn_socket ?n0 = (0, ?n1)" "sn_socket ?n1 = (1, snd (sn_socket ?n1))"
    "0 \<le> sint (num_clients ?n0)" "sint (num_clients ?n0) < 2 ^ 31 - 2" "sint (1 :: i32) < sint (5 :: i32)"
    by (simp_all add: sn_socket_def simple_network_new_def)
  from older_socket_rejected [OF this] show ?thesis by blast
qed

end
