(* ===== verification/SimpleRuns.thy ===== *)
theory SimpleRuns
  imports SimpleNet
begin

text \<open>
  The runs of a \<open>SimpleNetwork\<close> of \<open>src/network/simple_network.rs\<close>, whose calls of
  \<open>sendto\<close>, callback handler and physical binding interleave.

  A call of \<open>sendto\<close> is cut at its two \<open>await\<close> points. \<open>sendto_start\<close> is the code up to
  \<open>binding_handle.lock().await\<close>, the event \<open>Transmit\<close> is the code from there to
  \<open>resp_rx.await\<close>, and \<open>Receive\<close> is the rest. The lock's guard lives to the end of the
  function, so a call holds the binding while it waits for its response. The world maps a
  binding's handle to the binding and to the call that holds its lock.
\<close>

section \<open>Channels and calls\<close>

text \<open>A one-shot channel: nothing sent yet, a message sent, or one end dropped.\<close>

datatype chan_state = Open | Sent client_callback_msg | SenderGone | ReceiverGone

definition chan_send :: "chan_state \<Rightarrow> client_callback_msg \<Rightarrow> chan_state option" where
  "chan_send c m = (case c of Open \<Rightarrow> Some (Sent m) | _ \<Rightarrow> None)"

text \<open>\<open>resp_rx.await\<close> and the code after it; \<open>None\<close> while the call has to wait.\<close>

definition sendto_finish ::
  "crates \<Rightarrow> chan_state \<Rightarrow> (mctp_emu_error, socket_address \<times> bytes) res option" where
  "sendto_finish C c =
     (case c of
        Open \<Rightarrow> None
      | Sent (ClientReceive addr buf) \<Rightarrow> Some (Ok (addr, buf))
      | SenderGone \<Rightarrow>
          Some (Err (EmuNetwork (NetworkOther [''response failed: '' @ debug_recv_error C])))
      | ReceiverGone \<Rightarrow> None)"

text \<open>
  Where a call of \<open>sendto\<close> is: waiting for the lock of its binding, waiting for its
  response with the lock held, returned (with the packet it had built, if any), or cancelled
  (its future was dropped).
\<close>

datatype sendto_call =
    WaitLock binding_handle bytes u64 chan
  | WaitResponse binding_handle bytes chan
  | Returned "bytes option" "(mctp_emu_error, socket_address \<times> bytes) res"
  | Cancelled

section \<open>The world\<close>

record 'b sn_world =
  net :: simple_network
  binding_of :: "binding_handle \<Rightarrow> 'b"
  lock_holder :: "binding_handle \<Rightarrow> nat option"
  chans :: "chan \<Rightarrow> chan_state"
  next_chan :: chan
  calls :: "sendto_call list"
  rx_queue :: "network_binding_callback_msg list"
  handler_up :: bool

definition sn_init :: "(binding_handle \<Rightarrow> 'b) \<Rightarrow> binding_handle \<Rightarrow> 'b sn_world" where
  "sn_init bs b =
     \<lparr>net = simple_network_new b, binding_of = bs, lock_holder = Map.empty,
      chans = (\<lambda>_. Open), next_chan = 0, calls = [], rx_queue = [], handler_up = True\<rparr>"

datatype sn_event =
    Socket
  | Bind i32 u8 u8 u8
  | AddBinding binding_handle
  | JoinHandles
  | Sendto i32 bytes socket_address
  | Transmit nat
  | Receive nat
  | Cancel nat
  | Deliver u64 bytes
  | Handle

text \<open>
  \<open>Transmit\<close>: the lock is free, the call takes it and transmits. If \<open>transmit\<close> returns an
  error, \<open>unwrap\<close> panics: the guard and the receiver are dropped, the flow stays.
\<close>

definition sn_transmit :: "'b binding_ops \<Rightarrow> nat \<Rightarrow> 'b sn_world \<Rightarrow> 'b sn_world option" where
  "sn_transmit ops k w =
     (case calls w ! k of
        WaitLock h buf phy_addr ch \<Rightarrow>
          if lock_holder w h \<noteq> None then None
          else
            (let (r, b') = op_transmit ops (binding_of w h) buf phy_addr;
                 w' = w\<lparr>binding_of := (binding_of w)(h := b')\<rparr>
             in (case r of
                   Ok _ \<Rightarrow>
                     Some (w'\<lparr>lock_holder := (lock_holder w)(h \<mapsto> k),
                              calls := (calls w)[k := WaitResponse h buf ch]\<rparr>)
                 | Err e \<Rightarrow>
                     Some (w'\<lparr>chans := (chans w)(ch := ReceiverGone),
                              calls := (calls w)[k := Returned (Some buf)
                                (Panic ''called Result::unwrap on an Err value'')]\<rparr>)
                 | Panic m \<Rightarrow>
                     Some (w'\<lparr>chans := (chans w)(ch := ReceiverGone),
                              calls := (calls w)[k := Returned (Some buf) (Panic m)]\<rparr>)))
      | _ \<Rightarrow> None)"

definition sn_receive :: "crates \<Rightarrow> nat \<Rightarrow> 'b sn_world \<Rightarrow> 'b sn_world option" where
  "sn_receive C k w =
     (case calls w ! k of
        WaitResponse h buf ch \<Rightarrow>
          (case sendto_finish C (chans w ch) of
             None \<Rightarrow> None
           | Some r \<Rightarrow>
               Some (w\<lparr>lock_holder := (lock_holder w)(h := None),
                       calls := (calls w)[k := Returned (Some buf) r]\<rparr>))
      | _ \<Rightarrow> None)"

text \<open>
  Dropping the future of a call drops its receiver, and its guard when it holds the lock. A
  message that was already sent is dropped with it.
\<close>

definition sn_cancel :: "nat \<Rightarrow> 'b sn_world \<Rightarrow> 'b sn_world option" where
  "sn_cancel k w =
     (case calls w ! k of
        WaitLock h buf phy_addr ch \<Rightarrow>
          Some (w\<lparr>chans := (chans w)(ch := ReceiverGone), calls := (calls w)[k := Cancelled]\<rparr>)
      | WaitResponse h buf ch \<Rightarrow>
          Some (w\<lparr>chans := (chans w)(ch := ReceiverGone),
                  lock_holder := (lock_holder w)(h := None), calls := (calls w)[k := Cancelled]\<rparr>)
      | _ \<Rightarrow> None)"

text \<open>
  A turn of the handler on the front of the queue. \<open>resp.send(..).unwrap()\<close> panics when
  the receiver is gone; the guard of the flows is held there, so the mutex is poisoned, and
  the task's end drops the queue.
\<close>

definition sn_handler_dies :: "'b sn_world \<Rightarrow> 'b sn_world" where
  "sn_handler_dies w = w\<lparr>handler_up := False, rx_queue := []\<rparr>"

definition sn_handle :: "crates \<Rightarrow> 'b sn_world \<Rightarrow> 'b sn_world option" where
  "sn_handle C w =
     (if \<not> handler_up w then None
      else
        (case rx_queue w of
           [] \<Rightarrow> None
         | msg # q \<Rightarrow>
             (case sn_callback C (net w) msg of
                (Ok None, n) \<Rightarrow> Some (w\<lparr>net := n, rx_queue := q\<rparr>)
              | (Ok (Some (ch, response)), n) \<Rightarrow>
                  (case chan_send (chans w ch) response of
                     Some c \<Rightarrow> Some (w\<lparr>net := n, rx_queue := q, chans := (chans w)(ch := c)\<rparr>)
                   | None \<Rightarrow> Some (sn_handler_dies (w\<lparr>net := n\<lparr>flows_poisoned := True\<rparr>\<rparr>)))
              | (_, n) \<Rightarrow> Some (sn_handler_dies (w\<lparr>net := n\<rparr>)))))"

text \<open>One event; \<open>None\<close> when it cannot happen in the state. The channel holds 32 messages.\<close>

definition sn_exec ::
  "crates \<Rightarrow> 'b binding_ops \<Rightarrow> bool \<Rightarrow> sn_event \<Rightarrow> 'b sn_world \<Rightarrow> 'b sn_world option" where
  "sn_exec C ops chk e w =
     (case e of
        Socket \<Rightarrow> Some (w\<lparr>net := snd (sn_socket (net w))\<rparr>)
      | Bind sd a t g \<Rightarrow> Some (w\<lparr>net := snd (sn_bind chk (net w) sd a t g)\<rparr>)
      | AddBinding h \<Rightarrow>
          (if lock_holder w h \<noteq> None then None
           else
             (let (r, n, b) = sn_add_physical_binding C ops (net w) (binding_of w h)
              in Some (w\<lparr>net := n, binding_of := (binding_of w)(h := b)\<rparr>)))
      | JoinHandles \<Rightarrow> Some (w\<lparr>net := snd (sn_join_handles (net w))\<rparr>)
      | Sendto sd p a \<Rightarrow>
          (let ch = next_chan w; (r, n) = sendto_start C (net w) sd p a ch
           in Some (w\<lparr>net := n, next_chan := Suc ch,
                calls := calls w @
                  [case r of
                     Ok (h, buf, phy_addr, tag) \<Rightarrow> WaitLock h buf phy_addr ch
                   | Err x \<Rightarrow> Returned None (Err x)
                   | Panic m \<Rightarrow> Returned None (Panic m)]\<rparr>))
      | Transmit k \<Rightarrow> if k < length (calls w) then sn_transmit ops k w else None
      | Receive k \<Rightarrow> if k < length (calls w) then sn_receive C k w else None
      | Cancel k \<Rightarrow> if k < length (calls w) then sn_cancel k w else None
      | Deliver ident d \<Rightarrow>
          (if d = [] \<or> 32 \<le> length (rx_queue w) then None
           else if handler_up w then Some (w\<lparr>rx_queue := rx_queue w @ [BindingReceive ident d]\<rparr>)
           else Some w)
      | Handle \<Rightarrow> sn_handle C w)"

fun sn_run ::
  "crates \<Rightarrow> 'b binding_ops \<Rightarrow> bool \<Rightarrow> sn_event list \<Rightarrow> 'b sn_world \<Rightarrow> 'b sn_world option" where
  "sn_run C ops chk [] w = Some w"
| "sn_run C ops chk (e # es) w =
     (case sn_exec C ops chk e w of None \<Rightarrow> None | Some w' \<Rightarrow> sn_run C ops chk es w')"

inductive sn_reachable :: "crates \<Rightarrow> 'b binding_ops \<Rightarrow> bool \<Rightarrow> 'b sn_world \<Rightarrow> bool"
  for C ops chk where
  start: "sn_reachable C ops chk (sn_init bs b)"
| step: "sn_reachable C ops chk w \<Longrightarrow> sn_exec C ops chk e w = Some w' \<Longrightarrow> sn_reachable C ops chk w'"

section \<open>What one event changes\<close>

fun call_wait :: "sendto_call \<Rightarrow> (bytes \<times> chan) option" where
  "call_wait (WaitLock h buf a ch) = Some (buf, ch)"
| "call_wait (WaitResponse h buf ch) = Some (buf, ch)"
| "call_wait _ = None"

fun call_binding :: "sendto_call \<Rightarrow> binding_handle option" where
  "call_binding (WaitLock h buf a ch) = Some h"
| "call_binding (WaitResponse h buf ch) = Some h"
| "call_binding _ = None"

lemma call_wait_eq_Some:
  "call_wait c = Some (buf, ch) \<longleftrightarrow>
     (\<exists>h a. c = WaitLock h buf a ch) \<or> (\<exists>h. c = WaitResponse h buf ch)"
  by (cases c) auto

text \<open>A packet as \<open>sendto\<close> builds it: a single-packet request header, then the payload.\<close>

definition request_packet :: "crates \<Rightarrow> bytes \<Rightarrow> bool" where
  "request_packet C buf \<longleftrightarrow>
     (\<exists>s d g p. buf = transport_header_ser C (transport_header_new C s d g (Some True) (Some True) (Some True)) @ p)"

lemma sendto_event_cases:
  assumes "sn_exec C ops chk (Sendto sd p a) w = Some w'"
  obtains (failed) r where "\<not> is_ok r"
      "w' = w\<lparr>next_chan := Suc (next_chan w), calls := calls w @ [Returned None r]\<rparr>"
  | (pushed) h buf f t where "create_tag C buf = Some t" "h = phys_bindings (net w)" "\<not> flows_poisoned (net w)"
      "w' = w\<lparr>net := (net w)\<lparr>flows := flows (net w) @ [(t, next_chan w)]\<rparr>, next_chan := Suc (next_chan w),
              calls := calls w @ [WaitLock h buf f (next_chan w)]\<rparr>" "request_packet C buf"
proof (cases "sendto_prepare C (net w) sd p a")
  case (Ok x)
  obtain h buf f t where x: "x = (h, buf, f, t)" by (cases x) auto
  have "create_tag C buf = Some t \<and> h = phys_bindings (net w) \<and> \<not> flows_poisoned (net w) \<and> request_packet C buf"
    using Ok x by (auto simp: sendto_prepare_def res_bind_eq_Ok sn_get_binding_def request_packet_def Let_def
        split: socket_address.splits option.splits if_splits)
  then show thesis using assms Ok x
    by (intro pushed [of buf t h f]) (auto simp: sn_exec_def sendto_start_def flow_push_def Let_def)
next
  case (Err x)
  then show thesis using assms
    by (intro failed [of "Err x"]) (auto simp: sn_exec_def sendto_start_def Let_def)
next
  case (Panic x)
  then show thesis using assms
    by (intro failed [of "Panic x"]) (auto simp: sn_exec_def sendto_start_def Let_def)
qed

lemma sn_transmit_cases:
  assumes "sn_transmit ops k w = Some w'"
  obtains (sent) h buf a ch b' where "calls w ! k = WaitLock h buf a ch" "lock_holder w h = None"
      "op_transmit ops (binding_of w h) buf a = (Ok (), b')"
      "w' = w\<lparr>binding_of := (binding_of w)(h := b'), lock_holder := (lock_holder w)(h \<mapsto> k),
              calls := (calls w)[k := WaitResponse h buf ch]\<rparr>"
  | (unsent) h buf a ch b' r m where "calls w ! k = WaitLock h buf a ch" "lock_holder w h = None"
      "op_transmit ops (binding_of w h) buf a = (r, b')" "r \<noteq> Ok ()"
      "w' = w\<lparr>binding_of := (binding_of w)(h := b'), chans := (chans w)(ch := ReceiverGone),
              calls := (calls w)[k := Returned (Some buf) (Panic m)]\<rparr>"
proof -
  from assms obtain h buf a ch where c: "calls w ! k = WaitLock h buf a ch" and l: "lock_holder w h = None"
    by (auto simp: sn_transmit_def split: sendto_call.splits if_splits)
  obtain r b' where r: "op_transmit ops (binding_of w h) buf a = (r, b')"
    by (cases "op_transmit ops (binding_of w h) buf a")
  show thesis
  proof (cases r)
    case (Ok u)
    with assms c l r show thesis by (intro sent [OF c l]) (auto simp: sn_transmit_def)
  qed (use assms c l r in \<open>intro unsent [OF c l r], auto simp: sn_transmit_def\<close>)+
qed

lemma sn_receive_cases:
  assumes "sn_receive C k w = Some w'"
  obtains h buf ch r where "calls w ! k = WaitResponse h buf ch" "sendto_finish C (chans w ch) = Some r"
    "w' = w\<lparr>lock_holder := (lock_holder w)(h := None), calls := (calls w)[k := Returned (Some buf) r]\<rparr>"
  using assms by (auto simp: sn_receive_def split: sendto_call.splits option.splits)

lemma sn_cancel_cases:
  assumes "sn_cancel k w = Some w'"
  obtains buf ch where "call_wait (calls w ! k) = Some (buf, ch)"
    "w' = w\<lparr>chans := (chans w)(ch := ReceiverGone), calls := (calls w)[k := Cancelled],
            lock_holder := (case calls w ! k of WaitResponse h b c \<Rightarrow> (lock_holder w)(h := None)
                            | _ \<Rightarrow> lock_holder w)\<rparr>"
proof (cases "calls w ! k")
  case (WaitLock h buf a ch)
  then show thesis using assms by (intro that [of buf ch]) (auto simp: sn_cancel_def)
next
  case (WaitResponse h buf ch)
  then show thesis using assms by (intro that [of buf ch]) (auto simp: sn_cancel_def)
qed (use assms in \<open>auto simp: sn_cancel_def\<close>)

context crates_spec
begin

lemma sn_handle_cases:
  assumes "sn_handle C w = Some w'"
  obtains (ignored) msg q where "handler_up w" "rx_queue w = msg # q" "w' = w\<lparr>rx_queue := q\<rparr>"
  | (answer) i d q rt t ch rest where "handler_up w" "4 \<le> length d" "\<not> flows_poisoned (net w)"
      "rx_queue w = BindingReceive i d # q"
      "create_tag C (drop 4 d) = Some rt" "flow_take rt (flows (net w)) = Some ((t, ch), rest)"
      "chans w ch = Open"
      "w' = w\<lparr>net := (net w)\<lparr>flows := rest\<rparr>, rx_queue := q,
              chans := (chans w)(ch := Sent (ClientReceive (Extended 0 1 i 0) (drop 4 d)))\<rparr>"
  | (unheard) i d q rt t ch rest where "handler_up w" "4 \<le> length d" "\<not> flows_poisoned (net w)"
      "rx_queue w = BindingReceive i d # q"
      "create_tag C (drop 4 d) = Some rt" "flow_take rt (flows (net w)) = Some ((t, ch), rest)"
      "chans w ch \<noteq> Open"
      "w' = sn_handler_dies (w\<lparr>net := (net w)\<lparr>flows := rest, flows_poisoned := True\<rparr>\<rparr>)"
  | (dead) "flows_poisoned (net w)" "handler_up w" "w' = sn_handler_dies w"
proof -
  from assms obtain msg q where up: "handler_up w" and "rx_queue w = msg # q"
    by (auto simp: sn_handle_def split: if_splits list.splits)
  moreover obtain i d where "msg = BindingReceive i d" by (cases msg)
  ultimately have q: "rx_queue w = BindingReceive i d # q" by simp
  show thesis
  proof (cases rule: sn_callback_cases [of "net w" i d])
    case ignored
    with assms up q show thesis by (intro that(1)) (auto simp: sn_handle_def)
  next
    case poisoned
    with assms up q show thesis by (intro dead) (auto simp: sn_handle_def)
  next
    case (answered rt t ch rest)
    show thesis
    proof (cases "chans w ch = Open")
      case True
      with assms up q answered show thesis
        by (intro answer [OF up answered(1,2) q answered(3,4)]) (auto simp: sn_handle_def chan_send_def)
    next
      case False
      with assms up q answered show thesis
        by (intro unheard [OF up answered(1,2) q answered(3,4)])
          (auto simp: sn_handle_def chan_send_def split: chan_state.splits)
    qed
  qed
qed

text \<open>
  Every event is one of these changes of the flows, the channels, the calls, the locks and
  the handler.
\<close>

lemma sn_exec_cases:
  assumes "sn_exec C ops chk e w = Some w'"
  obtains (quiet) "flows (net w') = flows (net w)" "flows_poisoned (net w') = flows_poisoned (net w)"
      "calls w' = calls w" "chans w' = chans w" "lock_holder w' = lock_holder w"
      "next_chan w' = next_chan w" "handler_up w' = handler_up w"
      "phys_bindings (net w') = phys_bindings (net w)"
  | (failed) r where "flows (net w') = flows (net w)" "flows_poisoned (net w') = flows_poisoned (net w)"
      "calls w' = calls w @ [Returned None r]" "chans w' = chans w" "lock_holder w' = lock_holder w"
      "next_chan w' = Suc (next_chan w)" "handler_up w' = handler_up w" "\<not> is_ok r"
      "phys_bindings (net w') = phys_bindings (net w)"
  | (pushed) h buf a t where "create_tag C buf = Some t"
      "flows (net w') = flows (net w) @ [(t, next_chan w)]"
      "flows_poisoned (net w') = flows_poisoned (net w)"
      "calls w' = calls w @ [WaitLock h buf a (next_chan w)]" "chans w' = chans w"
      "lock_holder w' = lock_holder w" "next_chan w' = Suc (next_chan w)"
      "handler_up w' = handler_up w" "phys_bindings (net w') = phys_bindings (net w)"
      "h = phys_bindings (net w)" "\<not> flows_poisoned (net w)" "request_packet C buf"
  | (sent) k h buf a ch b' where "e = Transmit k" "k < length (calls w)"
      "calls w ! k = WaitLock h buf a ch"
      "lock_holder w h = None" "op_transmit ops (binding_of w h) buf a = (Ok (), b')"
      "w' = w\<lparr>binding_of := (binding_of w)(h := b'), lock_holder := (lock_holder w)(h \<mapsto> k),
              calls := (calls w)[k := WaitResponse h buf ch]\<rparr>"
  | (unsent) k h buf a ch b' r m where "e = Transmit k" "k < length (calls w)"
      "calls w ! k = WaitLock h buf a ch"
      "lock_holder w h = None" "op_transmit ops (binding_of w h) buf a = (r, b')" "r \<noteq> Ok ()"
      "w' = w\<lparr>binding_of := (binding_of w)(h := b'), chans := (chans w)(ch := ReceiverGone),
              calls := (calls w)[k := Returned (Some buf) (Panic m)]\<rparr>"
  | (received) k h buf ch r where "k < length (calls w)" "calls w ! k = WaitResponse h buf ch"
      "sendto_finish C (chans w ch) = Some r"
      "w' = w\<lparr>lock_holder := (lock_holder w)(h := None),
              calls := (calls w)[k := Returned (Some buf) r]\<rparr>"
  | (cancelled) k buf ch where "e = Cancel k" "k < length (calls w)"
      "call_wait (calls w ! k) = Some (buf, ch)"
      "w' = w\<lparr>chans := (chans w)(ch := ReceiverGone), calls := (calls w)[k := Cancelled],
              lock_holder := (case calls w ! k of WaitResponse h b c \<Rightarrow> (lock_holder w)(h := None)
                              | _ \<Rightarrow> lock_holder w)\<rparr>"
  | (answer) i d q rt t ch rest where "e = Handle" "handler_up w" "4 \<le> length d" "\<not> flows_poisoned (net w)"
      "rx_queue w = BindingReceive i d # q"
      "create_tag C (drop 4 d) = Some rt" "flow_take rt (flows (net w)) = Some ((t, ch), rest)"
      "chans w ch = Open"
      "w' = w\<lparr>net := (net w)\<lparr>flows := rest\<rparr>, rx_queue := q,
              chans := (chans w)(ch := Sent (ClientReceive (Extended 0 1 i 0) (drop 4 d)))\<rparr>"
  | (unheard) i d q rt t ch rest where "e = Handle" "handler_up w" "4 \<le> length d" "\<not> flows_poisoned (net w)"
      "rx_queue w = BindingReceive i d # q"
      "create_tag C (drop 4 d) = Some rt" "flow_take rt (flows (net w)) = Some ((t, ch), rest)"
      "chans w ch \<noteq> Open"
      "w' = sn_handler_dies (w\<lparr>net := (net w)\<lparr>flows := rest, flows_poisoned := True\<rparr>\<rparr>)"
  | (dead) "flows_poisoned (net w)" "handler_up w" "w' = sn_handler_dies w"
proof (cases e)
  case Socket
  then show thesis using assms by (intro quiet) (auto simp: sn_exec_def sn_socket_def)
next
  case (Bind sd a t g)
  then show thesis using assms
    by (intro quiet) (auto simp: sn_exec_def sn_bind_def split: res.splits if_splits)
next
  case (AddBinding h)
  then show thesis using assms
    by (intro quiet) (auto simp: sn_exec_def sn_add_physical_binding_def
        split: if_splits prod.splits res.splits)
next
  case JoinHandles
  then show thesis using assms by (intro quiet) (auto simp: sn_exec_def sn_join_handles_def)
next
  case (Sendto sd p a)
  with assms have "sn_exec C ops chk (Sendto sd p a) w = Some w'" by simp
  then show thesis
  proof (cases rule: sendto_event_cases)
    case (failed r)
    then show thesis by (intro that(2) [of r]) simp_all
  next
    case (pushed h buf f t)
    then show thesis by (intro that(3) [of buf t h f]) simp_all
  qed
next
  case (Transmit k)
  with assms have k: "k < length (calls w)" and t: "sn_transmit ops k w = Some w'"
    by (auto simp: sn_exec_def split: if_splits)
  from t show thesis
    using sent [OF Transmit k] unsent [OF Transmit k] by (cases rule: sn_transmit_cases) blast+
next
  case (Receive k)
  with assms have k: "k < length (calls w)" and t: "sn_receive C k w = Some w'"
    by (auto simp: sn_exec_def split: if_splits)
  from t show thesis using received [OF k] by (cases rule: sn_receive_cases) blast
next
  case (Cancel k)
  with assms have k: "k < length (calls w)" and t: "sn_cancel k w = Some w'"
    by (auto simp: sn_exec_def split: if_splits)
  from t show thesis using cancelled [OF Cancel k] by (cases rule: sn_cancel_cases) blast
next
  case (Deliver i d)
  then show thesis using assms
    by (intro quiet) (auto simp: sn_exec_def split: if_splits)
next
  case Handle
  with assms have "sn_handle C w = Some w'" by (simp add: sn_exec_def)
  then show thesis
  proof (cases rule: sn_handle_cases)
    case (ignored msg q)
    then show thesis by (intro quiet) simp_all
  qed (use answer [OF Handle] unheard [OF Handle] dead in blast)+
qed

end

section \<open>Invariants of the runs\<close>

text \<open>Call \<open>k\<close> has sent, or is about to send, \<open>buf\<close> and listens on \<open>ch\<close>.\<close>

definition waiting :: "'b sn_world \<Rightarrow> nat \<Rightarrow> bytes \<Rightarrow> chan \<Rightarrow> bool" where
  "waiting w k buf ch \<longleftrightarrow> k < length (calls w) \<and> call_wait (calls w ! k) = Some (buf, ch)"

text \<open>Does the message \<open>m\<close> answer the packet \<open>buf\<close>?\<close>

definition answers :: "crates \<Rightarrow> bytes \<Rightarrow> client_callback_msg \<Rightarrow> bool" where
  "answers C buf m \<longleftrightarrow>
     (case m of ClientReceive a rb \<Rightarrow>
        (case a of Extended e n i p \<Rightarrow> e = 0 \<and> n = 1 \<and> p = 0 | Basic _ _ _ \<Rightarrow> False) \<and>
        (case (create_tag C buf, create_tag C rb) of
           (Some t, Some rt) \<Rightarrow> flow_matches t rt
         | _ \<Rightarrow> False))"

definition table_inv :: "'b sn_world \<Rightarrow> bool" where
  "table_inv w \<longleftrightarrow>
     distinct (map snd (flows (net w))) \<and>
     (\<forall>t ch. (t, ch) \<in> set (flows (net w)) \<longrightarrow>
        ch < next_chan w \<and> (chans w ch = Open \<or> chans w ch = ReceiverGone)) \<and>
     (\<forall>ch. next_chan w \<le> ch \<longrightarrow> chans w ch = Open)"

definition call_ok :: "crates \<Rightarrow> 'b sn_world \<Rightarrow> bytes \<Rightarrow> chan \<Rightarrow> bool" where
  "call_ok C w buf ch \<longleftrightarrow>
     ch < next_chan w \<and>
     (\<forall>t. (t, ch) \<in> set (flows (net w)) \<longrightarrow> create_tag C buf = Some t) \<and>
     (chans w ch = Open \<longrightarrow> (\<exists>t. (t, ch) \<in> set (flows (net w)))) \<and>
     (\<forall>m. chans w ch = Sent m \<longrightarrow> answers C buf m) \<and>
     chans w ch \<noteq> SenderGone \<and> chans w ch \<noteq> ReceiverGone"

definition call_inv :: "crates \<Rightarrow> 'b sn_world \<Rightarrow> bool" where
  "call_inv C w \<longleftrightarrow>
     (\<forall>k buf ch. waiting w k buf ch \<longrightarrow> call_ok C w buf ch) \<and>
     (\<forall>j k b b' ch. waiting w j b ch \<and> waiting w k b' ch \<longrightarrow> j = k)"

definition result_inv :: "crates \<Rightarrow> 'b sn_world \<Rightarrow> bool" where
  "result_inv C w \<longleftrightarrow>
     (\<forall>k b a rb. k < length (calls w) \<and> calls w ! k = Returned b (Ok (a, rb)) \<longrightarrow>
        (\<exists>buf. b = Some buf \<and> answers C buf (ClientReceive a rb)))"

definition lock_inv :: "'b sn_world \<Rightarrow> bool" where
  "lock_inv w \<longleftrightarrow>
     (\<forall>h k. lock_holder w h = Some k \<longleftrightarrow>
        k < length (calls w) \<and> (\<exists>buf ch. calls w ! k = WaitResponse h buf ch)) \<and>
     (\<forall>k h. k < length (calls w) \<and> call_binding (calls w ! k) = Some h \<longrightarrow>
        h = phys_bindings (net w))"

definition fault_inv :: "'b sn_world \<Rightarrow> bool" where
  "fault_inv w \<longleftrightarrow>
     (flows_poisoned (net w) \<longleftrightarrow> \<not> handler_up w) \<and>
     (\<forall>ch. chans w ch \<noteq> SenderGone)"

lemma waiting_append:
  "calls w' = calls w @ [c] \<Longrightarrow>
     waiting w' k buf ch \<longleftrightarrow> waiting w k buf ch \<or> k = length (calls w) \<and> call_wait c = Some (buf, ch)"
  by (auto simp: waiting_def nth_append less_Suc_eq)

lemma waiting_update:
  "calls w' = (calls w)[j := c] \<Longrightarrow> j < length (calls w) \<Longrightarrow>
     waiting w' k buf ch \<longleftrightarrow> (if k = j then call_wait c = Some (buf, ch) else waiting w k buf ch)"
  by (auto simp: waiting_def)

lemma waiting_same: "calls w' = calls w \<Longrightarrow> waiting w' = waiting w"
  by (intro ext) (simp add: waiting_def)

lemma lock_inv_holder:
  "lock_inv w \<Longrightarrow> k < length (calls w) \<Longrightarrow> calls w ! k = WaitResponse h buf ch \<Longrightarrow>
     lock_holder w h = Some k"
  by (auto simp: lock_inv_def)

lemma lock_inv_unique:
  assumes "lock_inv w" "j < length (calls w)" "calls w ! j = WaitResponse h b c"
    "k < length (calls w)" "calls w ! k = WaitResponse h b' c'"
  shows "j = k"
  using lock_inv_holder [OF assms(1-3)] lock_inv_holder [OF assms(1,4,5)] by simp

lemma lock_inv_binding:
  "lock_inv w \<Longrightarrow> k < length (calls w) \<Longrightarrow> call_binding (calls w ! k) = Some h \<Longrightarrow>
     h = phys_bindings (net w)"
  by (auto simp: lock_inv_def)

text \<open>A call that gives its lock back.\<close>

lemma lock_inv_release:
  assumes inv: "lock_inv w" and k: "k < length (calls w)" "calls w ! k = WaitResponse h buf ch"
    and c: "call_binding c = None" "lock_holder w' = (lock_holder w)(h := None)"
      "calls w' = (calls w)[k := c]" "net w' = net w"
  shows "lock_inv w'"
proof -
  have "lock_holder w' g = Some j \<longleftrightarrow>
      j < length (calls w') \<and> (\<exists>b d. calls w' ! j = WaitResponse g b d)" for g j
  proof (cases "j = k")
    case True
    have "calls w' ! k \<noteq> WaitResponse g b d" for b d using c k by auto
    moreover have "g \<noteq> h \<Longrightarrow> lock_holder w g \<noteq> Some k" using inv k by (auto simp: lock_inv_def)
    ultimately show ?thesis using True c k by auto
  next
    case False
    then have "g = h \<Longrightarrow> j < length (calls w) \<Longrightarrow> calls w ! j \<noteq> WaitResponse g b d" for b d
      using lock_inv_unique [OF inv _ _ k] by blast
    with False inv c k show ?thesis by (auto simp: lock_inv_def)
  qed
  moreover have "g = phys_bindings (net w')"
    if "j < length (calls w')" "call_binding (calls w' ! j) = Some g" for j g
    using that lock_inv_binding [OF inv, of j g] c k by (cases "j = k") auto
  ultimately show ?thesis unfolding lock_inv_def by blast
qed

lemma call_inv_unique:
  "call_inv C w \<Longrightarrow> waiting w j b ch \<Longrightarrow> waiting w k b' ch \<Longrightarrow> j = k"
  unfolding call_inv_def by blast

lemma call_inv_ok: "call_inv C w \<Longrightarrow> waiting w k buf ch \<Longrightarrow> call_ok C w buf ch"
  unfolding call_inv_def by blast

lemma call_invI:
  assumes "\<And>k buf ch. waiting w k buf ch \<Longrightarrow> call_ok C w buf ch"
    and "\<And>j k b b' ch. waiting w j b ch \<Longrightarrow> waiting w k b' ch \<Longrightarrow> j = k"
  shows "call_inv C w"
  unfolding call_inv_def using assms by blast

text \<open>What does not touch the channels and flows of the waiting calls.\<close>

lemma call_ok_frame:
  assumes "call_ok C w buf ch" "next_chan w \<le> next_chan w'" "chans w' ch = chans w ch"
    "\<And>t. (t, ch) \<in> set (flows (net w')) \<longleftrightarrow> (t, ch) \<in> set (flows (net w))"
  shows "call_ok C w' buf ch"
  using assms by (simp add: call_ok_def)

lemma call_inv_frame:
  assumes inv: "call_inv C w" and "next_chan w \<le> next_chan w'"
    and same: "\<And>k buf ch. waiting w' k buf ch \<Longrightarrow> waiting w k buf ch \<and> chans w' ch = chans w ch \<and>
      (\<forall>t. (t, ch) \<in> set (flows (net w')) \<longleftrightarrow> (t, ch) \<in> set (flows (net w)))"
  shows "call_inv C w'"
proof (rule call_invI)
  fix k buf ch
  assume w: "waiting w' k buf ch"
  with same have "waiting w k buf ch" by blast
  from call_ok_frame [OF call_inv_ok [OF inv this] assms(2)] same [OF w]
  show "call_ok C w' buf ch" by blast
next
  fix j k b b' ch
  assume "waiting w' j b ch" "waiting w' k b' ch"
  then show "j = k" using same call_inv_unique [OF inv] by blast
qed

text \<open>A call that stops waiting.\<close>

lemma call_inv_remove:
  assumes inv: "call_inv C w" and k: "waiting w k buf ch"
    and w': "calls w' = (calls w)[k := c]" "call_wait c = None" "net w' = net w"
      "next_chan w' = next_chan w" "\<And>d. d \<noteq> ch \<Longrightarrow> chans w' d = chans w d"
  shows "call_inv C w'"
proof (rule call_inv_frame [OF inv])
  fix j b d
  assume j: "waiting w' j b d"
  have "k < length (calls w)" using k by (simp add: waiting_def)
  with j w'(1,2) have "waiting w j b d" "j \<noteq> k"
    by (simp_all add: waiting_update split: if_splits)
  moreover from this k have "d \<noteq> ch" using call_inv_unique [OF inv] by blast
  ultimately show "waiting w j b d \<and> chans w' d = chans w d \<and>
      (\<forall>t. (t, d) \<in> set (flows (net w')) \<longleftrightarrow> (t, d) \<in> set (flows (net w)))"
    using w'(3,5) by simp
qed (simp add: w'(4))

text \<open>The call was cancelled or panicked in \<open>transmit\<close>.\<close>

fun call_failed :: "sendto_call \<Rightarrow> bool" where
  "call_failed Cancelled = True"
| "call_failed (Returned (Some buf) (Panic m)) = True"
| "call_failed _ = False"

definition blame_inv :: "'b sn_world \<Rightarrow> bool" where
  "blame_inv w \<longleftrightarrow>
     (flows_poisoned (net w) \<or> (\<exists>ch. chans w ch = ReceiverGone) \<longrightarrow>
        (\<exists>c \<in> set (calls w). call_failed c))"

lemma blame_inv_update:
  assumes "blame_inv w" "calls w' = (calls w)[k := c]" "\<not> call_failed (calls w ! k)"
    "net w' = net w" "chans w' = chans w" "k < length (calls w)"
  shows "blame_inv w'"
proof -
  have "\<exists>c \<in> set (calls w'). call_failed c" if "\<exists>c \<in> set (calls w). call_failed c"
  proof -
    from that obtain j where "j < length (calls w)" "call_failed (calls w ! j)"
      by (auto simp: in_set_conv_nth)
    moreover from this assms(3) have "j \<noteq> k" by auto
    ultimately have "calls w' ! j = calls w ! j" "j < length (calls w')" using assms(2) by simp_all
    with \<open>call_failed (calls w ! j)\<close> show ?thesis by (metis nth_mem)
  qed
  with assms(1,4,5) show ?thesis by (auto simp: blame_inv_def)
qed

lemma sendto_finish_Ok:
  "sendto_finish C c = Some (Ok (a, rb)) \<longleftrightarrow> c = Sent (ClientReceive a rb)"
  by (auto simp: sendto_finish_def split: chan_state.splits client_callback_msg.splits)

text \<open>The invariants hold at the start.\<close>

lemma init_inv:
  "table_inv (sn_init bs b)" "call_inv C (sn_init bs b)" "result_inv C (sn_init bs b)"
  "lock_inv (sn_init bs b)" "fault_inv (sn_init bs b)"
  by (simp_all add: sn_init_def simple_network_new_def table_inv_def call_inv_def result_inv_def
      lock_inv_def fault_inv_def waiting_def)

context crates_spec
begin

lemma table_inv_step:
  assumes inv: "table_inv w" "call_inv C w" and "sn_exec C ops chk e w = Some w'"
  shows "table_inv w'"
  using assms(3)
proof (cases rule: sn_exec_cases)
  case (failed r)
  then show ?thesis using inv(1) failed(1,4,6) by (force simp: table_inv_def)
next
  case (pushed h buf a t)
  have "next_chan w \<notin> snd ` set (flows (net w))"
    using inv(1) by (force simp: table_inv_def)
  then have "distinct (map snd (flows (net w')))"
    using inv(1) pushed(2) by (simp add: table_inv_def)
  then show ?thesis using inv(1) pushed(2,5,7) by (auto simp: table_inv_def less_Suc_eq)
next
  case (unsent k h buf a ch b' r m)
  then have "waiting w k buf ch" by (simp add: waiting_def)
  from call_inv_ok [OF inv(2) this] have "ch < next_chan w" by (simp add: call_ok_def)
  with unsent inv(1) show ?thesis by (auto simp: table_inv_def)
next
  case (cancelled k buf ch)
  then have "waiting w k buf ch" by (simp add: waiting_def)
  from call_inv_ok [OF inv(2) this] have "ch < next_chan w" by (simp add: call_ok_def)
  with cancelled inv(1) show ?thesis by (auto simp: table_inv_def)
next
  case (answer i d q rt t ch rest)
  have "distinct (map snd rest) \<and> ch \<notin> snd ` set rest"
    using flows.take_distinct [OF _ answer(7)] inv(1) by (simp add: table_inv_def)
  moreover have "set rest \<subseteq> set (flows (net w))" "ch < next_chan w"
    using flows.take_rest_subset [OF answer(7)] flows.take_member [OF answer(7)] inv(1)
    by (auto simp: table_inv_def)
  ultimately show ?thesis using answer inv(1) by (force simp: table_inv_def)
next
  case (unheard i d q rt t ch rest)
  have "distinct (map snd rest)" "set rest \<subseteq> set (flows (net w))"
    using flows.take_distinct [OF _ unheard(7)] flows.take_rest_subset [OF unheard(7)] inv(1)
    by (auto simp: table_inv_def)
  then show ?thesis using unheard inv(1) by (auto simp: table_inv_def sn_handler_dies_def)
qed (use inv(1) in \<open>auto simp: table_inv_def sn_handler_dies_def\<close>)

lemma lock_inv_step:
  assumes inv: "lock_inv w" and "sn_exec C ops chk e w = Some w'"
  shows "lock_inv w'"
  using assms(2)
proof (cases rule: sn_exec_cases)
  case quiet
  with inv show ?thesis by (simp add: lock_inv_def)
next
  case (failed r)
  with inv show ?thesis by (auto simp: lock_inv_def nth_append less_Suc_eq)
next
  case (pushed h buf a t)
  with inv show ?thesis by (auto simp: lock_inv_def nth_append less_Suc_eq)
next
  case (sent k h buf a ch b')
  have "h = phys_bindings (net w)"
    using lock_inv_binding [OF inv sent(2)] sent(3) by simp
  moreover have "calls w ! j \<noteq> WaitResponse h b c" if "j < length (calls w)" for j b c
    using lock_inv_holder [OF inv that, of h b c] sent(4) by auto
  ultimately show ?thesis using inv sent(2,3,4,6)
    by (auto simp: lock_inv_def nth_list_update)
next
  case (unsent k h buf a ch b' r m)
  with inv show ?thesis by (auto simp: lock_inv_def nth_list_update)
next
  case (received k h buf ch r)
  then show ?thesis by (intro lock_inv_release [OF inv received(1,2)]) simp_all
next
  case (cancelled k buf ch)
  show ?thesis
  proof (cases "calls w ! k")
    case (WaitResponse h b c)
    with cancelled show ?thesis
      by (intro lock_inv_release [OF inv cancelled(2) WaitResponse]) simp_all
  qed (use inv cancelled in \<open>auto simp: lock_inv_def nth_list_update\<close>)
qed (use inv in \<open>simp_all add: lock_inv_def sn_handler_dies_def\<close>)

lemma fault_inv_step:
  assumes inv: "fault_inv w" and "sn_exec C ops chk e w = Some w'"
  shows "fault_inv w'"
  using assms(2)
  by (cases rule: sn_exec_cases) (use inv in \<open>auto simp: fault_inv_def sn_handler_dies_def\<close>)

lemma result_inv_step:
  assumes inv: "result_inv C w" "call_inv C w" and "sn_exec C ops chk e w = Some w'"
  shows "result_inv C w'"
  using assms(3)
proof (cases rule: sn_exec_cases)
  case (failed r)
  with inv(1) show ?thesis by (auto simp: result_inv_def nth_append less_Suc_eq)
next
  case (pushed h buf a t)
  with inv(1) show ?thesis by (auto simp: result_inv_def nth_append less_Suc_eq)
next
  case (received k h buf ch r)
  have "answers C buf (ClientReceive a rb)" if "r = Ok (a, rb)" for a rb
  proof -
    have "waiting w k buf ch" using received by (simp add: waiting_def)
    moreover have "chans w ch = Sent (ClientReceive a rb)"
      using received that by (simp add: sendto_finish_Ok)
    ultimately show ?thesis using call_inv_ok [OF inv(2)] unfolding call_ok_def by blast
  qed
  with inv(1) received show ?thesis by (auto simp: result_inv_def nth_list_update split: if_splits)
qed (use inv(1) in \<open>auto simp: result_inv_def sn_handler_dies_def nth_list_update split: if_splits\<close>)

lemma call_inv_push:
  assumes inv: "table_inv w" "call_inv C w"
    and pushed: "create_tag C buf = Some t" "flows (net w') = flows (net w) @ [(t, next_chan w)]"
      "calls w' = calls w @ [WaitLock h buf a (next_chan w)]" "chans w' = chans w"
      "next_chan w' = Suc (next_chan w)"
  shows "call_inv C w'"
proof -
  let ?c = "next_chan w"
  have w': "waiting w' k b ch \<longleftrightarrow> waiting w k b ch \<or> k = length (calls w) \<and> b = buf \<and> ch = ?c" for k b ch
    by (auto simp: waiting_append [OF pushed(3)])
  have fresh: "chans w ?c = Open" "\<And>t. (t, ?c) \<notin> set (flows (net w))"
    using inv(1) by (auto simp: table_inv_def)
  have old: "ch < ?c" if "waiting w k b ch" for k b ch
    using call_inv_ok [OF inv(2) that] by (simp add: call_ok_def)
  have flows: "set (flows (net w')) = insert (t, ?c) (set (flows (net w)))" using pushed(2) by simp
  show ?thesis
  proof (rule call_invI)
    fix k b ch
    assume "waiting w' k b ch"
    then consider "waiting w k b ch" | "b = buf" "ch = ?c" using w' by blast
    then show "call_ok C w' b ch"
    proof cases
      case 1
      show ?thesis
        by (rule call_ok_frame [OF call_inv_ok [OF inv(2) 1]])
          (use old [OF 1] flows pushed(4,5) in auto)
    next
      case 2
      then show ?thesis using fresh flows pushed(1,4,5) by (auto simp: call_ok_def)
    qed
  next
    fix j k b b' ch
    assume "waiting w' j b ch" "waiting w' k b' ch"
    then show "j = k"
      using call_inv_unique [OF inv(2)] old [of j b ch] old [of k b' ch] unfolding w' by blast
  qed
qed

lemma call_inv_answer:
  assumes inv: "table_inv w" "call_inv C w"
    and tk: "create_tag C rb = Some rt" "flow_take rt (flows (net w)) = Some ((t, ch), rest)"
    and w': "flows (net w') = rest" "chans w' = (chans w)(ch := Sent m)" "calls w' = calls w" "next_chan w' = next_chan w"
    and m: "m = ClientReceive (Extended 0 1 i 0) rb"
  shows "call_inv C w'"
proof -
  have mem: "set (flows (net w)) = insert (t, ch) (set rest)" "(t', ch) \<notin> set rest" for t'
    using flows.take_set [OF tk(2)] flows.take_distinct [OF _ tk(2)] inv(1)
    by (force simp: table_inv_def)+
  have ans: "answers C buf m" if "waiting w k buf ch" for k buf
  proof -
    have "create_tag C buf = Some t" using call_inv_ok [OF inv(2) that] mem(1) by (simp add: call_ok_def)
    then show ?thesis using flows.take_matches [OF tk(2)] tk(1) by (simp add: answers_def m)
  qed
  have same: "waiting w' = waiting w" by (rule waiting_same [OF w'(3)])
  show ?thesis
  proof (rule call_invI)
    fix k b c
    assume "waiting w' k b c"
    then have wt: "waiting w k b c" using same by simp
    note ok = call_inv_ok [OF inv(2) wt]
    show "call_ok C w' b c"
    proof (cases "c = ch")
      case True
      then show ?thesis using ans wt ok mem(2) w' by (auto simp: call_ok_def)
    next
      case False
      then show ?thesis by (intro call_ok_frame [OF ok]) (use mem w' in auto)
    qed
  next
    fix j k b b' c
    assume "waiting w' j b c" "waiting w' k b' c"
    then show "j = k" using call_inv_unique [OF inv(2)] unfolding same by blast
  qed
qed

lemma call_inv_step:
  assumes inv: "table_inv w" "call_inv C w" and "sn_exec C ops chk e w = Some w'"
  shows "call_inv C w'"
  using assms(3)
proof (cases rule: sn_exec_cases)
  case quiet
  then show ?thesis
    by (intro call_inv_frame [OF inv(2)]) (simp_all add: waiting_same [OF quiet(3)])
next
  case (failed r)
  then show ?thesis
    by (intro call_inv_frame [OF inv(2)]) (simp_all add: waiting_append [OF failed(3)])
next
  case (pushed h buf a t)
  then show ?thesis using call_inv_push [OF inv pushed(1,2,4,5,7)] by simp
next
  case (sent k h buf a ch b')
  have "waiting w' = waiting w"
    by (intro ext) (use sent in \<open>auto simp: waiting_def nth_list_update\<close>)
  then show ?thesis using sent by (intro call_inv_frame [OF inv(2)]) simp_all
next
  case (unsent k h buf a ch b' r m)
  then have "waiting w k buf ch" by (simp add: waiting_def)
  from call_inv_remove [OF inv(2) this, of w' "Returned (Some buf) (Panic m)"] unsent show ?thesis by simp
next
  case (received k h buf ch r)
  then have "waiting w k buf ch" by (simp add: waiting_def)
  from call_inv_remove [OF inv(2) this, of w' "Returned (Some buf) r"] received show ?thesis by simp
next
  case (cancelled k buf ch)
  then have "waiting w k buf ch" by (simp add: waiting_def)
  from call_inv_remove [OF inv(2) this, of w' "Cancelled"] cancelled show ?thesis by simp
next
  case (answer i d q rt t ch rest)
  show ?thesis by (rule call_inv_answer [OF inv answer(6,7)]) (simp_all add: answer(9))
next
  case (unheard i d q rt t ch rest)
  have mem: "set (flows (net w)) = insert (t, ch) (set rest)"
    using flows.take_set [OF unheard(7)] .
  then have "chans w ch = ReceiverGone" using inv(1) unheard(8) by (auto simp: table_inv_def)
  then have "\<not> waiting w k buf ch" for k buf
    using call_inv_ok [OF inv(2), of k buf ch] by (auto simp: call_ok_def)
  moreover have "waiting w' = waiting w"
    by (rule waiting_same) (simp add: unheard(9) sn_handler_dies_def)
  ultimately show ?thesis
    using unheard mem
    by (intro call_inv_frame [OF inv(2)]) (auto simp: sn_handler_dies_def)
next
  case dead
  have "waiting w' = waiting w" by (rule waiting_same) (simp add: dead(3) sn_handler_dies_def)
  then show ?thesis using dead by (intro call_inv_frame [OF inv(2)]) (simp_all add: sn_handler_dies_def)
qed

lemma reachable_inv:
  assumes "sn_reachable C ops chk w"
  shows "table_inv w \<and> call_inv C w \<and> result_inv C w \<and> lock_inv w \<and> fault_inv w"
  using assms
proof induction
  case (start bs b)
  show ?case by (simp add: init_inv)
next
  case (step w e w')
  then have inv: "table_inv w" "call_inv C w" "result_inv C w" "lock_inv w" "fault_inv w" by simp_all
  show ?case
    using table_inv_step [OF inv(1,2) step.hyps(2)] call_inv_step [OF inv(1,2) step.hyps(2)]
      result_inv_step [OF inv(3,2) step.hyps(2)] lock_inv_step [OF inv(4) step.hyps(2)]
      fault_inv_step [OF inv(5) step.hyps(2)] by simp
qed

text \<open>A receiver is gone only if its call was cancelled or its \<open>transmit\<close> failed.\<close>

lemma blame_inv_step:
  assumes inv: "blame_inv w" "table_inv w" and "sn_exec C ops chk e w = Some w'"
  shows "blame_inv w'"
  using assms(3)
proof (cases rule: sn_exec_cases)
  case quiet
  with inv(1) show ?thesis by (simp add: blame_inv_def)
next
  case (failed r)
  with inv(1) show ?thesis by (simp add: blame_inv_def)
next
  case (pushed h buf a t)
  with inv(1) show ?thesis by (simp add: blame_inv_def)
next
  case (sent k h buf a ch b')
  then show ?thesis by (intro blame_inv_update [OF inv(1)]) simp_all
next
  case (unsent k h buf a ch b' r m)
  then have "call_failed (calls w' ! k)" "k < length (calls w')" by simp_all
  then show ?thesis unfolding blame_inv_def by (auto intro: nth_mem)
next
  case (received k h buf ch r)
  then show ?thesis by (intro blame_inv_update [OF inv(1)]) simp_all
next
  case (cancelled k buf ch)
  then have "call_failed (calls w' ! k)" "k < length (calls w')" by simp_all
  then show ?thesis unfolding blame_inv_def by (auto intro: nth_mem)
next
  case (answer i d q rt t ch rest)
  then show ?thesis using inv(1) by (auto simp: blame_inv_def split: if_splits)
next
  case (unheard i d q rt t ch rest)
  have "chans w ch = ReceiverGone"
    using flows.take_member [OF unheard(7)] inv(2) unheard(8) by (auto simp: table_inv_def)
  with unheard inv(1) show ?thesis by (auto simp: blame_inv_def sn_handler_dies_def)
next
  case dead
  with inv(1) show ?thesis by (auto simp: blame_inv_def sn_handler_dies_def)
qed

lemma reachable_blame: "sn_reachable C ops chk w \<Longrightarrow> blame_inv w"
proof (induction rule: sn_reachable.induct)
  case (start bs b)
  show ?case by (simp add: blame_inv_def sn_init_def simple_network_new_def)
next
  case (step w e w')
  then show ?case using blame_inv_step [OF _ _ step.hyps(2)] reachable_inv [OF step.hyps(1)] by blast
qed

section \<open>Progress\<close>

text \<open>
  A packet that answers the flow of a waiting call, and no other flow, completes that call.
\<close>

lemma handle_then_receive:
  assumes inv: "table_inv w" "call_inv C w"
    and k: "k < length (calls w)" "calls w ! k = WaitResponse h buf ch" "chans w ch = Open"
    and up: "handler_up w" "\<not> flows_poisoned (net w)"
    and q: "rx_queue w = BindingReceive i d # q" "4 \<le> length d"
    and rt: "create_tag C buf = Some t" "create_tag C (drop 4 d) = Some rt" "flow_matches t rt"
    and only: "\<And>t' c. (t', c) \<in> set (flows (net w)) \<Longrightarrow> flow_matches t' rt \<Longrightarrow> c = ch"
  shows "\<exists>w'. sn_run C ops chk [Handle, Receive k] w = Some w' \<and>
    calls w' ! k = Returned (Some buf) (Ok (Extended 0 1 i 0, drop 4 d)) \<and>
    lock_holder w' h = None \<and> handler_up w' \<and> rx_queue w' = q"
proof -
  have "waiting w k buf ch" using k by (simp add: waiting_def)
  from call_inv_ok [OF inv(2) this] k(3) rt(1) have "(t, ch) \<in> set (flows (net w))"
    by (auto simp: call_ok_def)
  then obtain t' c rest where tk: "flow_take rt (flows (net w)) = Some ((t', c), rest)"
    using flows.take_None_iff [of rt "flows (net w)"] rt(3)
    by (cases "flow_take rt (flows (net w))") fastforce+
  have c: "c = ch"
    using only [of t' c] flows.take_member [OF tk] flows.take_matches [OF tk] by simp
  let ?m = "ClientReceive (Extended 0 1 i 0) (drop 4 d)"
  let ?w1 = "w\<lparr>net := (net w)\<lparr>flows := rest\<rparr>, rx_queue := q, chans := (chans w)(ch := Sent ?m)\<rparr>"
  have "sn_exec C ops chk Handle w = Some ?w1"
    using sn_callback_answer [OF q(2) up(2) rt(2) tk] up q(1) k(3) c
    by (simp add: sn_exec_def sn_handle_def chan_send_def)
  moreover have "sn_exec C ops chk (Receive k) ?w1 =
      Some (?w1\<lparr>lock_holder := (lock_holder w)(h := None),
                calls := (calls w)[k := Returned (Some buf) (Ok (Extended 0 1 i 0, drop 4 d))]\<rparr>)"
    using k by (simp add: sn_exec_def sn_receive_def sendto_finish_def)
  ultimately show ?thesis using k(1) up(1) by simp
qed

text \<open>
  A whole exchange on a fresh network: open a socket, bind it, send, transmit, get the
  answer from the binding, and return it.
\<close>

lemma exchange_run:
  assumes buf: "h = transport_header_new C a e g (Some True) (Some True) (Some True)"
      "buf = transport_header_ser C h @ p"
    and tx: "op_transmit ops (bs b) buf phy = (Ok (), b')"
    and d: "4 \<le> length d" "create_tag C (drop 4 d) = Some rt" "flow_matches (header_tag C h) rt"
  shows "\<exists>w. sn_run C ops chk
      [Socket, Bind 0 a mt g, Sendto 0 p (Extended e nw 1 phy), Transmit 0, Deliver 1 d, Handle, Receive 0]
      (sn_init bs b) = Some w \<and>
    calls w = [Returned (Some buf) (Ok (Extended 0 1 1 0, drop 4 d))] \<and>
    flows (net w) = [] \<and> lock_holder w b = None \<and> handler_up w \<and> binding_of w b = b'"
proof -
  let ?c = "client_new a mt g"
  let ?n = "(simple_network_new b)\<lparr>num_clients := 1, clients := [0 \<mapsto> ?c]\<rparr>"
  let ?t = "header_tag C h"
  have bind: "sn_bind chk ((simple_network_new b)\<lparr>num_clients := 1\<rparr>) 0 a mt g = (Ok (), ?n)"
    by (simp add: sn_bind_def sub_i_def simple_network_new_def)
  have start: "sendto_start C ?n 0 p (Extended e nw 1 phy) 0 =
      (Ok (b, buf, phy, ?t), ?n\<lparr>flows := [(?t, 0)]\<rparr>)"
    using sendto_start_ok [of ?n 0 ?c buf e p ?t] buf
    by (simp add: simple_network_new_def client_new_def)
  have tk: "flow_take rt [(?t, 0)] = Some ((?t, 0), [])"
    by (rule flow_take_hd [OF d(3)])
  have "sn_callback C (?n\<lparr>flows := [(?t, 0)]\<rparr>) (BindingReceive 1 d) =
      (Ok (Some (0, ClientReceive (Extended 0 1 1 0) (drop 4 d))), ?n\<lparr>flows := []\<rparr>)"
    using sn_callback_answer [of d "?n\<lparr>flows := [(?t, 0)]\<rparr>" rt ?t 0 "[]" 1] d tk
    by (simp add: simple_network_new_def)
  moreover have "d \<noteq> []" using d(1) by auto
  ultimately show ?thesis
    using bind start tx
    by (simp add: sn_exec_def sn_init_def sn_socket_def sn_transmit_def sn_handle_def chan_send_def
        sn_receive_def sendto_finish_def simple_network_new_def)
qed

end

lemma sn_run_reachable:
  "sn_reachable C ops chk w \<Longrightarrow> sn_run C ops chk es w = Some w' \<Longrightarrow> sn_reachable C ops chk w'"
proof (induction es arbitrary: w)
  case Nil
  then show ?case by simp
next
  case (Cons e es)
  then obtain v where "sn_exec C ops chk e w = Some v" "sn_run C ops chk es v = Some w'"
    by (auto split: option.splits)
  with Cons show ?case using sn_reachable.step by blast
qed

end
