(* ===== verification/SimpleProps.thy ===== *)
theory SimpleProps
  imports SimpleRuns
begin

text \<open>
  What the runs of a \<open>SimpleNetwork\<close> guarantee: a response reaches only the call it answers,
  one request is on the wire at a time, and the callback handler survives as long as no call
  fails; and what happens after a call has failed.
\<close>

section \<open>After the handler has died\<close>

text \<open>Nothing is sent on a channel any more, and no new call starts waiting.\<close>

definition no_new_answers :: "'b sn_world \<Rightarrow> 'b sn_world \<Rightarrow> bool" where
  "no_new_answers w w' \<longleftrightarrow>
     \<not> handler_up w' \<and> (\<forall>ch m. chans w' ch = Sent m \<longrightarrow> chans w ch = Sent m) \<and>
     (\<forall>k buf ch. waiting w' k buf ch \<longrightarrow> waiting w k buf ch) \<and>
     (\<forall>k b x. k < length (calls w') \<and> calls w' ! k = Returned b (Ok x) \<longrightarrow>
        k < length (calls w) \<and> (calls w ! k = Returned b (Ok x) \<or>
          (\<exists>buf ch m. waiting w k buf ch \<and> chans w ch = Sent m)))"

lemma no_new_answers_refl: "\<not> handler_up w \<Longrightarrow> no_new_answers w w"
  by (simp add: no_new_answers_def)

lemma no_new_answers_trans:
  assumes "no_new_answers w1 w2" "no_new_answers w2 w3"
  shows "no_new_answers w1 w3"
  unfolding no_new_answers_def
proof (intro conjI allI impI)
  show "\<not> handler_up w3" using assms(2) by (simp add: no_new_answers_def)
next
  fix ch m
  assume "chans w3 ch = Sent m"
  then show "chans w1 ch = Sent m" using assms by (simp add: no_new_answers_def)
next
  fix k buf ch
  assume "waiting w3 k buf ch"
  then show "waiting w1 k buf ch" using assms by (simp add: no_new_answers_def)
next
  fix k b x
  assume k: "k < length (calls w3) \<and> calls w3 ! k = Returned b (Ok x)"
  then consider "k < length (calls w2)" "calls w2 ! k = Returned b (Ok x)"
    | buf ch m where "waiting w2 k buf ch" "chans w2 ch = Sent m"
    using assms(2) unfolding no_new_answers_def by blast
  then have "k < length (calls w1) \<and> (calls w1 ! k = Returned b (Ok x) \<or>
      (\<exists>buf ch m. waiting w1 k buf ch \<and> chans w1 ch = Sent m))"
  proof cases
    case 1
    then show ?thesis using assms(1) unfolding no_new_answers_def by blast
  next
    case (2 buf ch m)
    then have "waiting w1 k buf ch" "chans w1 ch = Sent m"
      using assms(1) by (simp_all add: no_new_answers_def)
    then show ?thesis by (auto simp: waiting_def)
  qed
  then show "k < length (calls w1)" "calls w1 ! k = Returned b (Ok x) \<or>
      (\<exists>buf ch m. waiting w1 k buf ch \<and> chans w1 ch = Sent m)" by simp_all
qed

lemma no_new_answers_update:
  assumes "\<not> handler_up w" "calls w' = (calls w)[k := c]" "k < length (calls w)"
    "handler_up w' = handler_up w" "\<And>ch m. chans w' ch = Sent m \<Longrightarrow> chans w ch = Sent m"
    "\<And>buf ch. call_wait c = Some (buf, ch) \<Longrightarrow> waiting w k buf ch"
    "\<And>b x. c = Returned b (Ok x) \<Longrightarrow> \<exists>buf ch m. waiting w k buf ch \<and> chans w ch = Sent m"
  shows "no_new_answers w w'"
proof -
  have "waiting w j buf ch" if "waiting w' j buf ch" for j buf ch
    using that assms(6) by (auto simp: waiting_update [OF assms(2,3)] split: if_splits)
  moreover have "calls w ! j = Returned b (Ok x) \<or> (\<exists>buf ch m. waiting w j buf ch \<and> chans w ch = Sent m)"
    if "j < length (calls w)" "calls w' ! j = Returned b (Ok x)" for j b x
    using that assms(7) [of b x] unfolding assms(2) by (cases "j = k") simp_all
  ultimately show ?thesis
    using assms(1,4,5) unfolding no_new_answers_def by (simp add: assms(2))
qed

context crates_spec
begin

lemma dead_step:
  assumes "fault_inv w" "\<not> handler_up w" "sn_exec C ops chk e w = Some w'"
  shows "no_new_answers w w'"
  using assms(3)
proof (cases rule: sn_exec_cases)
  case quiet
  then show ?thesis using assms(2) waiting_same [OF quiet(3)] by (simp add: no_new_answers_def)
next
  case (failed r)
  then show ?thesis using assms(2)
    by (auto simp: no_new_answers_def waiting_append [OF failed(3)] nth_append less_Suc_eq)
next
  case (pushed h buf a t)
  then show ?thesis using assms(1,2) by (simp add: fault_inv_def)
next
  case (sent k h buf a ch b')
  then show ?thesis
    by (intro no_new_answers_update [OF assms(2), where k = k]) (auto simp: waiting_def)
next
  case (unsent k h buf a ch b' r m)
  then show ?thesis
    by (intro no_new_answers_update [OF assms(2), where k = k]) (auto split: if_splits)
next
  case (received k h buf ch r)
  have "waiting w k buf ch" using received by (simp add: waiting_def)
  moreover have "\<exists>m. chans w ch = Sent m" if "r = Ok x" for x
    using received(3) that by (cases x) (auto simp: sendto_finish_Ok)
  ultimately have "\<exists>buf ch m. waiting w k buf ch \<and> chans w ch = Sent m" if "r = Ok x" for x
    using that by blast
  then have "\<And>b x. Returned (Some buf) r = Returned b (Ok x) \<Longrightarrow>
      \<exists>buf ch m. waiting w k buf ch \<and> chans w ch = Sent m" by blast
  then show ?thesis
    by (rule no_new_answers_update [OF assms(2) _ received(1), rotated -1])
      (auto simp: received(4))
next
  case (cancelled k buf ch)
  then show ?thesis
    by (intro no_new_answers_update [OF assms(2), where k = k]) (auto split: if_splits)
qed (use assms(2) in auto)

lemma dead_run:
  "fault_inv w \<Longrightarrow> \<not> handler_up w \<Longrightarrow> sn_run C ops chk es w = Some w' \<Longrightarrow> no_new_answers w w'"
proof (induction es arbitrary: w)
  case Nil
  then show ?case by (simp add: no_new_answers_refl)
next
  case (Cons e es)
  then obtain v where v: "sn_exec C ops chk e w = Some v" "sn_run C ops chk es v = Some w'"
    by (auto split: option.splits)
  have st: "no_new_answers w v" "fault_inv v"
    using dead_step [OF Cons.prems(1,2) v(1)] fault_inv_step [OF Cons.prems(1) v(1)] by simp_all
  then have "\<not> handler_up v" by (simp add: no_new_answers_def)
  then show ?case using no_new_answers_trans [OF st(1) Cons.IH [OF st(2) _ v(2)]] by simp
qed

end

section \<open>A failed transmission\<close>

context crates_spec
begin

lemma stale_flow_run:
  assumes h: "h = transport_header_new C a e g (Some True) (Some True) (Some True)"
    and tx: "op_transmit ops (bs b) (transport_header_ser C h @ p1) phy1 = (Err x, b1)"
      "op_transmit ops b1 (transport_header_ser C h @ p2) phy2 = (Ok (), b2)"
    and d: "4 \<le> length d" "create_tag C (drop 4 d) = Some rt" "flow_matches (header_tag C h) rt"
  shows "\<exists>w. sn_run C ops chk
      [Socket, Bind 0 a mt g, Sendto 0 p1 (Extended e nw 1 phy1), Transmit 0,
       Sendto 0 p2 (Extended e nw 1 phy2), Transmit 1, Deliver 1 d, Handle] (sn_init bs b) = Some w \<and>
    \<not> handler_up w \<and> flows_poisoned (net w) \<and>
    calls w ! 1 = WaitResponse b (transport_header_ser C h @ p2) 1 \<and> chans w 1 = Open \<and>
    lock_holder w b = Some 1 \<and> length (calls w) = 2 \<and> rx_queue w = []"
proof -
  let ?c = "client_new a mt g" and ?t = "header_tag C h"
  let ?n = "(simple_network_new b)\<lparr>num_clients := 1, clients := [0 \<mapsto> ?c]\<rparr>"
  let ?f = "[(?t, 0 :: nat), (?t, 1)]"
  have bind: "sn_bind chk ((simple_network_new b)\<lparr>num_clients := 1\<rparr>) 0 a mt g = (Ok (), ?n)"
    by (simp add: sn_bind_def sub_i_def simple_network_new_def)
  have start: "sendto_start C (?n\<lparr>flows := fs\<rparr>) 0 p (Extended e nw 1 phy) ch =
      (Ok (b, transport_header_ser C h @ p, phy, ?t), ?n\<lparr>flows := fs @ [(?t, ch)]\<rparr>)" for fs p phy ch
    using sendto_start_ok [of "?n\<lparr>flows := fs\<rparr>" 0 ?c "transport_header_ser C h @ p" e p ?t] h
    by (simp add: simple_network_new_def client_new_def)
  have start0: "sendto_start C ?n 0 p (Extended e nw 1 phy) ch =
      (Ok (b, transport_header_ser C h @ p, phy, ?t), ?n\<lparr>flows := [(?t, ch)]\<rparr>)" for p phy ch
    using start [of "[]" p phy ch] by (simp add: simple_network_new_def)
  have tk: "flow_take rt ?f = Some ((?t, 0), [(?t, 1)])"
    by (rule flow_take_hd [OF d(3)])
  have "sn_callback C (?n\<lparr>flows := ?f\<rparr>) (BindingReceive 1 d) =
      (Ok (Some (0, ClientReceive (Extended 0 1 1 0) (drop 4 d))), ?n\<lparr>flows := [(?t, 1)]\<rparr>)"
    using sn_callback_answer [of d "?n\<lparr>flows := ?f\<rparr>" rt ?t 0 "[(?t, 1)]" 1] d tk
    by (simp add: simple_network_new_def)
  moreover have "d \<noteq> []" using d(1) by auto
  ultimately show ?thesis
    using bind start start0 tx
    by (simp add: sn_exec_def sn_init_def sn_socket_def sn_transmit_def sn_handle_def chan_send_def
        simple_network_new_def sn_handler_dies_def nth_append)
qed

text \<open>A network with one request on the wire and its answer in the queue.\<close>

lemma waiting_run:
  assumes h: "h = transport_header_new C a e g (Some True) (Some True) (Some True)"
    and tx: "op_transmit ops (bs b) (transport_header_ser C h @ p) phy = (Ok (), b')" and "d \<noteq> []"
  shows "\<exists>w. sn_run C ops chk
      [Socket, Bind 0 a mt g, Sendto 0 p (Extended e nw 1 phy), Transmit 0, Deliver 1 d] (sn_init bs b) = Some w \<and>
    handler_up w \<and> calls w = [WaitResponse b (transport_header_ser C h @ p) 0] \<and> chans w 0 = Open \<and>
    rx_queue w = [BindingReceive 1 d] \<and> flows (net w) = [(header_tag C h, 0)]"
proof -
  let ?c = "client_new a mt g" and ?t = "header_tag C h"
  let ?n = "(simple_network_new b)\<lparr>num_clients := 1, clients := [0 \<mapsto> ?c]\<rparr>"
  have bind: "sn_bind chk ((simple_network_new b)\<lparr>num_clients := 1\<rparr>) 0 a mt g = (Ok (), ?n)"
    by (simp add: sn_bind_def sub_i_def simple_network_new_def)
  have "sendto_start C ?n 0 p (Extended e nw 1 phy) 0 =
      (Ok (b, transport_header_ser C h @ p, phy, ?t), ?n\<lparr>flows := [(?t, 0)]\<rparr>)"
    using sendto_start_ok [of ?n 0 ?c "transport_header_ser C h @ p" e p ?t] h
    by (simp add: simple_network_new_def client_new_def)
  then show ?thesis
    using bind tx assms(3)
    by (simp add: sn_exec_def sn_init_def sn_socket_def sn_transmit_def simple_network_new_def)
qed

end

section \<open>The packets of the calls\<close>

text \<open>Every packet of a call, waiting or returned, was built by \<open>sendto\<close>.\<close>

fun call_packet :: "sendto_call \<Rightarrow> bytes option" where
  "call_packet (WaitLock h buf a ch) = Some buf"
| "call_packet (WaitResponse h buf ch) = Some buf"
| "call_packet (Returned b r) = b"
| "call_packet Cancelled = None"

definition packets_inv :: "crates \<Rightarrow> 'b sn_world \<Rightarrow> bool" where
  "packets_inv C w \<longleftrightarrow> (\<forall>c \<in> set (calls w). \<forall>buf. call_packet c = Some buf \<longrightarrow> request_packet C buf)"

lemma packets_inv_update:
  "packets_inv C w \<Longrightarrow> call_packet c = None \<or> k < length (calls w) \<and> call_packet c = call_packet (calls w ! k) \<Longrightarrow>
     calls w' = (calls w)[k := c] \<Longrightarrow> packets_inv C w'"
  unfolding packets_inv_def by (auto dest!: set_update_subset_insert [THEN subsetD] dest: nth_mem [THEN [2] bspec])

context crates_spec
begin

lemma packets_inv_step:
  assumes inv: "packets_inv C w" and ex: "sn_exec C ops chk e w = Some w'"
  shows "packets_inv C w'"
  using ex
proof (cases rule: sn_exec_cases)
  case (sent k h buf a ch b')
  then show ?thesis by (intro packets_inv_update [OF inv, of "WaitResponse h buf ch" k]) simp_all
next
  case (unsent k h buf a ch b' r m)
  then show ?thesis by (intro packets_inv_update [OF inv, of "Returned (Some buf) (Panic m)" k]) simp_all
next
  case (received k h buf ch r)
  then show ?thesis by (intro packets_inv_update [OF inv, of "Returned (Some buf) r" k]) simp_all
next
  case (cancelled k buf ch)
  then show ?thesis by (intro packets_inv_update [OF inv, of Cancelled k]) simp_all
qed (use inv in \<open>simp_all add: packets_inv_def sn_handler_dies_def\<close>)

lemma reachable_packets: "sn_reachable C ops chk w \<Longrightarrow> packets_inv C w"
proof (induction rule: sn_reachable.induct)
  case (start bs b)
  show ?case by (simp add: packets_inv_def sn_init_def)
next
  case (step w e w')
  from packets_inv_step [OF step.IH step.hyps(2)] show ?case .
qed

text \<open>What the match of the tags says of the headers, for a packet that has one and for a shorter one.\<close>

lemma answer_headers:
  assumes h: "wf_transport_header h" "tag_owner C h = 1"
    and m: "create_tag C rb = Some rt" "flow_matches (header_tag C h) rt"
  shows "if 4 \<le> length rb
    then \<exists>hr. transport_header_try_from C rb = Ok hr \<and> msg_tag C hr = msg_tag C h \<and> tag_owner C hr = 0 \<and>
           source_eid hr = destination_eid h
    else msg_tag C h = 0 \<and> destination_eid h = 0"
proof (cases "4 \<le> length rb")
  case True
  then obtain hr where "transport_header_try_from C rb = Ok hr" "create_tag C rb = Some (header_tag C hr)"
    using create_tag_long [of rb] by auto
  with True m h(2) show ?thesis by (auto simp: flow_matches_def header_tag_def)
next
  case False
  with m show ?thesis
    by (auto simp: create_tag_def flow_matches_def header_tag_def msg_flow_tag_default_def)
qed

end

section \<open>Concrete runs\<close>

text \<open>
  An SMBus binding at address \<open>0x10\<close> whose socket takes every datagram, a Get Endpoint ID
  request of endpoint 8 to endpoint 10, and the datagram that answers it.
\<close>

definition demo_env :: send_env where
  "demo_env log d = Inr (length d)"

definition demo_dev :: smbus_net_dev_binding where
  "demo_dev = \<lparr>address = 0x10, network_id = 0, socket = Some \<lparr>tx_log = []\<rparr>\<rparr>"

definition demo_header :: transport_header where
  "demo_header = transport_header_new std_crates 8 10 3 (Some True) (Some True) (Some True)"

definition demo_request :: bytes where
  "demo_request = transport_header_ser std_crates demo_header @ [0, 0x80, 2]"

definition demo_response :: bytes where
  "demo_response = transport_header_ser std_crates (create_response std_crates demo_header) @ [0, 0, 2, 0]"

definition demo_datagram :: bytes where
  "demo_datagram = [0x21, 0x0f, 8, 0x43] @ demo_response @ [0]"

abbreviation demo_ops :: "smbus_net_dev_binding binding_ops" where
  "demo_ops \<equiv> smbus_ops std_crates demo_env"

lemma demo_tags:
  "wf_transport_header demo_header"
  "create_tag std_crates demo_request = Some (header_tag std_crates demo_header)"
  "create_tag std_crates (drop 4 demo_datagram) =
     Some (header_tag std_crates (create_response std_crates demo_header))"
  "flow_matches (header_tag std_crates demo_header)
     (header_tag std_crates (create_response std_crates demo_header))"
proof -
  show wfh: "wf_transport_header demo_header" by (simp add: demo_header_def std.new_wf)
  show "create_tag std_crates demo_request = Some (header_tag std_crates demo_header)"
    unfolding demo_request_def by (rule std.create_tag_ser [OF wfh])
  have "drop 4 demo_datagram =
      transport_header_ser std_crates (create_response std_crates demo_header) @ [0, 0, 2, 0, 0]"
    by (simp add: demo_datagram_def demo_response_def)
  then show "create_tag std_crates (drop 4 demo_datagram) =
      Some (header_tag std_crates (create_response std_crates demo_header))"
    using std.create_tag_ser [OF std.response_fields(1) [OF wfh]] by simp
  show "flow_matches (header_tag std_crates demo_header)
      (header_tag std_crates (create_response std_crates demo_header))"
    by (rule std.response_matches [OF wfh])
qed

lemma demo_transmit_short:
  assumes "length m < 256"
  shows "\<exists>b. op_transmit demo_ops demo_dev m 0x21 = (Ok (), b)"
proof -
  have "validate_smbus_address 0x21 = Ok ()" by (simp add: validate_iff)
  with assms show ?thesis
    by (simp add: smbus_ops_def smbus_transmit_def demo_dev_def demo_env_def try_send_def Let_def)
qed

lemma demo_transmit:
  "op_transmit demo_ops demo_dev demo_request 0x21 = (Ok (), demo_dev\<lparr>socket := Some
     \<lparr>tx_log = [(smbus_frame std_crates 0x10 demo_request 0x21, Inr (length (smbus_frame std_crates 0x10 demo_request 0x21))),
       (smbus_frame std_crates 0x10 demo_request 0x21, Inr (length (smbus_frame std_crates 0x10 demo_request 0x21)))]\<rparr>\<rparr>)"
  "op_transmit demo_ops demo_dev demo_request 0 = (Err (EmuPhys (InvalidAddress 0)), demo_dev)"
proof -
  have "length demo_request < 256"
    using std.th.enc_length [OF demo_tags(1)] by (simp add: demo_request_def transport_header_size_def)
  moreover have "validate_smbus_address 0x21 = Ok ()" by (simp add: validate_iff)
  ultimately show "op_transmit demo_ops demo_dev demo_request 0x21 = (Ok (), demo_dev\<lparr>socket := Some
     \<lparr>tx_log = [(smbus_frame std_crates 0x10 demo_request 0x21, Inr (length (smbus_frame std_crates 0x10 demo_request 0x21))),
       (smbus_frame std_crates 0x10 demo_request 0x21, Inr (length (smbus_frame std_crates 0x10 demo_request 0x21)))]\<rparr>\<rparr>)"
    by (simp add: smbus_ops_def smbus_transmit_def demo_dev_def demo_env_def try_send_def Let_def)
  show "op_transmit demo_ops demo_dev demo_request 0 = (Err (EmuPhys (InvalidAddress 0)), demo_dev)"
    by (simp add: smbus_ops_def smbus_transmit_def validate_smbus_address_def)
qed

lemma demo_run:
  "\<exists>w. sn_reachable std_crates demo_ops True w \<and>
     calls w = [Returned (Some demo_request) (Ok (Extended 0 1 1 0, drop 4 demo_datagram))] \<and>
     handler_up w"
proof -
  have "4 \<le> length demo_datagram" by (simp add: demo_datagram_def)
  from std.exchange_run [where bs = "\<lambda>_. demo_dev" and b = 0,
      OF demo_header_def demo_request_def demo_transmit(1) this demo_tags(3,4)]
  show ?thesis using sn_run_reachable [OF sn_reachable.start] by blast
qed

lemma demo_wait:
  "\<exists>w. sn_reachable std_crates demo_ops True w \<and> handler_up w \<and>
     calls w = [WaitResponse 0 demo_request 0] \<and> chans w 0 = Open \<and>
     rx_queue w = [BindingReceive 1 demo_datagram] \<and>
     flows (net w) = [(header_tag std_crates demo_header, 0)]"
proof -
  have "demo_datagram \<noteq> []" by (simp add: demo_datagram_def)
  from std.waiting_run [where bs = "\<lambda>_. demo_dev" and b = 0,
      OF demo_header_def demo_transmit(1) [unfolded demo_request_def] this]
  show ?thesis using sn_run_reachable [OF sn_reachable.start] unfolding demo_request_def by blast
qed

text \<open>
  The request of a client at endpoint 0 with tag 0 to endpoint 0, as the example client sends it,
  and a datagram with nothing behind its SMBus header: \<open>sendto\<close> returns \<open>Ok\<close> with no packet.
\<close>

definition runt_request :: bytes where
  "runt_request =
     transport_header_ser std_crates (transport_header_new std_crates 0 0 0 (Some True) (Some True) (Some True)) @ [0, 0x80, 2]"

lemma runt_run:
  "\<exists>w. sn_reachable std_crates demo_ops True w \<and>
     calls w = [Returned (Some runt_request) (Ok (Extended 0 1 1 0, []))]"
proof -
  have "length runt_request < 256"
    using std.th.enc_length [OF std.new_wf] by (simp add: runt_request_def transport_header_size_def)
  then obtain b where b: "op_transmit demo_ops demo_dev runt_request 0x21 = (Ok (), b)"
    using demo_transmit_short by blast
  let ?d = "[0x21, 0x0f, 0, 0x43] :: bytes"
  have "4 \<le> length ?d" "create_tag std_crates (drop 4 ?d) = Some msg_flow_tag_default"
    "flow_matches (header_tag std_crates (transport_header_new std_crates 0 0 0 (Some True) (Some True) (Some True)))
       msg_flow_tag_default"
    by (simp_all add: create_tag_def flow_matches_def header_tag_def msg_flow_tag_default_def std.new_eids
        std.new_fields unwrap_or_default_def)
  from std.exchange_run [where bs = "\<lambda>_. demo_dev" and b = 0, OF refl runt_request_def b this]
  show ?thesis using sn_run_reachable [OF sn_reachable.start] by fastforce
qed

section \<open>Properties\<close>

text \<open>
  C1: in every run of a \<open>SimpleNetwork\<close>, however calls, handler
  and binding interleave, a call of \<open>sendto\<close> that returns \<open>Ok\<close> had sent a request with the
  owner bit set. When the packet it returns has a header, that header has the message tag of the
  request, the owner bit cleared, and the endpoint the request was sent to as its source. When the
  packet is too short for a header (under four bytes), nothing in it answers the request:
  \<open>create_tag\<close> gives such a packet the default tag, and the handler takes it for the answer to a
  request with message tag 0 to endpoint 0, such as the one of the example client. The second run
  of the witness returns the empty packet.
\<close>

theorem sendto_answers_request:
  assumes "crates_spec C" "sn_reachable C ops chk w"
    "k < length (calls w)" "calls w ! k = Returned b (Ok (a, rb))"
  shows "\<exists>h p i. b = Some (transport_header_ser C h @ p) \<and> a = Extended 0 1 i 0 \<and>
    wf_transport_header h \<and> tag_owner C h = 1 \<and>
    (if 4 \<le> length rb
     then \<exists>hr. transport_header_try_from C rb = Ok hr \<and> msg_tag C hr = msg_tag C h \<and> tag_owner C hr = 0 \<and>
            source_eid hr = destination_eid h
     else msg_tag C h = 0 \<and> destination_eid h = 0)"
proof -
  from crates_spec.reachable_inv [OF assms(1,2)] assms(3,4)
  obtain buf where buf: "b = Some buf" "answers C buf (ClientReceive a rb)"
    unfolding result_inv_def by blast
  have "request_packet C buf"
    using crates_spec.reachable_packets [OF assms(1,2)] nth_mem [OF assms(3)] assms(4) buf(1)
    by (simp add: packets_inv_def)
  then obtain s d g p where p: "buf = transport_header_ser C (transport_header_new C s d g (Some True) (Some True) (Some True)) @ p"
    by (auto simp: request_packet_def)
  let ?h = "transport_header_new C s d g (Some True) (Some True) (Some True)"
  have h: "wf_transport_header ?h" "tag_owner C ?h = 1"
    by (simp_all add: crates_spec.new_wf [OF assms(1)] crates_spec.new_fields [OF assms(1)] unwrap_or_default_def)
  have "create_tag C buf = Some (header_tag C ?h)"
    using crates_spec.create_tag_ser [OF assms(1) h(1)] by (simp add: p)
  with buf(2) obtain rt i where rt: "a = Extended 0 1 i 0" "create_tag C rb = Some rt" "flow_matches (header_tag C ?h) rt"
    by (auto simp: answers_def split: option.splits socket_address.splits)
  from crates_spec.answer_headers [OF assms(1) h rt(2,3)] buf(1) p rt(1) h show ?thesis by blast
qed

theorem sendto_answers_request_witness:
  "(\<exists>w hr. sn_reachable std_crates demo_ops True w \<and>
      calls w = [Returned (Some demo_request) (Ok (Extended 0 1 1 0, drop 4 demo_datagram))] \<and>
      transport_header_try_from std_crates (drop 4 demo_datagram) = Ok hr \<and> tag_owner std_crates hr = 0) \<and>
   (\<exists>w h. sn_reachable std_crates demo_ops True w \<and>
      calls w = [Returned (Some (transport_header_ser std_crates h @ [0, 0x80, 2])) (Ok (Extended 0 1 1 0, []))] \<and>
      destination_eid h = 0)"
proof -
  from demo_run obtain w where w: "sn_reachable std_crates demo_ops True w"
    "calls w = [Returned (Some demo_request) (Ok (Extended 0 1 1 0, drop 4 demo_datagram))]" by blast
  have "4 \<le> length (drop 4 demo_datagram)" by (simp add: demo_datagram_def demo_response_def)
  with sendto_answers_request [OF std_crates_spec w(1), of 0] w(2)
  have "\<exists>hr. transport_header_try_from std_crates (drop 4 demo_datagram) = Ok hr \<and> tag_owner std_crates hr = 0" by auto
  moreover from runt_run obtain v where v: "sn_reachable std_crates demo_ops True v"
    "calls v = [Returned (Some runt_request) (Ok (Extended 0 1 1 0, []))]" by blast
  with sendto_answers_request [OF std_crates_spec v(1), of 0]
  obtain h p where "runt_request = transport_header_ser std_crates h @ p" "wf_transport_header h" "destination_eid h = 0"
    by auto
  moreover from this have "p = [0, 0x80, 2]"
    using std.th.enc_length [of h] std.th.enc_length [OF std.new_wf]
    by (auto simp: runt_request_def)
  ultimately show ?thesis using w v by metis
qed

text \<open>
  C9: at most one call waits for a response. While it waits it holds
  the lock of the network's binding, and no other call can transmit.
\<close>

theorem one_request_on_the_wire:
  assumes "crates_spec C" "sn_reachable C ops chk w"
    "k < length (calls w)" "calls w ! k = WaitResponse h buf ch"
  shows "lock_holder w h = Some k \<and> h = phys_bindings (net w) \<and>
    (\<forall>j. sn_exec C ops chk (Transmit j) w = None) \<and>
    (\<forall>j h' buf' ch'. j < length (calls w) \<and> calls w ! j = WaitResponse h' buf' ch' \<longrightarrow> j = k)"
proof -
  have inv: "lock_inv w" using crates_spec.reachable_inv [OF assms(1,2)] by simp
  have h: "lock_holder w h = Some k" "h = phys_bindings (net w)"
    using lock_inv_holder [OF inv assms(3,4)] lock_inv_binding [OF inv assms(3)] assms(4) by simp_all
  have "sn_exec C ops chk (Transmit j) w = None" for j
    using lock_inv_binding [OF inv, of j] h
    by (auto simp: sn_exec_def sn_transmit_def split: sendto_call.splits)
  moreover have "j = k" if "j < length (calls w)" "calls w ! j = WaitResponse h' buf' ch'" for j h' buf' ch'
    using lock_inv_holder [OF inv that] lock_inv_binding [OF inv that(1)] that(2) h by simp
  ultimately show ?thesis using h by blast
qed

theorem one_request_on_the_wire_witness:
  "\<exists>w. lock_holder w 0 = Some 0 \<and> sn_exec std_crates demo_ops True (Transmit 0) w = None"
proof -
  from demo_wait obtain w where w: "sn_reachable std_crates demo_ops True w"
    "calls w = [WaitResponse 0 demo_request 0]" by blast
  from one_request_on_the_wire [OF std_crates_spec w(1), of 0] w(2) show ?thesis by auto
qed

text \<open>
  C20: as long as no call has been cancelled and no \<open>transmit\<close> has failed,
  the callback handler runs and the flow table is not poisoned, whatever the binding delivers.
\<close>

theorem handler_survives:
  assumes "crates_spec C" "sn_reachable C ops chk w" "\<forall>c \<in> set (calls w). \<not> call_failed c"
  shows "handler_up w \<and> \<not> flows_poisoned (net w) \<and> (\<forall>ch. chans w ch \<noteq> ReceiverGone)"
  using crates_spec.reachable_blame [OF assms(1,2)] crates_spec.reachable_inv [OF assms(1,2)] assms(3)
  by (auto simp: blame_inv_def fault_inv_def)

theorem handler_survives_witness:
  "\<exists>w. sn_reachable std_crates demo_ops True w \<and> handler_up w \<and> calls w \<noteq> []"
proof -
  from demo_run obtain w where w: "sn_reachable std_crates demo_ops True w"
    "calls w = [Returned (Some demo_request) (Ok (Extended 0 1 1 0, drop 4 demo_datagram))]" by blast
  from handler_survives [OF std_crates_spec w(1)] w show ?thesis by auto
qed

text \<open>
  C13: in a reachable state, if the packet at the front of the queue
  answers the flow of a waiting call and no other flow, then one turn of the handler and one
  of the call make the call return exactly that packet; the binding is free again and the
  handler is alive.
\<close>

theorem answered_call_returns:
  assumes "crates_spec C" "sn_reachable C ops chk w"
    "k < length (calls w)" "calls w ! k = WaitResponse h buf ch" "chans w ch = Open"
    "handler_up w" "rx_queue w = BindingReceive i d # q" "4 \<le> length d"
    "create_tag C buf = Some t" "create_tag C (drop 4 d) = Some rt" "flow_matches t rt"
    "\<And>t' c. (t', c) \<in> set (flows (net w)) \<Longrightarrow> flow_matches t' rt \<Longrightarrow> c = ch"
  shows "\<exists>w'. sn_run C ops chk [Handle, Receive k] w = Some w' \<and>
    calls w' ! k = Returned (Some buf) (Ok (Extended 0 1 i 0, drop 4 d)) \<and>
    lock_holder w' h = None \<and> handler_up w' \<and> rx_queue w' = q"
proof -
  have inv: "table_inv w" "call_inv C w" "fault_inv w"
    using crates_spec.reachable_inv [OF assms(1,2)] by simp_all
  then have "\<not> flows_poisoned (net w)" using assms(6) by (simp add: fault_inv_def)
  from crates_spec.handle_then_receive [OF assms(1) inv(1,2) assms(3-6) this assms(7-11)] assms(12)
  show ?thesis by blast
qed

theorem answered_call_returns_witness:
  "\<exists>w w'. sn_run std_crates demo_ops True [Handle, Receive 0] w = Some w' \<and>
     calls w' ! 0 = Returned (Some demo_request) (Ok (Extended 0 1 1 0, drop 4 demo_datagram))"
proof -
  from demo_wait obtain w where w: "sn_reachable std_crates demo_ops True w"
    "calls w = [WaitResponse 0 demo_request 0]" "chans w 0 = Open" "handler_up w"
    "rx_queue w = [BindingReceive 1 demo_datagram]"
    "flows (net w) = [(header_tag std_crates demo_header, 0)]" by blast
  have "4 \<le> length demo_datagram" by (simp add: demo_datagram_def)
  from answered_call_returns [OF std_crates_spec w(1) _ _ w(3,4,5) this demo_tags(2,3,4), of 0 0] w(2,6)
  show ?thesis by auto
qed

text \<open>
  C36: when \<open>transmit\<close> fails, \<open>sendto\<close> panics and its flow stays
  in the table. The answer to a later request with the same tag to the same endpoint is then
  delivered to the dead call: the callback handler panics, the flow table is poisoned, and
  the later call waits on with the binding locked.
\<close>

theorem stale_flow_kills_handler:
  assumes "crates_spec C"
    "h = transport_header_new C a e g (Some True) (Some True) (Some True)"
    "op_transmit ops (bs b) (transport_header_ser C h @ p1) phy1 = (Err x, b1)"
    "op_transmit ops b1 (transport_header_ser C h @ p2) phy2 = (Ok (), b2)"
    "4 \<le> length d" "create_tag C (drop 4 d) = Some rt" "flow_matches (header_tag C h) rt"
  shows "\<exists>w. sn_run C ops chk
      [Socket, Bind 0 a mt g, Sendto 0 p1 (Extended e nw 1 phy1), Transmit 0,
       Sendto 0 p2 (Extended e nw 1 phy2), Transmit 1, Deliver 1 d, Handle] (sn_init bs b) = Some w \<and>
    \<not> handler_up w \<and> flows_poisoned (net w) \<and>
    calls w ! 1 = WaitResponse b (transport_header_ser C h @ p2) 1 \<and> chans w 1 = Open \<and>
    lock_holder w b = Some 1"
  using crates_spec.stale_flow_run [where bs = bs and b = b, OF assms] by blast

theorem stale_flow_kills_handler_witness:
  "\<exists>w. sn_reachable std_crates demo_ops True w \<and> \<not> handler_up w \<and> lock_holder w 0 = Some 1 \<and>
     calls w ! 1 = WaitResponse 0 demo_request 1 \<and> chans w 1 = Open"
proof -
  have "4 \<le> length demo_datagram" by (simp add: demo_datagram_def)
  from stale_flow_kills_handler [where bs = "\<lambda>_. demo_dev" and b = 0 and ?p1.0 = "[0, 0x80, 2]"
      and ?p2.0 = "[0, 0x80, 2]", OF std_crates_spec demo_header_def
        demo_transmit(2) [unfolded demo_request_def] demo_transmit(1) [unfolded demo_request_def]
        this demo_tags(3,4)]
  show ?thesis using sn_run_reachable [OF sn_reachable.start] unfolding demo_request_def by blast
qed

text \<open>
  C37: once the callback handler has died it stays dead, whatever happens next;
  a call that returns \<open>Ok\<close> later had returned already, or its answer was already in its
  channel.
\<close>

theorem dead_network:
  assumes "crates_spec C" "sn_reachable C ops chk w" "\<not> handler_up w"
    "sn_run C ops chk es w = Some w'"
  shows "\<not> handler_up w' \<and>
    (\<forall>k b x. k < length (calls w') \<and> calls w' ! k = Returned b (Ok x) \<longrightarrow>
       k < length (calls w) \<and> (calls w ! k = Returned b (Ok x) \<or>
         (\<exists>buf ch m. waiting w k buf ch \<and> chans w ch = Sent m)))"
proof -
  have "fault_inv w" using crates_spec.reachable_inv [OF assms(1,2)] by simp
  from crates_spec.dead_run [OF assms(1) this assms(3,4)] show ?thesis
    by (simp add: no_new_answers_def)
qed

theorem dead_network_witness:
  "\<exists>w w'. \<not> handler_up w \<and> sn_run std_crates demo_ops True [Deliver 1 demo_datagram, Cancel 1] w = Some w' \<and>
     \<not> handler_up w'"
proof -
  have "4 \<le> length demo_datagram" by (simp add: demo_datagram_def)
  from std.stale_flow_run [where bs = "\<lambda>_. demo_dev" and b = 0 and ?p1.0 = "[0, 0x80, 2]"
      and ?p2.0 = "[0, 0x80, 2]", OF demo_header_def
        demo_transmit(2) [unfolded demo_request_def] demo_transmit(1) [unfolded demo_request_def]
        this demo_tags(3,4)]
  obtain w where w: "sn_reachable std_crates demo_ops True w" "\<not> handler_up w" "rx_queue w = []"
      "calls w ! 1 = WaitResponse 0 demo_request 1" "length (calls w) = 2"
    using sn_run_reachable [OF sn_reachable.start] unfolding demo_request_def by blast
  have "demo_datagram \<noteq> []" by (simp add: demo_datagram_def)
  with w have "\<exists>w'. sn_run std_crates demo_ops True [Deliver 1 demo_datagram, Cancel 1] w = Some w'"
    by (simp add: sn_exec_def sn_cancel_def)
  then obtain w' where "sn_run std_crates demo_ops True [Deliver 1 demo_datagram, Cancel 1] w = Some w'" ..
  with dead_network [OF std_crates_spec w(1,2) this] w(2) show ?thesis by blast
qed

end
