(* ===== verification/SimpleWire.thy ===== *)
theory SimpleWire
  imports SimpleProps
begin

text \<open>
  A \<open>SimpleNetwork\<close> on top of any physical binding that keeps the contract of
  \<open>NetworkBinding\<close>: what is waited for was sent. The locale joins the two contracts; the
  SMBus binding of \<open>src/phys/smbus_netdev.rs\<close> instantiates it.
\<close>

text \<open>The packet of a call that waits for its response or has returned one.\<close>

fun was_sent :: "sendto_call \<Rightarrow> bytes option" where
  "was_sent (WaitResponse h buf ch) = Some buf"
| "was_sent (Returned b (Ok x)) = b"
| "was_sent _ = None"

locale network_over_binding = crates_spec C + network_binding ops wire carries
  for C :: crates and ops :: "'b binding_ops" and wire :: "'b \<Rightarrow> bytes list"
    and carries :: "bytes \<Rightarrow> u64 \<Rightarrow> bytes \<Rightarrow> bool"
begin

text \<open>No event takes anything off the wire.\<close>

lemma wire_grows:
  assumes "sn_exec C ops chk e w = Some w'"
  shows "\<exists>fs. wire (binding_of w' h) = wire (binding_of w h) @ fs"
proof (cases e)
  case (AddBinding g)
  obtain r b where b: "op_bind ops (binding_of w g) 1 = (r, b)" by (cases "op_bind ops (binding_of w g) 1")
  then have "binding_of w' = (binding_of w)(g := b)"
    using assms AddBinding
    by (auto simp: sn_exec_def sn_add_physical_binding_def split: if_splits prod.splits res.splits)
  then show ?thesis using bind_wire [OF b] by simp
next
  case (Transmit k)
  with assms obtain g buf a ch where c: "calls w ! k = WaitLock g buf a ch" "lock_holder w g = None"
    and t: "sn_transmit ops k w = Some w'"
    by (auto simp: sn_exec_def sn_transmit_def split: sendto_call.splits if_splits)
  obtain r b where b: "op_transmit ops (binding_of w g) buf a = (r, b)"
    by (cases "op_transmit ops (binding_of w g) buf a")
  have "binding_of w' = (binding_of w)(g := b)"
    using t c b by (cases r) (auto simp: sn_transmit_def)
  then show ?thesis using transmit_prefix [OF b] by simp
qed (use assms in \<open>auto simp: sn_exec_def sn_receive_def sn_cancel_def sn_handle_def sn_handler_dies_def Let_def
    split: if_splits sendto_call.splits option.splits prod.splits list.splits res.splits\<close>)

definition wire_inv :: "'b sn_world \<Rightarrow> bool" where
  "wire_inv w \<longleftrightarrow>
     (\<forall>k buf. k < length (calls w) \<and> was_sent (calls w ! k) = Some buf \<longrightarrow>
        (\<exists>a. \<exists>f \<in> set (wire (binding_of w (phys_bindings (net w)))). carries buf a f))"

lemma wire_inv_mono:
  assumes "wire_inv w" "sn_exec C ops chk e w = Some w'" "phys_bindings (net w') = phys_bindings (net w)"
    and "\<And>k buf. k < length (calls w') \<Longrightarrow> was_sent (calls w' ! k) = Some buf \<Longrightarrow>
      k < length (calls w) \<and> was_sent (calls w ! k) = Some buf"
  shows "wire_inv w'"
proof -
  obtain fs where "wire (binding_of w' (phys_bindings (net w'))) =
      wire (binding_of w (phys_bindings (net w))) @ fs"
    using wire_grows [OF assms(2)] assms(3) by metis
  with assms(1,4) show ?thesis unfolding wire_inv_def by (metis UnCI set_append)
qed

lemma was_sent_update:
  "k < length cs \<Longrightarrow> was_sent c = None \<or> was_sent c = was_sent (cs ! k) \<Longrightarrow>
     j < length (cs[k := c]) \<Longrightarrow> was_sent (cs[k := c] ! j) = Some buf \<Longrightarrow>
     j < length cs \<and> was_sent (cs ! j) = Some buf"
  by (cases "j = k") auto

lemma wire_inv_sent:
  assumes inv: "wire_inv w" "h = phys_bindings (net w)" and tx: "op_transmit ops (binding_of w h) buf a = (Ok (), b')"
    and w': "binding_of w' = (binding_of w)(h := b')" "calls w' = (calls w)[k := WaitResponse h buf ch]" "net w' = net w"
  shows "wire_inv w'"
proof -
  obtain f fs where f: "wire b' = wire (binding_of w h) @ fs" "f \<in> set fs" "carries buf a f"
    using transmit_ok [OF tx] by blast
  have "\<exists>a. \<exists>f \<in> set (wire (binding_of w' (phys_bindings (net w')))). carries buf' a f"
    if j: "j < length (calls w')" "was_sent (calls w' ! j) = Some buf'" for j buf'
  proof (cases "j = k")
    case True
    then show ?thesis using j w' f inv(2) by auto
  next
    case False
    with j w' have "\<exists>a. \<exists>f \<in> set (wire (binding_of w (phys_bindings (net w)))). carries buf' a f"
      using inv(1) by (simp add: wire_inv_def)
    then show ?thesis using w' f inv(2) by auto
  qed
  then show ?thesis unfolding wire_inv_def by blast
qed

lemma wire_inv_step:
  assumes inv: "wire_inv w" "lock_inv w" and ex: "sn_exec C ops chk e w = Some w'"
  shows "wire_inv w'"
  using ex
proof (cases rule: sn_exec_cases)
  case quiet
  then show ?thesis by (intro wire_inv_mono [OF inv(1) ex]) simp_all
next
  case (failed r)
  then have "was_sent (Returned None r) = None" by (cases r) simp_all
  with failed show ?thesis
    by (intro wire_inv_mono [OF inv(1) ex]) (auto simp: nth_append less_Suc_eq split: if_splits)
next
  case (pushed h buf a t)
  then show ?thesis
    by (intro wire_inv_mono [OF inv(1) ex]) (auto simp: nth_append less_Suc_eq split: if_splits)
next
  case (sent k h buf a ch b')
  have "h = phys_bindings (net w)" using lock_inv_binding [OF inv(2) sent(2)] sent(3) by simp
  then show ?thesis using wire_inv_sent [OF inv(1) _ sent(5), of w' k ch] sent(6) by simp
next
  case (unsent k h buf a ch b' r m)
  then show ?thesis
    by (intro wire_inv_mono [OF inv(1) ex] was_sent_update [of k]) simp_all
next
  case (received k h buf ch r)
  then have "was_sent (Returned (Some buf) r) = None \<or> was_sent (Returned (Some buf) r) = Some buf"
    by (cases r) simp_all
  with received show ?thesis
    by (intro wire_inv_mono [OF inv(1) ex] was_sent_update [of k]) simp_all
next
  case (cancelled k buf ch)
  then show ?thesis
    by (intro wire_inv_mono [OF inv(1) ex] was_sent_update [of k]) simp_all
next
  case (answer i d q rt t ch rest)
  then show ?thesis by (intro wire_inv_mono [OF inv(1) ex]) simp_all
next
  case (unheard i d q rt t ch rest)
  then show ?thesis by (intro wire_inv_mono [OF inv(1) ex]) (simp_all add: sn_handler_dies_def)
next
  case dead
  then show ?thesis by (intro wire_inv_mono [OF inv(1) ex]) (simp_all add: sn_handler_dies_def)
qed

lemma reachable_wire: "sn_reachable C ops chk w \<Longrightarrow> wire_inv w"
proof (induction rule: sn_reachable.induct)
  case (start bs b)
  show ?case by (simp add: wire_inv_def sn_init_def)
next
  case (step w e w')
  then show ?case using wire_inv_step [OF _ _ step.hyps(2)] reachable_inv [OF step.hyps(1)] by blast
qed

lemma sent_on_wire:
  assumes "sn_reachable C ops chk w" "k < length (calls w)" "was_sent (calls w ! k) = Some buf"
  shows "\<exists>a. \<exists>f \<in> set (wire (binding_of w (phys_bindings (net w)))). carries buf a f"
  using reachable_wire [OF assms(1)] assms(2,3) unfolding wire_inv_def by blast

end

sublocale crates_spec \<subseteq> smbus_net: network_over_binding C "smbus_ops C env" smbus_wire smbus_carries for env
  by (intro network_over_binding.intro crates_spec_axioms smbus_network_binding)

context crates_spec
begin

lemma smbus_sent_on_wire:
  "sn_reachable C (smbus_ops C env) chk w \<Longrightarrow> k < length (calls w) \<Longrightarrow> was_sent (calls w ! k) = Some buf \<Longrightarrow>
    \<exists>a. \<exists>f \<in> set (smbus_wire (binding_of w (phys_bindings (net w)))). smbus_carries buf a f"
  by (rule smbus_net.sent_on_wire)

end

section \<open>Properties\<close>

text \<open>
  C11: over the SMBus binding, a call waits for a response, or has
  returned one, only after its packet went onto the wire: some datagram which the socket took in
  full, and did not refuse, consists of four header bytes, the packet, and one more byte.
\<close>

theorem answered_request_on_wire:
  assumes "crates_spec C" "sn_reachable C (smbus_ops C env) chk w" "k < length (calls w)"
    "was_sent (calls w ! k) = Some buf"
  shows "\<exists>f \<in> set (smbus_wire (binding_of w (phys_bindings (net w)))).
    length f = length buf + 5 \<and> take (length buf) (drop 4 f) = buf"
  using crates_spec.smbus_sent_on_wire [OF assms] by (auto simp: smbus_carries_def)

theorem answered_request_on_wire_witness:
  "\<exists>w :: smbus_net_dev_binding sn_world. \<exists>f \<in> set (smbus_wire (binding_of w (phys_bindings (net w)))).
     take (length demo_request) (drop 4 f) = demo_request"
proof -
  from demo_run obtain w where w: "sn_reachable std_crates demo_ops True w"
    "calls w = [Returned (Some demo_request) (Ok (Extended 0 1 1 0, drop 4 demo_datagram))]" by blast
  from answered_request_on_wire [OF std_crates_spec w(1), of 0 demo_request] w(2)
  show ?thesis by (intro exI [of _ w]) auto
qed

end
