(* ===== verification/Service.thy ===== *)
theory Service
  imports SimpleWire
begin

text \<open>
  The abstract specification of \<open>sendto\<close>: a service to which requests are put and which
  answers each at most once, with a packet whose flow tag answers it, or fails it. The runs of a
  \<open>SimpleNetwork\<close> refine it event by event: every event is one step of the service or
  changes nothing the service shows.
\<close>

section \<open>The service\<close>

datatype service_call = Asking bytes | Answered bytes socket_address bytes | Failed

inductive service_step :: "crates \<Rightarrow> service_call list \<Rightarrow> service_call list \<Rightarrow> bool" for C where
  ask: "request_packet C buf \<Longrightarrow> service_step C cs (cs @ [Asking buf])"
| refuse: "service_step C cs (cs @ [Failed])"
| answer: "k < length cs \<Longrightarrow> cs ! k = Asking buf \<Longrightarrow> answers C buf (ClientReceive a rb) \<Longrightarrow>
     service_step C cs (cs[k := Answered buf a rb])"
| give_up: "k < length cs \<Longrightarrow> cs ! k = Asking buf \<Longrightarrow> service_step C cs (cs[k := Failed])"

inductive_cases service_stepE: "service_step C cs cs'"

text \<open>Once a request is answered or failed, the service never changes its mind.\<close>

lemma service_step_final:
  assumes "service_step C cs cs'" "k < length cs" "\<And>buf. cs ! k \<noteq> Asking buf"
  shows "k < length cs' \<and> cs' ! k = cs ! k"
  using assms(1)
proof cases
  case (answer j buf a rb)
  with assms(2,3) have "j \<noteq> k" by auto
  with answer assms(2) show ?thesis by simp
next
  case (give_up j buf)
  with assms(2,3) have "j \<noteq> k" by auto
  with give_up assms(2) show ?thesis by simp
qed (use assms(2) in \<open>simp_all add: nth_append\<close>)

lemma service_steps_final:
  assumes "(service_step C)\<^sup>*\<^sup>* cs cs'" "k < length cs" "\<And>buf. cs ! k \<noteq> Asking buf"
  shows "k < length cs' \<and> cs' ! k = cs ! k"
  using assms(1)
proof (induction rule: rtranclp_induct)
  case base
  show ?case using assms(2) by simp
next
  case (step ds es)
  then show ?case using service_step_final [OF step(2), of k] assms(3) by simp
qed

section \<open>The network refines the service\<close>

fun service_view :: "sendto_call \<Rightarrow> service_call" where
  "service_view (WaitLock h buf a ch) = Asking buf"
| "service_view (WaitResponse h buf ch) = Asking buf"
| "service_view (Returned (Some buf) (Ok (a, rb))) = Answered buf a rb"
| "service_view _ = Failed"

definition abs_service :: "'b sn_world \<Rightarrow> service_call list" where
  "abs_service w = map service_view (calls w)"

lemma service_view_fail: "\<not> is_ok r \<Longrightarrow> service_view (Returned b r) = Failed"
  by (cases r; cases b) simp_all

lemma service_view_wait: "call_wait c = Some (buf, ch) \<Longrightarrow> service_view c = Asking buf"
  by (cases c) auto

context crates_spec
begin

lemma abs_give_up:
  assumes "calls w' = (calls w)[k := c]" "service_view c = Failed" "waiting w k buf ch"
  shows "service_step C (abs_service w) (abs_service w')"
proof -
  have k: "k < length (abs_service w)" "abs_service w ! k = Asking buf"
    using assms(3) service_view_wait by (auto simp: abs_service_def waiting_def)
  have "abs_service w' = (abs_service w)[k := Failed]"
    using assms(1,2) by (simp add: abs_service_def map_update)
  with service_step.give_up [OF k] show ?thesis by simp
qed

lemma network_refines_service:
  assumes inv: "call_inv C w" and ex: "sn_exec C ops chk e w = Some w'"
  shows "abs_service w' = abs_service w \<or> service_step C (abs_service w) (abs_service w')"
  using ex
proof (cases rule: sn_exec_cases)
  case (failed r)
  then have "abs_service w' = abs_service w @ [Failed]"
    by (simp add: abs_service_def service_view_fail)
  then show ?thesis using service_step.refuse by simp
next
  case (pushed h buf a t)
  then have "abs_service w' = abs_service w @ [Asking buf]" by (simp add: abs_service_def)
  then show ?thesis using service_step.ask pushed by simp
next
  case (sent k h buf a ch b')
  then have "abs_service w' = (abs_service w)[k := Asking buf]" "abs_service w ! k = Asking buf"
    by (simp_all add: abs_service_def map_update)
  then show ?thesis by (metis list_update_id)
next
  case (unsent k h buf a ch b' r m)
  then have "waiting w k buf ch" by (simp add: waiting_def)
  then show ?thesis using abs_give_up [of w' w k "Returned (Some buf) (Panic m)"] unsent by simp
next
  case (received k h buf ch r)
  then have wt: "waiting w k buf ch" by (simp add: waiting_def)
  show ?thesis
  proof (cases "is_ok r")
    case True
    then obtain a rb where r: "r = Ok (a, rb)" by (auto simp: is_ok_iff)
    have "answers C buf (ClientReceive a rb)"
      using call_inv_ok [OF inv wt] received(3) by (simp add: r sendto_finish_Ok call_ok_def)
    moreover have "k < length (abs_service w)" "abs_service w ! k = Asking buf"
      using received by (simp_all add: abs_service_def)
    moreover have "abs_service w' = (abs_service w)[k := Answered buf a rb]"
      using received r by (simp add: abs_service_def map_update)
    ultimately show ?thesis using service_step.answer by metis
  next
    case False
    then show ?thesis
      using abs_give_up [OF _ service_view_fail wt, of w' "Some buf" r] received by simp
  qed
next
  case (cancelled k buf ch)
  then have "waiting w k buf ch" by (simp add: waiting_def)
  then show ?thesis using abs_give_up [of w' w k Cancelled] cancelled by simp
qed (simp_all add: abs_service_def sn_handler_dies_def)

lemma run_refines_service:
  "sn_reachable C ops chk w \<Longrightarrow> sn_run C ops chk es w = Some w' \<Longrightarrow>
     (service_step C)\<^sup>*\<^sup>* (abs_service w) (abs_service w')"
proof (induction es arbitrary: w)
  case Nil
  then show ?case by simp
next
  case (Cons e es)
  then obtain v where v: "sn_exec C ops chk e w = Some v" "sn_run C ops chk es v = Some w'"
    by (auto split: option.splits)
  have "call_inv C w" using reachable_inv [OF Cons.prems(1)] by simp
  then have "(service_step C)\<^sup>*\<^sup>* (abs_service w) (abs_service v)"
    using network_refines_service [OF _ v(1)] by auto
  moreover have "(service_step C)\<^sup>*\<^sup>* (abs_service v) (abs_service w')"
    using Cons.IH [OF sn_reachable.step [OF Cons.prems(1) v(1)] v(2)] .
  ultimately show ?case by (rule rtranclp_trans)
qed

end

text \<open>A call whose answer is in its channel.\<close>

lemma demo_answered:
  "\<exists>w w'. sn_reachable std_crates demo_ops True w \<and> sn_exec std_crates demo_ops True (Receive 0) w = Some w' \<and>
     calls w = [WaitResponse 0 demo_request 0] \<and>
     calls w' = [Returned (Some demo_request) (Ok (Extended 0 1 1 0, drop 4 demo_datagram))]"
proof -
  from demo_wait obtain w where w: "sn_reachable std_crates demo_ops True w" "handler_up w"
    "calls w = [WaitResponse 0 demo_request 0]" "chans w 0 = Open" "rx_queue w = [BindingReceive 1 demo_datagram]"
    "flows (net w) = [(header_tag std_crates demo_header, 0)]" by blast
  have np: "\<not> flows_poisoned (net w)" using std.reachable_inv [OF w(1)] w(2) by (simp add: fault_inv_def)
  have len: "4 \<le> length demo_datagram" by (simp add: demo_datagram_def)
  let ?rt = "header_tag std_crates (create_response std_crates demo_header)"
  have "flow_take ?rt (flows (net w)) = Some ((header_tag std_crates demo_header, 0), [])"
    using flow_take_hd [OF demo_tags(4)] by (simp add: w(6))
  from std.sn_callback_answer [OF len np demo_tags(3) this, of 1]
  obtain v where v: "sn_exec std_crates demo_ops True Handle w = Some v" "calls v = calls w"
    "chans v 0 = Sent (ClientReceive (Extended 0 1 1 0) (drop 4 demo_datagram))"
    using w by (simp add: sn_exec_def sn_handle_def chan_send_def)
  from v w(3) have "\<exists>w'. sn_exec std_crates demo_ops True (Receive 0) v = Some w' \<and>
      calls w' = [Returned (Some demo_request) (Ok (Extended 0 1 1 0, drop 4 demo_datagram))]"
    by (simp add: sn_exec_def sn_receive_def sendto_finish_def)
  then show ?thesis using sn_reachable.step [OF w(1) v(1)] v(2) w(3) by metis
qed

section \<open>The handler empties its queue\<close>

context crates_spec
begin

lemma handle_turn:
  assumes "table_inv w" "handler_up w" "\<not> flows_poisoned (net w)" "\<And>ch. chans w ch \<noteq> ReceiverGone"
    "rx_queue w = m # q"
  shows "\<exists>w'. sn_exec C ops chk Handle w = Some w' \<and> rx_queue w' = q \<and> calls w' = calls w"
proof -
  obtain i d where m: "m = BindingReceive i d" by (cases m)
  show ?thesis
  proof (cases rule: sn_callback_cases [of "net w" i d])
    case ignored
    then show ?thesis using assms m by (simp add: sn_exec_def sn_handle_def)
  next
    case poisoned
    then show ?thesis using assms by simp
  next
    case (answered rt t ch rest)
    have "chans w ch = Open"
      using flows.take_member [OF answered(4)] assms(1,4) by (auto simp: table_inv_def)
    then show ?thesis using answered assms m by (simp add: sn_exec_def sn_handle_def chan_send_def)
  qed
qed

lemma queue_drains:
  assumes "sn_reachable C ops chk w" "\<And>c. c \<in> set (calls w) \<Longrightarrow> \<not> call_failed c" "rx_queue w = q"
  shows "\<exists>w'. sn_run C ops chk (replicate (length q) Handle) w = Some w' \<and> rx_queue w' = [] \<and>
    handler_up w' \<and> calls w' = calls w"
  using assms
proof (induction q arbitrary: w)
  case Nil
  then have "handler_up w"
    using reachable_blame [OF Nil(1)] reachable_inv [OF Nil(1)] by (auto simp: blame_inv_def fault_inv_def)
  with Nil show ?case by simp
next
  case (Cons m q)
  have inv: "table_inv w" "fault_inv w" "blame_inv w"
    using reachable_inv [OF Cons.prems(1)] reachable_blame [OF Cons.prems(1)] by simp_all
  then have "handler_up w" "\<not> flows_poisoned (net w)" "\<And>ch. chans w ch \<noteq> ReceiverGone"
    using Cons.prems(2) by (auto simp: blame_inv_def fault_inv_def)
  from handle_turn [OF inv(1) this Cons.prems(3)] obtain v
    where v: "sn_exec C ops chk Handle w = Some v" "rx_queue v = q" "calls v = calls w" by blast
  from Cons.IH [OF sn_reachable.step [OF Cons.prems(1) v(1)] _ v(2)] v Cons.prems(2)
  show ?case by auto
qed

lemma reachable_queue_bound: "sn_reachable C ops chk w \<Longrightarrow> length (rx_queue w) \<le> 32"
proof (induction rule: sn_reachable.induct)
  case (start bs b)
  show ?case by (simp add: sn_init_def)
next
  case (step w e w')
  then show ?case
    by (cases e)
      (auto simp: sn_exec_def sn_transmit_def sn_receive_def sn_cancel_def sn_handle_def sn_handler_dies_def Let_def
        split: if_splits sendto_call.splits option.splits prod.splits list.splits res.splits)
qed

end

section \<open>Properties\<close>

text \<open>
  C2: every event of a \<open>SimpleNetwork\<close> in a reachable state is one step
  of the service, seen through \<open>abs_service\<close>, or leaves what the service shows alone: a request
  is asked, or refused; or a request asked before is answered, with a packet whose flow tag
  answers it, or failed. So every run is a run of the service, and a call that is answered or
  failed stays so whatever happens next.
\<close>

theorem sendto_service:
  assumes "crates_spec C" "sn_reachable C ops chk w" "sn_exec C ops chk e w = Some w'"
  shows "(abs_service w' = abs_service w \<or> service_step C (abs_service w) (abs_service w')) \<and>
    (\<forall>es v. sn_run C ops chk es w' = Some v \<longrightarrow>
       (service_step C)\<^sup>*\<^sup>* (abs_service w') (abs_service v) \<and>
       (\<forall>k < length (calls w'). (\<forall>buf. service_view (calls w' ! k) \<noteq> Asking buf) \<longrightarrow>
          k < length (calls v) \<and> service_view (calls v ! k) = service_view (calls w' ! k)))"
proof -
  have "call_inv C w" using crates_spec.reachable_inv [OF assms(1,2)] by simp
  then have "abs_service w' = abs_service w \<or> service_step C (abs_service w) (abs_service w')"
    by (rule crates_spec.network_refines_service [OF assms(1) _ assms(3)])
  moreover {
    fix es v
    assume run: "sn_run C ops chk es w' = Some v"
    have steps: "(service_step C)\<^sup>*\<^sup>* (abs_service w') (abs_service v)"
      by (rule crates_spec.run_refines_service [OF assms(1) sn_reachable.step [OF assms(2,3)] run])
    have "k < length (calls v) \<and> service_view (calls v ! k) = service_view (calls w' ! k)"
      if "k < length (calls w')" "\<forall>buf. service_view (calls w' ! k) \<noteq> Asking buf" for k
      using service_steps_final [OF steps, of k] that by (auto simp: abs_service_def)
    with steps have "(service_step C)\<^sup>*\<^sup>* (abs_service w') (abs_service v) \<and>
       (\<forall>k < length (calls w'). (\<forall>buf. service_view (calls w' ! k) \<noteq> Asking buf) \<longrightarrow>
          k < length (calls v) \<and> service_view (calls v ! k) = service_view (calls w' ! k))" by blast
  }
  ultimately show ?thesis by blast
qed

theorem sendto_service_witness:
  "\<exists>w w'. sn_reachable std_crates demo_ops True w \<and> sn_exec std_crates demo_ops True (Receive 0) w = Some w' \<and>
     abs_service w = [Asking demo_request] \<and>
     abs_service w' = [Answered demo_request (Extended 0 1 1 0) (drop 4 demo_datagram)] \<and>
     service_step std_crates (abs_service w) (abs_service w')"
proof -
  from demo_answered obtain w w' where w: "sn_reachable std_crates demo_ops True w"
    "sn_exec std_crates demo_ops True (Receive 0) w = Some w'" "calls w = [WaitResponse 0 demo_request 0]"
    "calls w' = [Returned (Some demo_request) (Ok (Extended 0 1 1 0, drop 4 demo_datagram))]" by blast
  then have views: "abs_service w = [Asking demo_request]"
    "abs_service w' = [Answered demo_request (Extended 0 1 1 0) (drop 4 demo_datagram)]"
    by (simp_all add: abs_service_def)
  with sendto_service [OF std_crates_spec w(1,2)]
  have "service_step std_crates (abs_service w) (abs_service w')" by simp
  with w views show ?thesis by blast
qed

text \<open>
  C19: when no call has been cancelled and no \<open>transmit\<close> has failed, the
  callback handler works off its queue, which never holds more than 32 messages, in one turn a
  message, and is alive afterwards.
\<close>

theorem handler_drains_queue:
  assumes "crates_spec C" "sn_reachable C ops chk w" "\<forall>c \<in> set (calls w). \<not> call_failed c"
  shows "length (rx_queue w) \<le> 32 \<and>
    (\<exists>w'. sn_run C ops chk (replicate (length (rx_queue w)) Handle) w = Some w' \<and> rx_queue w' = [] \<and>
       handler_up w' \<and> calls w' = calls w)"
  using crates_spec.reachable_queue_bound [OF assms(1,2)]
    crates_spec.queue_drains [OF assms(1,2) _ refl] assms(3) by simp

theorem handler_drains_queue_witness:
  "\<exists>w w'. rx_queue w = [BindingReceive 1 demo_datagram] \<and>
     sn_run std_crates demo_ops True [Handle] w = Some w' \<and> rx_queue w' = []"
proof -
  from demo_wait obtain w where w: "sn_reachable std_crates demo_ops True w"
    "calls w = [WaitResponse 0 demo_request 0]" "rx_queue w = [BindingReceive 1 demo_datagram]" by blast
  from handler_drains_queue [OF std_crates_spec w(1)] w show ?thesis by auto
qed

end
