(* ===== verification/Control.thy ===== *)
theory Control
  imports Enums Transport
begin

text \<open>
  The control message layer of \<open>mctp-base-lib\<close>: \<open>ControlMsgHeader\<close>, \<open>EmptyRequest\<close> and
  \<open>EmptyResponse\<close> of \<open>control/models.rs\<close>, and \<open>ControlPayload\<close> of \<open>control.rs\<close>, a
  transport header with the control message behind it.
\<close>

section \<open>The control message header\<close>

record control_msg_header =
  msg_type_integrity_check_instance_id_rsvd_d_bit_rq :: bytes
  hdr_command_code :: command_code

definition wf_control_msg_header :: "control_msg_header \<Rightarrow> bool" where
  "wf_control_msg_header h \<longleftrightarrow> length (msg_type_integrity_check_instance_id_rsvd_d_bit_rq h) = 2"

definition ctrl_get :: "crates \<Rightarrow> nat \<Rightarrow> nat \<Rightarrow> control_msg_header \<Rightarrow> u8" where
  "ctrl_get C lo hi h = bits_get C lo hi (msg_type_integrity_check_instance_id_rsvd_d_bit_rq h)"

definition ctrl_set :: "crates \<Rightarrow> nat \<Rightarrow> nat \<Rightarrow> u8 \<Rightarrow> control_msg_header \<Rightarrow> control_msg_header" where
  "ctrl_set C lo hi v h =
     h\<lparr>msg_type_integrity_check_instance_id_rsvd_d_bit_rq :=
         bits_set C lo hi v (msg_type_integrity_check_instance_id_rsvd_d_bit_rq h)\<rparr>"

definition msg_type :: "crates \<Rightarrow> control_msg_header \<Rightarrow> u8" where
  "msg_type C = ctrl_get C 0 6"

definition integrity_check :: "crates \<Rightarrow> control_msg_header \<Rightarrow> u8" where
  "integrity_check C = ctrl_get C 7 7"

definition instance_id :: "crates \<Rightarrow> control_msg_header \<Rightarrow> u8" where
  "instance_id C = ctrl_get C 8 12"

definition ctrl_rsvd :: "crates \<Rightarrow> control_msg_header \<Rightarrow> u8" where
  "ctrl_rsvd C = ctrl_get C 13 13"

definition d_bit :: "crates \<Rightarrow> control_msg_header \<Rightarrow> u8" where
  "d_bit C = ctrl_get C 14 14"

definition rq :: "crates \<Rightarrow> control_msg_header \<Rightarrow> u8" where
  "rq C = ctrl_get C 15 15"

definition set_integrity_check :: "crates \<Rightarrow> u8 \<Rightarrow> control_msg_header \<Rightarrow> control_msg_header" where
  "set_integrity_check C = ctrl_set C 7 7"

definition set_instance_id :: "crates \<Rightarrow> u8 \<Rightarrow> control_msg_header \<Rightarrow> control_msg_header" where
  "set_instance_id C = ctrl_set C 8 12"

definition set_d_bit :: "crates \<Rightarrow> u8 \<Rightarrow> control_msg_header \<Rightarrow> control_msg_header" where
  "set_d_bit C = ctrl_set C 14 14"

definition set_rq :: "crates \<Rightarrow> u8 \<Rightarrow> control_msg_header \<Rightarrow> control_msg_header" where
  "set_rq C = ctrl_set C 15 15"

text \<open>The derived \<open>Default\<close>: zero bytes and the default command.\<close>

definition control_msg_header_default :: control_msg_header where
  "control_msg_header_default =
     \<lparr>msg_type_integrity_check_instance_id_rsvd_d_bit_rq = [0, 0],
      hdr_command_code = command_code_default\<rparr>"

definition control_msg_header_new ::
  "crates \<Rightarrow> command_code \<Rightarrow> u8 \<Rightarrow> bool \<Rightarrow> bool \<Rightarrow> bool \<Rightarrow> control_msg_header" where
  "control_msg_header_new C cmd_code inst integ_check request datagram =
     (let h = control_msg_header_default;
          h = set_rq C (of_bool request) h;
          h = set_instance_id C inst h;
          h = set_integrity_check C (of_bool integ_check) h;
          h = set_d_bit C (of_bool datagram) h;
          h = h\<lparr>hdr_command_code := cmd_code\<rparr>
      in h)"

text \<open>\<open>From<TransportHeader> for ControlMsgHeader\<close>.\<close>

definition control_msg_header_from :: "crates \<Rightarrow> transport_header \<Rightarrow> control_msg_header" where
  "control_msg_header_from C h =
     (let is_req = tag_owner C h \<noteq> 0; is_datagram = destination_eid h = 0xff
      in control_msg_header_new C command_code_default 0 True is_req is_datagram)"

definition control_msg_header_ser :: "crates \<Rightarrow> control_msg_header \<Rightarrow> bytes" where
  "control_msg_header_ser C h =
     put_array C (msg_type_integrity_check_instance_id_rsvd_d_bit_rq h) @
     serialize_u8_enum C command_code_to_u8 (hdr_command_code h)"

definition control_msg_header_de :: "crates \<Rightarrow> bytes \<Rightarrow> (control_msg_header \<times> bytes) option" where
  "control_msg_header_de C bs = do {
     (a, r) \<leftarrow> get_array C 2 bs;
     (c, r) \<leftarrow> deserialize_u8_enum C (command_code_from_u8 C) r;
     Some (\<lparr>msg_type_integrity_check_instance_id_rsvd_d_bit_rq = a, hdr_command_code = c\<rparr>, r)
   }"

definition control_msg_header_size :: nat where
  "control_msg_header_size = 3"

definition control_msg_header_try_from ::
  "crates \<Rightarrow> bytes \<Rightarrow> (mctp_base_lib_error, control_msg_header) res" where
  "control_msg_header_try_from C =
     from_binary_try_from C control_msg_header_size (control_msg_header_de C)"

context crates_spec
begin

lemma control_de_cons [codec_simps]:
  "control_msg_header_de C (a # b # c # r) =
     Some (\<lparr>msg_type_integrity_check_instance_id_rsvd_d_bit_rq = [a, b],
            hdr_command_code = command_code_from_u8 C c\<rparr>, r)"
  by (simp add: control_msg_header_de_def codec_simps)

lemma control_ser [codec_simps]:
  "control_msg_header_ser C h =
     msg_type_integrity_check_instance_id_rsvd_d_bit_rq h @ [command_code_to_u8 (hdr_command_code h)]"
  by (simp add: control_msg_header_ser_def codec_simps)

end

lemma length_3_conv: "length bs = 3 \<longleftrightarrow> (\<exists>a b c. bs = [a, b, c])"
  by (auto simp: numeral_eq_Suc length_Suc_conv)

lemma wf_control_conv:
  "wf_control_msg_header h \<longleftrightarrow>
    (\<exists>a b. msg_type_integrity_check_instance_id_rsvd_d_bit_rq h = [a, b])"
  by (simp add: wf_control_msg_header_def length_2_conv)

sublocale crates_spec \<subseteq> ctrl: codec "control_msg_header_ser C" "control_msg_header_de C"
  control_msg_header_size wf_control_msg_header
proof (unfold_locales, goal_cases)
  case (1 x)
  then show ?case
    by (auto simp: codec_simps wf_control_conv control_msg_header_size_def)
next
  case (2 x r)
  then show ?case
    by (auto simp: codec_simps wf_control_conv command_code_enum.from_to)
next
  case (3 bs)
  then show ?case
    by (auto simp: control_msg_header_size_def length_3_conv codec_simps wf_control_conv)
qed

section \<open>What the fields of a control header are\<close>

lemma control_cover: "field_cover 16 [(0, 6), (7, 7), (8, 12), (13, 13), (14, 14), (15, 15)]"
  by code_simp

context crates_spec
begin

lemmas ctrl_access =
  msg_type_def integrity_check_def instance_id_def ctrl_rsvd_def d_bit_def rq_def
  set_integrity_check_def set_instance_id_def set_d_bit_def set_rq_def ctrl_get_def ctrl_set_def

lemma control_new_wf [header_simps]:
  "wf_control_msg_header (control_msg_header_new C cmd i ic rqst dg)"
  by (simp add: control_msg_header_new_def control_msg_header_default_def ctrl_access
      wf_control_msg_header_def set_length)

lemma control_new_fields [header_simps]:
  "hdr_command_code (control_msg_header_new C cmd i ic rqst dg) = cmd"
  "msg_type C (control_msg_header_new C cmd i ic rqst dg) = 0"
  "integrity_check C (control_msg_header_new C cmd i ic rqst dg) = of_bool ic"
  "instance_id C (control_msg_header_new C cmd i ic rqst dg) = take_bit 5 i"
  "ctrl_rsvd C (control_msg_header_new C cmd i ic rqst dg) = 0"
  "d_bit C (control_msg_header_new C cmd i ic rqst dg) = of_bool dg"
  "rq C (control_msg_header_new C cmd i ic rqst dg) = of_bool rqst"
  by (simp_all add: control_msg_header_new_def control_msg_header_default_def ctrl_access
      set_length get_set_same get_set_other get_zero)

text \<open>\<open>hdr.set_rq(0)\<close>, which turns a request header into a response header.\<close>

lemma set_rq_fields [header_simps]:
  assumes "wf_control_msg_header h"
  shows "wf_control_msg_header (set_rq C v h)"
    "hdr_command_code (set_rq C v h) = hdr_command_code h"
    "msg_type C (set_rq C v h) = msg_type C h"
    "integrity_check C (set_rq C v h) = integrity_check C h"
    "instance_id C (set_rq C v h) = instance_id C h"
    "ctrl_rsvd C (set_rq C v h) = ctrl_rsvd C h"
    "d_bit C (set_rq C v h) = d_bit C h"
    "rq C (set_rq C v h) = take_bit 1 v"
  using assms
  by (simp_all add: ctrl_access wf_control_msg_header_def set_length get_set_same get_set_other)

lemma control_msg_header_eqI:
  assumes "wf_control_msg_header h" "wf_control_msg_header k"
    and "hdr_command_code h = hdr_command_code k" "msg_type C h = msg_type C k"
    and "integrity_check C h = integrity_check C k" "instance_id C h = instance_id C k"
    and "ctrl_rsvd C h = ctrl_rsvd C k" "d_bit C h = d_bit C k" "rq C h = rq C k"
  shows "h = k"
proof -
  have "msg_type_integrity_check_instance_id_rsvd_d_bit_rq h =
      msg_type_integrity_check_instance_id_rsvd_d_bit_rq k"
    by (rule array_eq_fields
        [where fs = "[(0, 6), (7, 7), (8, 12), (13, 13), (14, 14), (15, 15)]"])
      (use assms control_cover in \<open>simp_all add: ctrl_access wf_control_msg_header_def\<close>)
  with assms(3) show ?thesis by (cases h; cases k) simp
qed

end

end
