(* ===== verification/Payload.thy ===== *)
theory Payload
  imports Control
begin

text \<open>
  \<open>ControlPayload\<close> of \<open>control.rs\<close>, the two empty messages of \<open>control/models.rs\<close>, and
  what every control message shares: its structure is a control header followed by a fixed
  number of bytes.
\<close>

section \<open>Structures behind a control header\<close>

context crates_spec
begin

lemma message_codec:
  assumes ser: "\<And>x. ser x = control_msg_header_ser C (hd_of x) @ tl_of x"
    and wf_parts: "\<And>x. good x \<Longrightarrow> wf_control_msg_header (hd_of x) \<and> length (tl_of x) = n"
    and parts: "\<And>x. good x \<Longrightarrow> mk (hd_of x) (tl_of x) = x"
    and wf_mk: "\<And>h t. wf_control_msg_header h \<Longrightarrow> length t = n \<Longrightarrow> good (mk h t)"
    and de: "\<And>bs h t r. control_msg_header_de C bs = Some (h, t @ r) \<Longrightarrow> length t = n
               \<Longrightarrow> de bs = Some (mk h t, r)"
    and sz: "sz = control_msg_header_size + n"
  shows "codec ser de sz good"
proof (unfold_locales, goal_cases)
  case (1 x)
  then show ?case using wf_parts [of x] by (simp add: ser ctrl.enc_length sz)
next
  case (2 x r)
  then have "control_msg_header_de C (ser x @ r) = Some (hd_of x, tl_of x @ r)"
    using wf_parts [of x] by (simp add: ser ctrl.dec_enc)
  then show ?case using de parts wf_parts 2 by fastforce
next
  case (3 bs)
  let ?b = "take control_msg_header_size bs" and ?t = "drop control_msg_header_size bs"
  from 3 have len: "length ?b = control_msg_header_size" "length ?t = n"
    by (simp_all add: sz)
  from ctrl.dec_total [OF len(1)] obtain h
    where h: "wf_control_msg_header h" "\<And>r. control_msg_header_de C (?b @ r) = Some (h, r)"
    by blast
  have "de (bs @ r) = Some (mk h ?t, r)" for r
  proof (rule de [OF _ len(2)])
    show "control_msg_header_de C (bs @ r) = Some (h, ?t @ r)"
      using h(2) [of "?t @ r"] by (simp flip: append_assoc)
  qed
  then show ?case using wf_mk [OF h(1) len(2)] by blast
qed

end

section \<open>Empty messages\<close>

record empty_request =
  empty_request_hdr :: control_msg_header

definition empty_request_ser :: "crates \<Rightarrow> empty_request \<Rightarrow> bytes" where
  "empty_request_ser C x = control_msg_header_ser C (empty_request_hdr x)"

definition empty_request_de :: "crates \<Rightarrow> bytes \<Rightarrow> (empty_request \<times> bytes) option" where
  "empty_request_de C bs = do {
     (h, r) \<leftarrow> control_msg_header_de C bs;
     Some (\<lparr>empty_request_hdr = h\<rparr>, r)
   }"

definition empty_request_size :: nat where
  "empty_request_size = 3"

record empty_response =
  empty_response_hdr :: control_msg_header
  empty_response_completion_code :: u8

definition empty_response_new :: "control_msg_header \<Rightarrow> u8 \<Rightarrow> empty_response" where
  "empty_response_new h cc = \<lparr>empty_response_hdr = h, empty_response_completion_code = cc\<rparr>"

definition empty_response_from :: "crates \<Rightarrow> empty_request \<Rightarrow> completion_code \<Rightarrow> empty_response" where
  "empty_response_from C req cc =
     (let h = empty_request_hdr req; h = set_rq C 0 h
      in empty_response_new h (completion_code_to_u8 cc))"

definition empty_response_ser :: "crates \<Rightarrow> empty_response \<Rightarrow> bytes" where
  "empty_response_ser C x =
     control_msg_header_ser C (empty_response_hdr x) @ write_u8 C (empty_response_completion_code x)"

definition empty_response_de :: "crates \<Rightarrow> bytes \<Rightarrow> (empty_response \<times> bytes) option" where
  "empty_response_de C bs = do {
     (h, r) \<leftarrow> control_msg_header_de C bs;
     (c, r) \<leftarrow> read_u8 C r;
     Some (\<lparr>empty_response_hdr = h, empty_response_completion_code = c\<rparr>, r)
   }"

definition empty_response_size :: nat where
  "empty_response_size = 4"

definition wf_empty_request :: "empty_request \<Rightarrow> bool" where
  "wf_empty_request x \<longleftrightarrow> wf_control_msg_header (empty_request_hdr x)"

definition wf_empty_response :: "empty_response \<Rightarrow> bool" where
  "wf_empty_response x \<longleftrightarrow> wf_control_msg_header (empty_response_hdr x)"

sublocale crates_spec \<subseteq> ereq: codec "empty_request_ser C" "empty_request_de C"
  empty_request_size wf_empty_request
  by (rule message_codec [where n = 0 and hd_of = empty_request_hdr and tl_of = "\<lambda>_. []"
        and mk = "\<lambda>h _. \<lparr>empty_request_hdr = h\<rparr>"])
    (auto simp: empty_request_ser_def empty_request_de_def wf_empty_request_def
      empty_request_size_def control_msg_header_size_def)

sublocale crates_spec \<subseteq> eresp: codec "empty_response_ser C" "empty_response_de C"
  empty_response_size wf_empty_response
  by (rule message_codec [where n = 1 and hd_of = empty_response_hdr
        and tl_of = "\<lambda>x. [empty_response_completion_code x]"
        and mk = "\<lambda>h t. \<lparr>empty_response_hdr = h, empty_response_completion_code = hd t\<rparr>"])
    (auto simp: empty_response_ser_def empty_response_de_def wf_empty_response_def wire_u8
      empty_response_size_def control_msg_header_size_def length_Suc_conv)

section \<open>The payload\<close>

record control_payload =
  hdr :: transport_header
  control_hdr :: control_msg_header
  payload :: bytes

definition control_payload_new ::
  "transport_header \<Rightarrow> control_msg_header \<Rightarrow> bytes \<Rightarrow> control_payload" where
  "control_payload_new h ch body = \<lparr>hdr = h, control_hdr = ch, payload = body\<rparr>"

text \<open>
  \<open>From<ControlPayload> for Bytes\<close>: the transport header, then the payload, which already
  starts with the control header; the \<open>control_hdr\<close> field itself is not written.
\<close>

definition control_payload_to_bytes :: "crates \<Rightarrow> control_payload \<Rightarrow> bytes" where
  "control_payload_to_bytes C p = transport_header_ser C (hdr p) @ payload p"

definition control_payload_try_from ::
  "crates \<Rightarrow> bytes \<Rightarrow> (mctp_base_lib_error, control_payload) res" where
  "control_payload_try_from C bs =
     (let hdr_size = transport_header_size;
          control_hdr_size = control_msg_header_size;
          total_hdr_size = hdr_size + control_hdr_size;
          msg_size = int (length bs) - int total_hdr_size
      in if msg_size < 0
         then Err (InvalidPayloadSize (to_string total_hdr_size) (to_string (length bs)))
         else
           res_bind (slice_from hdr_size bs) (\<lambda>body.
           res_bind (slice 0 hdr_size bs) (\<lambda>b1.
           res_bind (transport_header_try_from C b1) (\<lambda>h.
           res_bind (slice hdr_size total_hdr_size bs) (\<lambda>b2.
           res_bind (control_msg_header_try_from C b2) (\<lambda>ch.
           Ok (control_payload_new h ch body)))))))"

text \<open>\<open>try_to_response\<close>; \<open>conv\<close> is the \<open>TryFrom<Bytes>\<close> of the response type.\<close>

definition try_to_response ::
  "crates \<Rightarrow> (bytes \<Rightarrow> (mctp_base_lib_error, 'a) res) \<Rightarrow> bytes \<Rightarrow> (anyhow, control_payload \<times> 'a) res" where
  "try_to_response C conv bs =
     res_bind (with_context ''Failed parsing payload'' (control_payload_try_from C bs)) (\<lambda>p.
       case conv (payload p) of
         Ok resp \<Rightarrow> Ok (p, resp)
       | Err _ \<Rightarrow> Err [''Failed parsing response'']
       | Panic m \<Rightarrow> Panic m)"

definition payload_command_code :: "control_payload \<Rightarrow> (mctp_base_lib_error, command_code) res" where
  "payload_command_code p =
     (case hdr_command_code (control_hdr p) of
        Unknown \<Rightarrow> Err (UnknownValue ''Unknown'')
      | code \<Rightarrow> Ok code)"

definition create_response_payload ::
  "crates \<Rightarrow> control_payload \<Rightarrow> control_msg_header \<Rightarrow> bytes \<Rightarrow> control_payload" where
  "create_response_payload C p ch response_body =
     (let rsp_hdr = create_response C (hdr p) in control_payload_new rsp_hdr ch response_body)"

text \<open>
  \<open>TryFrom<ControlPayload>\<close> of a message runs the message's conversion on the payload.
\<close>

definition try_from_control_payload ::
  "crates \<Rightarrow> nat \<Rightarrow> (bytes \<Rightarrow> ('a \<times> bytes) option) \<Rightarrow> control_payload \<Rightarrow> (mctp_base_lib_error, 'a) res" where
  "try_from_control_payload C struct_size de msg =
     (if length (payload msg) < struct_size
      then Err (InvalidPayloadSize (to_string struct_size) (to_string (length (payload msg))))
      else bincode_deserialize C de (payload msg))"

lemma try_from_control_payload_eq:
  "try_from_control_payload C n de p = from_binary_try_from C n de (payload p)"
  by (simp add: try_from_control_payload_def from_binary_try_from_def)

text \<open>
  A payload is consistent when its control header is the one its bytes start with: what
  parsing establishes and what a caller of \<open>new\<close> has to supply.
\<close>

definition consistent_payload :: "crates \<Rightarrow> control_payload \<Rightarrow> bool" where
  "consistent_payload C p \<longleftrightarrow>
     wf_transport_header (hdr p) \<and> control_msg_header_try_from C (payload p) = Ok (control_hdr p)"

context crates_spec
begin

lemma payload_short:
  assumes "length bs < 7"
  shows "control_payload_try_from C bs =
    Err (InvalidPayloadSize (to_string 7) (to_string (length bs)))"
  using assms
  by (simp add: control_payload_try_from_def transport_header_size_def control_msg_header_size_def)

text \<open>With seven bytes or more parsing succeeds, whatever they are.\<close>

lemma payload_long:
  assumes len: "7 \<le> length bs"
  shows "\<exists>h ch. control_payload_try_from C bs = Ok (control_payload_new h ch (drop 4 bs))
    \<and> transport_header_try_from C bs = Ok h
    \<and> control_msg_header_try_from C (drop 4 bs) = Ok ch
    \<and> wf_transport_header h \<and> wf_control_msg_header ch"
proof -
  obtain h where h: "wf_transport_header h" "transport_header_try_from C bs = Ok h"
    using th.try_from_long [of bs C] len
    by (auto simp: transport_header_try_from_def transport_header_size_def)
  have len': "3 \<le> length (drop 4 bs)"
    using len by simp
  obtain ch where ch: "wf_control_msg_header ch"
      "control_msg_header_try_from C (drop 4 bs) = Ok ch"
    using ctrl.try_from_long [of "drop 4 bs" C] len'
    by (auto simp: control_msg_header_try_from_def control_msg_header_size_def)
  have h4: "transport_header_try_from C (take 4 bs) = Ok h"
    using th.try_from_take [of bs C] h(2) len
    by (simp add: transport_header_try_from_def transport_header_size_def)
  have ch3: "control_msg_header_try_from C (take 3 (drop 4 bs)) = Ok ch"
    using ctrl.try_from_take [of "drop 4 bs" C] ch(2) len'
    by (simp add: control_msg_header_try_from_def control_msg_header_size_def)
  have "control_payload_try_from C bs = Ok (control_payload_new h ch (drop 4 bs))"
    using len h4 ch3
    by (simp add: control_payload_try_from_def transport_header_size_def
        control_msg_header_size_def slice_from_def slice_def)
  with h ch show ?thesis by blast
qed

lemma payload_try_from_cases:
  obtains (short) "length bs < 7"
      "control_payload_try_from C bs = Err (InvalidPayloadSize (to_string 7) (to_string (length bs)))"
  | (long) h ch where "7 \<le> length bs"
      "control_payload_try_from C bs = Ok (control_payload_new h ch (drop 4 bs))"
      "transport_header_try_from C bs = Ok h" "control_msg_header_try_from C (drop 4 bs) = Ok ch"
      "wf_transport_header h" "wf_control_msg_header ch"
  using payload_short [of bs] payload_long [of bs] by (cases "length bs < 7") auto

lemma payload_parse_consistent:
  assumes "control_payload_try_from C bs = Ok p"
  shows "consistent_payload C p \<and> control_payload_to_bytes C p = bs \<and> 3 \<le> length (payload p)"
proof (cases rule: payload_try_from_cases [of bs])
  case short
  with assms show ?thesis by simp
next
  case (long h ch)
  have "transport_header_ser C h = take 4 bs"
    using th.try_from_inverse [of C bs h] long(3)
    by (simp add: transport_header_try_from_def transport_header_size_def)
  with long assms show ?thesis
    by (auto simp: consistent_payload_def control_payload_to_bytes_def control_payload_new_def)
qed

lemma payload_roundtrip:
  assumes "consistent_payload C p"
  shows "control_payload_try_from C (control_payload_to_bytes C p) = Ok p"
proof -
  let ?bs = "control_payload_to_bytes C p"
  have len4: "length (transport_header_ser C (hdr p)) = 4"
    using assms th.enc_length [of "hdr p"]
    by (simp add: consistent_payload_def transport_header_size_def)
  have "is_ok (control_msg_header_try_from C (payload p))"
    using assms by (simp add: consistent_payload_def)
  then have "3 \<le> length (payload p)"
    using ctrl.try_from_is_ok [of C "payload p"]
    by (simp add: control_msg_header_try_from_def control_msg_header_size_def)
  with len4 have "7 \<le> length ?bs" and d: "drop 4 ?bs = payload p"
    by (simp_all add: control_payload_to_bytes_def)
  moreover have "transport_header_try_from C ?bs = Ok (hdr p)"
    using assms th.try_from_enc [of "hdr p" C "payload p"]
    by (simp add: control_payload_to_bytes_def transport_header_try_from_def consistent_payload_def)
  ultimately show ?thesis
    using assms payload_long [of ?bs] by (auto simp: consistent_payload_def control_payload_new_def)
qed

lemma command_code_Ok_iff:
  "payload_command_code p = Ok c \<longleftrightarrow> hdr_command_code (control_hdr p) = c \<and> c \<noteq> Unknown"
  by (auto simp: payload_command_code_def split: command_code.splits)

end

section \<open>Properties\<close>

context crates_spec
begin

lemma payload_parse_total:
  "if length bs < 7
   then control_payload_try_from C bs = Err (InvalidPayloadSize (to_string 7) (to_string (length bs)))
   else \<exists>p. control_payload_try_from C bs = Ok p \<and> control_payload_to_bytes C p = bs \<and>
            payload p = drop 4 bs \<and> consistent_payload C p"
  using payload_parse_consistent [of bs]
  by (cases rule: payload_try_from_cases [of bs]) (simp_all add: control_payload_new_def)

end

text \<open>
  C29: parsing a control payload fails exactly when there are fewer
  than seven bytes; otherwise nothing is lost: the payload is everything behind the transport
  header, its control header is the one those bytes start with, and writing it gives the
  bytes back.
\<close>

theorem control_payload_parse:
  assumes "crates_spec C"
  shows "if length bs < 7
    then control_payload_try_from C bs = Err (InvalidPayloadSize (to_string 7) (to_string (length bs)))
    else \<exists>p. control_payload_try_from C bs = Ok p \<and> control_payload_to_bytes C p = bs \<and>
             payload p = drop 4 bs \<and> control_msg_header_try_from C (payload p) = Ok (control_hdr p)"
  using crates_spec.payload_parse_total [OF assms, of bs] by (auto simp: consistent_payload_def)

theorem control_payload_parse_witness:
  "control_payload_try_from std_crates [1, 9, 8, 0xc9, 0, 0x81] =
     Err (InvalidPayloadSize (to_string 7) (to_string 6)) \<and>
   (\<exists>p. control_payload_try_from std_crates [1, 9, 8, 0xc9, 0, 0x81, 2, 5] = Ok p \<and>
        control_payload_to_bytes std_crates p = [1, 9, 8, 0xc9, 0, 0x81, 2, 5] \<and> payload p = [0, 0x81, 2, 5])"
  using control_payload_parse [OF std_crates_spec, of "[1, 9, 8, 0xc9, 0, 0x81]"]
    control_payload_parse [OF std_crates_spec, of "[1, 9, 8, 0xc9, 0, 0x81, 2, 5]"]
  by (auto simp: eval_nat_numeral)

text \<open>
  C23: a payload built from a well-formed transport header, a
  control header and bytes that start with that control header is written to bytes that parse
  back to it. (The control header field itself is not written, so for other payloads it is
  lost.)
\<close>

theorem control_payload_roundtrip:
  assumes "crates_spec C" "wf_transport_header h" "control_msg_header_try_from C body = Ok ch"
  shows "control_payload_try_from C (control_payload_to_bytes C (control_payload_new h ch body)) =
    Ok (control_payload_new h ch body)"
  using crates_spec.payload_roundtrip [OF assms(1), of "control_payload_new h ch body"] assms(2,3)
  by (simp add: consistent_payload_def control_payload_new_def)

theorem control_payload_roundtrip_witness:
  "control_payload_try_from std_crates (control_payload_to_bytes std_crates
     (control_payload_new (transport_header_new std_crates 8 9 1 None None None)
        \<lparr>msg_type_integrity_check_instance_id_rsvd_d_bit_rq = [0, 0x81], hdr_command_code = GetEndpointID\<rparr>
        [0, 0x81, 2])) =
   Ok (control_payload_new (transport_header_new std_crates 8 9 1 None None None)
        \<lparr>msg_type_integrity_check_instance_id_rsvd_d_bit_rq = [0, 0x81], hdr_command_code = GetEndpointID\<rparr>
        [0, 0x81, 2])"
proof (rule control_payload_roundtrip [OF std_crates_spec std.new_wf])
  show "control_msg_header_try_from std_crates [0, 0x81, 2] =
      Ok \<lparr>msg_type_integrity_check_instance_id_rsvd_d_bit_rq = [0, 0x81], hdr_command_code = GetEndpointID\<rparr>"
    using std.command_code_enum.from_to [of GetEndpointID]
    by (simp add: control_msg_header_try_from_def from_binary_try_from_def bincode_deserialize_def
        control_msg_header_size_def std.control_de_cons)
qed

end
