(* ===== verification/SetEid.thy ===== *)
theory SetEid
  imports Payload
begin

text \<open>
  The Set Endpoint ID messages of \<open>mctp-base-lib/src/control/set_eid.rs\<close>.
\<close>

section \<open>Request\<close>

text \<open>\<open>Operation\<close>.\<close>

datatype set_eid_operation = SetEid | ForceEid | ResetEid | SetDiscoveredFlag

fun set_eid_operation_to_u8 :: "set_eid_operation \<Rightarrow> u8" where
  "set_eid_operation_to_u8 SetEid = 0"
| "set_eid_operation_to_u8 ForceEid = 1"
| "set_eid_operation_to_u8 ResetEid = 2"
| "set_eid_operation_to_u8 SetDiscoveredFlag = 3"

definition set_eid_operation_variants :: "set_eid_operation list" where
  "set_eid_operation_variants = [SetEid, ForceEid, ResetEid, SetDiscoveredFlag]"

definition set_eid_operation_from_u8 :: "crates \<Rightarrow> u8 \<Rightarrow> set_eid_operation" where
  "set_eid_operation_from_u8 C = enum_from C set_eid_operation_variants set_eid_operation_to_u8 0"

definition set_eid_operation_default :: set_eid_operation where
  "set_eid_operation_default = SetEid"

sublocale crates_spec \<subseteq> set_eid_operation_enum: u8_enum set_eid_operation_to_u8 "set_eid_operation_from_u8 C" set_eid_operation_variants set_eid_operation_default
  unfolding set_eid_operation_from_u8_def
proof (rule enum_from_u8_enum)
  show "e \<in> set set_eid_operation_variants" for e
    by (cases e) (simp_all add: set_eid_operation_variants_def)
qed (simp_all add: set_eid_operation_variants_def set_eid_operation_default_def)

record set_eid_request =
  set_eid_req_hdr :: control_msg_header
  set_eid_operation_reserved :: bytes
  set_eid_req_eid :: u8

definition wf_set_eid_request :: "set_eid_request \<Rightarrow> bool" where
  "wf_set_eid_request x \<longleftrightarrow>
     wf_control_msg_header (set_eid_req_hdr x) \<and> length (set_eid_operation_reserved x) = 1"

definition set_eid_req_operation :: "crates \<Rightarrow> set_eid_request \<Rightarrow> u8" where
  "set_eid_req_operation C x = bits_get C 0 1 (set_eid_operation_reserved x)"

definition set_eid_req_reserved :: "crates \<Rightarrow> set_eid_request \<Rightarrow> u8" where
  "set_eid_req_reserved C x = bits_get C 2 7 (set_eid_operation_reserved x)"

definition set_set_eid_req_operation :: "crates \<Rightarrow> u8 \<Rightarrow> set_eid_request \<Rightarrow> set_eid_request" where
  "set_set_eid_req_operation C v x =
     x\<lparr>set_eid_operation_reserved := bits_set C 0 1 v (set_eid_operation_reserved x)\<rparr>"

definition set_eid_request_new ::
  "crates \<Rightarrow> control_msg_header \<Rightarrow> set_eid_operation \<Rightarrow> u8 \<Rightarrow> set_eid_request" where
  "set_eid_request_new C h op e =
     set_set_eid_req_operation C (set_eid_operation_to_u8 op)
       \<lparr>set_eid_req_hdr = h, set_eid_operation_reserved = [0], set_eid_req_eid = e\<rparr>"

definition set_eid_request_ser :: "crates \<Rightarrow> set_eid_request \<Rightarrow> bytes" where
  "set_eid_request_ser C x =
     control_msg_header_ser C (set_eid_req_hdr x) @ put_array C (set_eid_operation_reserved x) @
     write_u8 C (set_eid_req_eid x)"

definition set_eid_request_de :: "crates \<Rightarrow> bytes \<Rightarrow> (set_eid_request \<times> bytes) option" where
  "set_eid_request_de C bs = do {
     (h, r) \<leftarrow> control_msg_header_de C bs;
     (a, r) \<leftarrow> get_array C 1 r;
     (e, r) \<leftarrow> read_u8 C r;
     Some (\<lparr>set_eid_req_hdr = h, set_eid_operation_reserved = a, set_eid_req_eid = e\<rparr>, r)
   }"

definition set_eid_request_size :: nat where
  "set_eid_request_size = 5"

sublocale crates_spec \<subseteq> seteid_req: codec "set_eid_request_ser C" "set_eid_request_de C"
  set_eid_request_size wf_set_eid_request
  by (rule message_codec [where n = 2 and hd_of = set_eid_req_hdr
        and tl_of = "\<lambda>x. set_eid_operation_reserved x @ [set_eid_req_eid x]"
        and mk = "\<lambda>h t. \<lparr>set_eid_req_hdr = h, set_eid_operation_reserved = [t ! 0],
                          set_eid_req_eid = t ! 1\<rparr>"])
    (auto simp: set_eid_request_ser_def set_eid_request_de_def wf_set_eid_request_def
      codec_simps wire_u8 set_eid_request_size_def control_msg_header_size_def
      numeral_eq_Suc length_Suc_conv)

section \<open>Response\<close>

text \<open>\<open>EidAssignmentStatus\<close>.\<close>

datatype eid_assignment_status = Accepted | Rejected

fun eid_assignment_status_to_u8 :: "eid_assignment_status \<Rightarrow> u8" where
  "eid_assignment_status_to_u8 Accepted = 0"
| "eid_assignment_status_to_u8 Rejected = 1"

definition eid_assignment_status_variants :: "eid_assignment_status list" where
  "eid_assignment_status_variants = [Accepted, Rejected]"

definition eid_assignment_status_from_u8 :: "crates \<Rightarrow> u8 \<Rightarrow> eid_assignment_status" where
  "eid_assignment_status_from_u8 C = enum_from C eid_assignment_status_variants eid_assignment_status_to_u8 1"

definition eid_assignment_status_default :: eid_assignment_status where
  "eid_assignment_status_default = Rejected"

sublocale crates_spec \<subseteq> eid_assignment_status_enum: u8_enum eid_assignment_status_to_u8 "eid_assignment_status_from_u8 C" eid_assignment_status_variants eid_assignment_status_default
  unfolding eid_assignment_status_from_u8_def
proof (rule enum_from_u8_enum)
  show "e \<in> set eid_assignment_status_variants" for e
    by (cases e) (simp_all add: eid_assignment_status_variants_def)
qed (simp_all add: eid_assignment_status_variants_def eid_assignment_status_default_def)

text \<open>\<open>EidAllocationStatus\<close>.\<close>

datatype eid_allocation_status = NoPoolSupport | RequiresPoolAllocation | PoolAlreadyAllocated

fun eid_allocation_status_to_u8 :: "eid_allocation_status \<Rightarrow> u8" where
  "eid_allocation_status_to_u8 NoPoolSupport = 0"
| "eid_allocation_status_to_u8 RequiresPoolAllocation = 1"
| "eid_allocation_status_to_u8 PoolAlreadyAllocated = 2"

definition eid_allocation_status_variants :: "eid_allocation_status list" where
  "eid_allocation_status_variants = [NoPoolSupport, RequiresPoolAllocation, PoolAlreadyAllocated]"

definition eid_allocation_status_from_u8 :: "crates \<Rightarrow> u8 \<Rightarrow> eid_allocation_status" where
  "eid_allocation_status_from_u8 C = enum_from C eid_allocation_status_variants eid_allocation_status_to_u8 0"

definition eid_allocation_status_default :: eid_allocation_status where
  "eid_allocation_status_default = NoPoolSupport"

sublocale crates_spec \<subseteq> eid_allocation_status_enum: u8_enum eid_allocation_status_to_u8 "eid_allocation_status_from_u8 C" eid_allocation_status_variants eid_allocation_status_default
  unfolding eid_allocation_status_from_u8_def
proof (rule enum_from_u8_enum)
  show "e \<in> set eid_allocation_status_variants" for e
    by (cases e) (simp_all add: eid_allocation_status_variants_def)
qed (simp_all add: eid_allocation_status_variants_def eid_allocation_status_default_def)

record set_eid_response =
  set_eid_resp_hdr :: control_msg_header
  set_eid_resp_completion_code :: u8
  eid_allocation_status_reserved1_eid_assignment_status_reserved2 :: bytes
  eid_setting :: u8
  set_eid_resp_pool_size :: u8

definition wf_set_eid_response :: "set_eid_response \<Rightarrow> bool" where
  "wf_set_eid_response x \<longleftrightarrow>
     wf_control_msg_header (set_eid_resp_hdr x) \<and>
     length (eid_allocation_status_reserved1_eid_assignment_status_reserved2 x) = 1"

definition set_eid_resp_get :: "crates \<Rightarrow> nat \<Rightarrow> nat \<Rightarrow> set_eid_response \<Rightarrow> u8" where
  "set_eid_resp_get C lo hi x =
     bits_get C lo hi (eid_allocation_status_reserved1_eid_assignment_status_reserved2 x)"

definition set_eid_resp_set :: "crates \<Rightarrow> nat \<Rightarrow> nat \<Rightarrow> u8 \<Rightarrow> set_eid_response \<Rightarrow> set_eid_response" where
  "set_eid_resp_set C lo hi v x =
     x\<lparr>eid_allocation_status_reserved1_eid_assignment_status_reserved2 :=
         bits_set C lo hi v (eid_allocation_status_reserved1_eid_assignment_status_reserved2 x)\<rparr>"

definition raw_eid_allocation_status :: "crates \<Rightarrow> set_eid_response \<Rightarrow> u8" where
  "raw_eid_allocation_status C = set_eid_resp_get C 0 1"

definition eid_assignment_status_bits :: "crates \<Rightarrow> set_eid_response \<Rightarrow> u8" where
  "eid_assignment_status_bits C = set_eid_resp_get C 4 5"

definition set_raw_eid_allocation_status :: "crates \<Rightarrow> u8 \<Rightarrow> set_eid_response \<Rightarrow> set_eid_response" where
  "set_raw_eid_allocation_status C = set_eid_resp_set C 0 1"

definition set_eid_assignment_status :: "crates \<Rightarrow> u8 \<Rightarrow> set_eid_response \<Rightarrow> set_eid_response" where
  "set_eid_assignment_status C = set_eid_resp_set C 4 5"

definition set_eid_response_new ::
  "crates \<Rightarrow> control_msg_header \<Rightarrow> u8 \<Rightarrow> eid_allocation_status \<Rightarrow> eid_assignment_status \<Rightarrow> u8 \<Rightarrow> u8
    \<Rightarrow> set_eid_response" where
  "set_eid_response_new C h cc alloc assign setting pool =
     (let x = \<lparr>set_eid_resp_hdr = h, set_eid_resp_completion_code = cc,
               eid_allocation_status_reserved1_eid_assignment_status_reserved2 = [0],
               eid_setting = setting, set_eid_resp_pool_size = pool\<rparr>;
          x = set_raw_eid_allocation_status C (eid_allocation_status_to_u8 alloc) x;
          x = set_eid_assignment_status C (eid_assignment_status_to_u8 assign) x
      in x)"

definition set_eid_response_from ::
  "crates \<Rightarrow> set_eid_request \<Rightarrow> completion_code \<Rightarrow> eid_allocation_status \<Rightarrow> eid_assignment_status
    \<Rightarrow> u8 \<Rightarrow> u8 \<Rightarrow> set_eid_response" where
  "set_eid_response_from C req cc alloc assign setting pool =
     (let h = set_eid_req_hdr req; h = set_rq C 0 h
      in set_eid_response_new C h (completion_code_to_u8 cc) alloc assign setting pool)"

text \<open>The method \<open>eid_allocation_status()\<close>.\<close>

definition set_eid_resp_allocation_status :: "crates \<Rightarrow> set_eid_response \<Rightarrow> eid_allocation_status" where
  "set_eid_resp_allocation_status C x = eid_allocation_status_from_u8 C (raw_eid_allocation_status C x)"

definition set_eid_response_ser :: "crates \<Rightarrow> set_eid_response \<Rightarrow> bytes" where
  "set_eid_response_ser C x =
     control_msg_header_ser C (set_eid_resp_hdr x) @ write_u8 C (set_eid_resp_completion_code x) @
     put_array C (eid_allocation_status_reserved1_eid_assignment_status_reserved2 x) @
     write_u8 C (eid_setting x) @ write_u8 C (set_eid_resp_pool_size x)"

definition set_eid_response_de :: "crates \<Rightarrow> bytes \<Rightarrow> (set_eid_response \<times> bytes) option" where
  "set_eid_response_de C bs = do {
     (h, r) \<leftarrow> control_msg_header_de C bs;
     (c, r) \<leftarrow> read_u8 C r;
     (a, r) \<leftarrow> get_array C 1 r;
     (s, r) \<leftarrow> read_u8 C r;
     (p, r) \<leftarrow> read_u8 C r;
     Some (\<lparr>set_eid_resp_hdr = h, set_eid_resp_completion_code = c,
            eid_allocation_status_reserved1_eid_assignment_status_reserved2 = a,
            eid_setting = s, set_eid_resp_pool_size = p\<rparr>, r)
   }"

definition set_eid_response_size :: nat where
  "set_eid_response_size = 7"

definition set_eid_response_try_from ::
  "crates \<Rightarrow> bytes \<Rightarrow> (mctp_base_lib_error, set_eid_response) res" where
  "set_eid_response_try_from C =
     from_control_payload_try_from C set_eid_response_size (set_eid_response_de C)"

sublocale crates_spec \<subseteq> seteid_resp: codec "set_eid_response_ser C" "set_eid_response_de C"
  set_eid_response_size wf_set_eid_response
  by (rule message_codec [where n = 4 and hd_of = set_eid_resp_hdr
        and tl_of = "\<lambda>x. set_eid_resp_completion_code x #
               eid_allocation_status_reserved1_eid_assignment_status_reserved2 x @
               [eid_setting x, set_eid_resp_pool_size x]"
        and mk = "\<lambda>h t. \<lparr>set_eid_resp_hdr = h, set_eid_resp_completion_code = t ! 0,
               eid_allocation_status_reserved1_eid_assignment_status_reserved2 = [t ! 1],
               eid_setting = t ! 2, set_eid_resp_pool_size = t ! 3\<rparr>"])
    (auto simp: set_eid_response_ser_def set_eid_response_de_def wf_set_eid_response_def
      codec_simps wire_u8 set_eid_response_size_def control_msg_header_size_def
      numeral_eq_Suc length_Suc_conv)

section \<open>What the fields are\<close>

context crates_spec
begin

lemma set_eid_request_fields [header_simps]:
  "set_eid_req_hdr (set_eid_request_new C h op e) = h"
  "set_eid_req_eid (set_eid_request_new C h op e) = e"
  "set_eid_req_operation C (set_eid_request_new C h op e) = set_eid_operation_to_u8 op"
  "set_eid_req_reserved C (set_eid_request_new C h op e) = 0"
  "wf_control_msg_header h \<Longrightarrow> wf_set_eid_request (set_eid_request_new C h op e)"
  by (cases op; simp add: set_eid_request_new_def set_set_eid_req_operation_def
      set_eid_req_operation_def set_eid_req_reserved_def wf_set_eid_request_def
      set_length get_set_same get_set_other get_zero)+

lemma set_eid_response_fields [header_simps]:
  "set_eid_resp_hdr (set_eid_response_new C h cc alloc assign s p) = h"
  "set_eid_resp_completion_code (set_eid_response_new C h cc alloc assign s p) = cc"
  "eid_setting (set_eid_response_new C h cc alloc assign s p) = s"
  "set_eid_resp_pool_size (set_eid_response_new C h cc alloc assign s p) = p"
  "wf_control_msg_header h \<Longrightarrow> wf_set_eid_response (set_eid_response_new C h cc alloc assign s p)"
  by (simp_all add: set_eid_response_new_def set_raw_eid_allocation_status_def
      set_eid_assignment_status_def set_eid_resp_set_def wf_set_eid_response_def set_length)

lemma set_eid_response_status [header_simps]:
  "raw_eid_allocation_status C (set_eid_response_new C h cc alloc assign s p) =
     eid_allocation_status_to_u8 alloc"
  "eid_assignment_status_bits C (set_eid_response_new C h cc alloc assign s p) =
     eid_assignment_status_to_u8 assign"
  by (cases alloc; cases assign; simp add: set_eid_response_new_def raw_eid_allocation_status_def
      eid_assignment_status_bits_def set_raw_eid_allocation_status_def
      set_eid_assignment_status_def set_eid_resp_set_def set_eid_resp_get_def
      set_length get_set_same get_set_other)+

lemma set_eid_response_allocation [header_simps]:
  "set_eid_resp_allocation_status C (set_eid_response_new C h cc alloc assign s p) = alloc"
  by (simp add: set_eid_resp_allocation_status_def set_eid_response_status
      eid_allocation_status_enum.from_to)

end

section \<open>Properties\<close>

context crates_spec
begin

lemma set_eid_request_wire:
  assumes "wf_control_msg_header h" "q = set_eid_request_new C h op e"
  shows "length (set_eid_request_ser C q) = 5 \<and>
    from_binary_try_from C set_eid_request_size (set_eid_request_de C) (set_eid_request_ser C q @ r) = Ok q \<and>
    set_eid_operation_from_u8 C (set_eid_req_operation C q) = op \<and> set_eid_req_eid q = e \<and> set_eid_req_hdr q = h"
proof -
  have wq: "wf_set_eid_request q" using assms by (simp add: header_simps)
  show ?thesis
    using seteid_req.try_from_enc [OF wq] seteid_req.enc_length [OF wq] set_eid_operation_enum.from_to [of op]
    by (simp add: set_eid_request_size_def assms(2) header_simps)
qed

lemma set_eid_response_wire:
  assumes "wf_set_eid_request q" "x = set_eid_response_from C q cc alloc assign s p"
  shows "length (set_eid_response_ser C x) = 7 \<and>
    set_eid_response_try_from C (set_eid_response_ser C x @ r) = Ok x \<and>
    response_completion_code C (set_eid_resp_completion_code x) = cc \<and>
    set_eid_resp_allocation_status C x = alloc \<and>
    eid_assignment_status_bits C x = eid_assignment_status_to_u8 assign \<and>
    eid_setting x = s \<and> set_eid_resp_pool_size x = p \<and>
    set_eid_resp_hdr x = set_rq C 0 (set_eid_req_hdr q)"
proof -
  have wh: "wf_control_msg_header (set_rq C 0 (set_eid_req_hdr q))"
    using assms(1) by (simp add: wf_set_eid_request_def header_simps)
  then have wx: "wf_set_eid_response x" using assms(2) by (simp add: set_eid_response_from_def header_simps)
  show ?thesis
    using seteid_resp.try_from_enc [OF wx] seteid_resp.enc_length [OF wx] completion_code_enum.from_to [of cc]
    by (simp add: set_eid_response_size_def set_eid_response_try_from_def control_payload_eq_binary
        assms(2) set_eid_response_from_def response_completion_code_def header_simps)
qed

end

text \<open>
  C34: a Set Endpoint ID request is five bytes and the response made from it
  is seven. Decoding either, with anything behind it, gives back what it was built with: the
  operation, the identifier and the header; the completion code, the two statuses, the setting
  and the pool size, under the header of the request with its request bit cleared.
\<close>

theorem set_eid_roundtrip:
  assumes "crates_spec C" "wf_control_msg_header h" "q = set_eid_request_new C h op e"
    "x = set_eid_response_from C q cc alloc assign s p"
  shows "length (set_eid_request_ser C q) = 5 \<and>
    from_binary_try_from C set_eid_request_size (set_eid_request_de C) (set_eid_request_ser C q @ r) = Ok q \<and>
    set_eid_operation_from_u8 C (set_eid_req_operation C q) = op \<and> set_eid_req_eid q = e \<and> set_eid_req_hdr q = h \<and>
    length (set_eid_response_ser C x) = 7 \<and>
    set_eid_response_try_from C (set_eid_response_ser C x @ r) = Ok x \<and>
    response_completion_code C (set_eid_resp_completion_code x) = cc \<and>
    set_eid_resp_allocation_status C x = alloc \<and>
    eid_assignment_status_bits C x = eid_assignment_status_to_u8 assign \<and>
    eid_setting x = s \<and> set_eid_resp_pool_size x = p \<and> set_eid_resp_hdr x = set_rq C 0 h"
proof -
  have "wf_set_eid_request q" using crates_spec.set_eid_request_fields(5) [OF assms(1,2)] assms(3) by simp
  from crates_spec.set_eid_response_wire [OF assms(1) this assms(4)] crates_spec.set_eid_request_wire [OF assms(1-3)]
  show ?thesis by simp
qed

theorem set_eid_roundtrip_witness:
  "\<exists>h q x. q = set_eid_request_new std_crates h ForceEid 9 \<and>
     x = set_eid_response_from std_crates q ErrorNotReady RequiresPoolAllocation Rejected 9 4 \<and>
     from_binary_try_from std_crates set_eid_request_size (set_eid_request_de std_crates)
       (set_eid_request_ser std_crates q @ [1]) = Ok q \<and>
     set_eid_response_try_from std_crates (set_eid_response_ser std_crates x @ [1]) = Ok x \<and>
     set_eid_resp_allocation_status std_crates x = RequiresPoolAllocation"
  using set_eid_roundtrip [where op = ForceEid and e = 9 and cc = ErrorNotReady and alloc = RequiresPoolAllocation
      and assign = Rejected and s = 9 and p = 4 and r = "[1]", OF std_crates_spec std.control_new_wf refl refl]
  by blast

end
