(* ===== verification/GetEid.thy ===== *)
theory GetEid
  imports Payload
begin

text \<open>
  The Get Endpoint ID messages of \<open>mctp-base-lib/src/control/get_eid.rs\<close>.
\<close>

section \<open>Request\<close>

record get_eid_request =
  get_eid_req_hdr :: control_msg_header

definition wf_get_eid_request :: "get_eid_request \<Rightarrow> bool" where
  "wf_get_eid_request x \<longleftrightarrow> wf_control_msg_header (get_eid_req_hdr x)"

definition get_eid_request_ser :: "crates \<Rightarrow> get_eid_request \<Rightarrow> bytes" where
  "get_eid_request_ser C x = control_msg_header_ser C (get_eid_req_hdr x)"

definition get_eid_request_de :: "crates \<Rightarrow> bytes \<Rightarrow> (get_eid_request \<times> bytes) option" where
  "get_eid_request_de C bs = do {
     (h, r) \<leftarrow> control_msg_header_de C bs;
     Some (\<lparr>get_eid_req_hdr = h\<rparr>, r)
   }"

definition get_eid_request_size :: nat where
  "get_eid_request_size = 3"

sublocale crates_spec \<subseteq> geteid_req: codec "get_eid_request_ser C" "get_eid_request_de C"
  get_eid_request_size wf_get_eid_request
  by (rule message_codec [where n = 0 and hd_of = get_eid_req_hdr and tl_of = "\<lambda>_. []"
        and mk = "\<lambda>h _. \<lparr>get_eid_req_hdr = h\<rparr>"])
    (auto simp: get_eid_request_ser_def get_eid_request_de_def wf_get_eid_request_def
      get_eid_request_size_def control_msg_header_size_def)

section \<open>Response\<close>

text \<open>\<open>EidType\<close>.\<close>

datatype eid_type = Dynamic | StaticSupportedWithPresentEidReturned | StaticMatch | StaticMismatch

fun eid_type_to_u8 :: "eid_type \<Rightarrow> u8" where
  "eid_type_to_u8 Dynamic = 0"
| "eid_type_to_u8 StaticSupportedWithPresentEidReturned = 1"
| "eid_type_to_u8 StaticMatch = 2"
| "eid_type_to_u8 StaticMismatch = 3"

definition eid_type_variants :: "eid_type list" where
  "eid_type_variants = [Dynamic, StaticSupportedWithPresentEidReturned, StaticMatch, StaticMismatch]"

definition eid_type_from_u8 :: "crates \<Rightarrow> u8 \<Rightarrow> eid_type" where
  "eid_type_from_u8 C = enum_from C eid_type_variants eid_type_to_u8 0"

definition eid_type_default :: eid_type where
  "eid_type_default = Dynamic"

sublocale crates_spec \<subseteq> eid_type_enum: u8_enum eid_type_to_u8 "eid_type_from_u8 C" eid_type_variants eid_type_default
  unfolding eid_type_from_u8_def
proof (rule enum_from_u8_enum)
  show "e \<in> set eid_type_variants" for e
    by (cases e) (simp_all add: eid_type_variants_def)
qed (simp_all add: eid_type_variants_def eid_type_default_def)

text \<open>\<open>EndpointType\<close>.\<close>

datatype endpoint_type = Simple | BusOwnerOrBridge

fun endpoint_type_to_u8 :: "endpoint_type \<Rightarrow> u8" where
  "endpoint_type_to_u8 Simple = 0"
| "endpoint_type_to_u8 BusOwnerOrBridge = 1"

definition endpoint_type_variants :: "endpoint_type list" where
  "endpoint_type_variants = [Simple, BusOwnerOrBridge]"

definition endpoint_type_from_u8 :: "crates \<Rightarrow> u8 \<Rightarrow> endpoint_type" where
  "endpoint_type_from_u8 C = enum_from C endpoint_type_variants endpoint_type_to_u8 0"

definition endpoint_type_default :: endpoint_type where
  "endpoint_type_default = Simple"

sublocale crates_spec \<subseteq> endpoint_type_enum: u8_enum endpoint_type_to_u8 "endpoint_type_from_u8 C" endpoint_type_variants endpoint_type_default
  unfolding endpoint_type_from_u8_def
proof (rule enum_from_u8_enum)
  show "e \<in> set endpoint_type_variants" for e
    by (cases e) (simp_all add: endpoint_type_variants_def)
qed (simp_all add: endpoint_type_variants_def endpoint_type_default_def)

record get_eid_response =
  get_eid_resp_hdr :: control_msg_header
  get_eid_resp_completion_code :: u8
  get_eid_resp_eid :: u8
  eid_endpoint_type :: bytes
  medium_specific :: u8

definition wf_get_eid_response :: "get_eid_response \<Rightarrow> bool" where
  "wf_get_eid_response x \<longleftrightarrow>
     wf_control_msg_header (get_eid_resp_hdr x) \<and> length (eid_endpoint_type x) = 1"

definition get_eid_resp_eid_type :: "crates \<Rightarrow> get_eid_response \<Rightarrow> u8" where
  "get_eid_resp_eid_type C x = bits_get C 0 1 (eid_endpoint_type x)"

definition get_eid_resp_endpoint_type :: "crates \<Rightarrow> get_eid_response \<Rightarrow> u8" where
  "get_eid_resp_endpoint_type C x = bits_get C 4 5 (eid_endpoint_type x)"

definition set_get_eid_resp_eid_type :: "crates \<Rightarrow> u8 \<Rightarrow> get_eid_response \<Rightarrow> get_eid_response" where
  "set_get_eid_resp_eid_type C v x =
     x\<lparr>eid_endpoint_type := bits_set C 0 1 v (eid_endpoint_type x)\<rparr>"

definition set_get_eid_resp_endpoint_type :: "crates \<Rightarrow> u8 \<Rightarrow> get_eid_response \<Rightarrow> get_eid_response" where
  "set_get_eid_resp_endpoint_type C v x =
     x\<lparr>eid_endpoint_type := bits_set C 4 5 v (eid_endpoint_type x)\<rparr>"

definition get_eid_response_new ::
  "crates \<Rightarrow> control_msg_header \<Rightarrow> u8 \<Rightarrow> u8 \<Rightarrow> eid_type \<Rightarrow> endpoint_type \<Rightarrow> u8 \<Rightarrow> get_eid_response" where
  "get_eid_response_new C h cc e et ept med =
     (let x = \<lparr>get_eid_resp_hdr = h, get_eid_resp_completion_code = cc, get_eid_resp_eid = e,
               eid_endpoint_type = [0], medium_specific = med\<rparr>;
          x = set_get_eid_resp_eid_type C (eid_type_to_u8 et) x;
          x = set_get_eid_resp_endpoint_type C (endpoint_type_to_u8 ept) x
      in x)"

definition get_eid_response_from ::
  "crates \<Rightarrow> get_eid_request \<Rightarrow> completion_code \<Rightarrow> u8 \<Rightarrow> eid_type \<Rightarrow> endpoint_type \<Rightarrow> u8
    \<Rightarrow> get_eid_response" where
  "get_eid_response_from C req cc e et ept med =
     (let h = get_eid_req_hdr req; h = set_rq C 0 h
      in get_eid_response_new C h (completion_code_to_u8 cc) e et ept med)"

definition get_eid_response_ser :: "crates \<Rightarrow> get_eid_response \<Rightarrow> bytes" where
  "get_eid_response_ser C x =
     control_msg_header_ser C (get_eid_resp_hdr x) @ write_u8 C (get_eid_resp_completion_code x) @
     write_u8 C (get_eid_resp_eid x) @ put_array C (eid_endpoint_type x) @
     write_u8 C (medium_specific x)"

definition get_eid_response_de :: "crates \<Rightarrow> bytes \<Rightarrow> (get_eid_response \<times> bytes) option" where
  "get_eid_response_de C bs = do {
     (h, r) \<leftarrow> control_msg_header_de C bs;
     (c, r) \<leftarrow> read_u8 C r;
     (e, r) \<leftarrow> read_u8 C r;
     (a, r) \<leftarrow> get_array C 1 r;
     (m, r) \<leftarrow> read_u8 C r;
     Some (\<lparr>get_eid_resp_hdr = h, get_eid_resp_completion_code = c, get_eid_resp_eid = e,
            eid_endpoint_type = a, medium_specific = m\<rparr>, r)
   }"

definition get_eid_response_size :: nat where
  "get_eid_response_size = 7"

definition get_eid_response_try_from ::
  "crates \<Rightarrow> bytes \<Rightarrow> (mctp_base_lib_error, get_eid_response) res" where
  "get_eid_response_try_from C =
     from_control_payload_try_from C get_eid_response_size (get_eid_response_de C)"

sublocale crates_spec \<subseteq> geteid_resp: codec "get_eid_response_ser C" "get_eid_response_de C"
  get_eid_response_size wf_get_eid_response
  by (rule message_codec [where n = 4 and hd_of = get_eid_resp_hdr
        and tl_of = "\<lambda>x. get_eid_resp_completion_code x # get_eid_resp_eid x #
               eid_endpoint_type x @ [medium_specific x]"
        and mk = "\<lambda>h t. \<lparr>get_eid_resp_hdr = h, get_eid_resp_completion_code = t ! 0,
               get_eid_resp_eid = t ! 1, eid_endpoint_type = [t ! 2], medium_specific = t ! 3\<rparr>"])
    (auto simp: get_eid_response_ser_def get_eid_response_de_def wf_get_eid_response_def
      codec_simps wire_u8 get_eid_response_size_def control_msg_header_size_def
      numeral_eq_Suc length_Suc_conv)

section \<open>What the fields are\<close>

context crates_spec
begin

lemma get_eid_response_fields [header_simps]:
  "get_eid_resp_hdr (get_eid_response_new C h cc e et ept med) = h"
  "get_eid_resp_completion_code (get_eid_response_new C h cc e et ept med) = cc"
  "get_eid_resp_eid (get_eid_response_new C h cc e et ept med) = e"
  "medium_specific (get_eid_response_new C h cc e et ept med) = med"
  "wf_control_msg_header h \<Longrightarrow> wf_get_eid_response (get_eid_response_new C h cc e et ept med)"
  by (simp_all add: get_eid_response_new_def set_get_eid_resp_eid_type_def
      set_get_eid_resp_endpoint_type_def wf_get_eid_response_def set_length)

lemma get_eid_response_types [header_simps]:
  "get_eid_resp_eid_type C (get_eid_response_new C h cc e et ept med) = eid_type_to_u8 et"
  "get_eid_resp_endpoint_type C (get_eid_response_new C h cc e et ept med) = endpoint_type_to_u8 ept"
  by (cases et; cases ept; simp add: get_eid_response_new_def set_get_eid_resp_eid_type_def
      set_get_eid_resp_endpoint_type_def get_eid_resp_eid_type_def get_eid_resp_endpoint_type_def
      set_length get_set_same get_set_other)+

end

section \<open>Properties\<close>

context crates_spec
begin

lemma get_eid_response_wire:
  assumes "wf_get_eid_request q" "x = get_eid_response_from C q cc e et ept med"
  shows "length (get_eid_response_ser C x) = 7 \<and>
    get_eid_response_try_from C (get_eid_response_ser C x @ r) = Ok x \<and>
    response_completion_code C (get_eid_resp_completion_code x) = cc \<and>
    get_eid_resp_eid x = e \<and> eid_type_from_u8 C (get_eid_resp_eid_type C x) = et \<and>
    endpoint_type_from_u8 C (get_eid_resp_endpoint_type C x) = ept \<and> medium_specific x = med \<and>
    get_eid_resp_hdr x = set_rq C 0 (get_eid_req_hdr q)"
proof -
  have wh: "wf_control_msg_header (set_rq C 0 (get_eid_req_hdr q))"
    using assms(1) by (simp add: wf_get_eid_request_def header_simps)
  then have wx: "wf_get_eid_response x" using assms(2) by (simp add: get_eid_response_from_def header_simps)
  show ?thesis
    using geteid_resp.try_from_enc [OF wx] geteid_resp.enc_length [OF wx]
      completion_code_enum.from_to [of cc] eid_type_enum.from_to [of et] endpoint_type_enum.from_to [of ept]
    by (simp add: get_eid_response_size_def get_eid_response_try_from_def control_payload_eq_binary
        assms(2) get_eid_response_from_def response_completion_code_def header_simps)
qed

end

text \<open>
  The Get Endpoint ID response made from a request is seven
  bytes; decoding them, with anything behind them, gives back the completion code, the
  identifier, the identifier and endpoint types and the medium byte, under the header of the
  request with its request bit cleared.
\<close>

theorem get_eid_response_roundtrip:
  assumes "crates_spec C" "wf_get_eid_request q" "x = get_eid_response_from C q cc e et ept med"
  shows "length (get_eid_response_ser C x) = 7 \<and>
    get_eid_response_try_from C (get_eid_response_ser C x @ r) = Ok x \<and>
    response_completion_code C (get_eid_resp_completion_code x) = cc \<and>
    get_eid_resp_eid x = e \<and> eid_type_from_u8 C (get_eid_resp_eid_type C x) = et \<and>
    endpoint_type_from_u8 C (get_eid_resp_endpoint_type C x) = ept \<and> medium_specific x = med \<and>
    get_eid_resp_hdr x = set_rq C 0 (get_eid_req_hdr q)"
  by (rule crates_spec.get_eid_response_wire [OF assms])

theorem get_eid_response_roundtrip_witness:
  "\<exists>q. eid_type_from_u8 std_crates (get_eid_resp_eid_type std_crates
     (get_eid_response_from std_crates q Success 9 StaticMatch BusOwnerOrBridge 0)) = StaticMatch"
proof -
  have "wf_get_eid_request \<lparr>get_eid_req_hdr = control_msg_header_new std_crates GetEndpointID 1 False True False\<rparr>"
    by (simp add: wf_get_eid_request_def std.control_new_wf)
  from get_eid_response_roundtrip [OF std_crates_spec this refl, of Success 9 StaticMatch BusOwnerOrBridge 0 "[]"]
  show ?thesis by blast
qed

end
