(* ===== verification/AllocateEids.thy ===== *)
theory AllocateEids
  imports Payload
begin

text \<open>
  The Allocate Endpoint IDs messages of \<open>mctp-base-lib/src/control/allocate_eids.rs\<close>.
\<close>

section \<open>Request\<close>

text \<open>\<open>Operation\<close>.\<close>

datatype allocate_operation = AllocateEids | ForceAllocation | GetAllocationInfo

fun allocate_operation_to_u8 :: "allocate_operation \<Rightarrow> u8" where
  "allocate_operation_to_u8 AllocateEids = 0"
| "allocate_operation_to_u8 ForceAllocation = 1"
| "allocate_operation_to_u8 GetAllocationInfo = 2"

definition allocate_operation_variants :: "allocate_operation list" where
  "allocate_operation_variants = [AllocateEids, ForceAllocation, GetAllocationInfo]"

definition allocate_operation_from_u8 :: "crates \<Rightarrow> u8 \<Rightarrow> allocate_operation" where
  "allocate_operation_from_u8 C = enum_from C allocate_operation_variants allocate_operation_to_u8 0"

definition allocate_operation_default :: allocate_operation where
  "allocate_operation_default = AllocateEids"

sublocale crates_spec \<subseteq> allocate_operation_enum: u8_enum allocate_operation_to_u8 "allocate_operation_from_u8 C" allocate_operation_variants allocate_operation_default
  unfolding allocate_operation_from_u8_def
proof (rule enum_from_u8_enum)
  show "e \<in> set allocate_operation_variants" for e
    by (cases e) (simp_all add: allocate_operation_variants_def)
qed (simp_all add: allocate_operation_variants_def allocate_operation_default_def)

record allocate_request =
  allocate_req_hdr :: control_msg_header
  allocate_operation_reserved :: bytes
  number_of_eids :: u8
  starting_eid :: u8

definition wf_allocate_request :: "allocate_request \<Rightarrow> bool" where
  "wf_allocate_request x \<longleftrightarrow>
     wf_control_msg_header (allocate_req_hdr x) \<and> length (allocate_operation_reserved x) = 1"

definition allocate_req_operation :: "crates \<Rightarrow> allocate_request \<Rightarrow> u8" where
  "allocate_req_operation C x = bits_get C 0 1 (allocate_operation_reserved x)"

definition set_allocate_req_operation :: "crates \<Rightarrow> u8 \<Rightarrow> allocate_request \<Rightarrow> allocate_request" where
  "set_allocate_req_operation C v x =
     x\<lparr>allocate_operation_reserved := bits_set C 0 1 v (allocate_operation_reserved x)\<rparr>"

definition allocate_request_new ::
  "crates \<Rightarrow> control_msg_header \<Rightarrow> allocate_operation \<Rightarrow> u8 \<Rightarrow> u8 \<Rightarrow> allocate_request" where
  "allocate_request_new C h op n start =
     set_allocate_req_operation C (allocate_operation_to_u8 op)
       \<lparr>allocate_req_hdr = h, allocate_operation_reserved = [0], number_of_eids = n,
        starting_eid = start\<rparr>"

definition allocate_request_ser :: "crates \<Rightarrow> allocate_request \<Rightarrow> bytes" where
  "allocate_request_ser C x =
     control_msg_header_ser C (allocate_req_hdr x) @ put_array C (allocate_operation_reserved x) @
     write_u8 C (number_of_eids x) @ write_u8 C (starting_eid x)"

definition allocate_request_de :: "crates \<Rightarrow> bytes \<Rightarrow> (allocate_request \<times> bytes) option" where
  "allocate_request_de C bs = do {
     (h, r) \<leftarrow> control_msg_header_de C bs;
     (a, r) \<leftarrow> get_array C 1 r;
     (n, r) \<leftarrow> read_u8 C r;
     (s, r) \<leftarrow> read_u8 C r;
     Some (\<lparr>allocate_req_hdr = h, allocate_operation_reserved = a, number_of_eids = n,
            starting_eid = s\<rparr>, r)
   }"

definition allocate_request_size :: nat where
  "allocate_request_size = 6"

sublocale crates_spec \<subseteq> alloc_req: codec "allocate_request_ser C" "allocate_request_de C"
  allocate_request_size wf_allocate_request
  by (rule message_codec [where n = 3 and hd_of = allocate_req_hdr
        and tl_of = "\<lambda>x. allocate_operation_reserved x @ [number_of_eids x, starting_eid x]"
        and mk = "\<lambda>h t. \<lparr>allocate_req_hdr = h, allocate_operation_reserved = [t ! 0],
                          number_of_eids = t ! 1, starting_eid = t ! 2\<rparr>"])
    (auto simp: allocate_request_ser_def allocate_request_de_def wf_allocate_request_def
      codec_simps wire_u8 allocate_request_size_def control_msg_header_size_def
      numeral_eq_Suc length_Suc_conv)

section \<open>Response\<close>

text \<open>\<open>AllocationStatus\<close>.\<close>

datatype allocation_status = AllocationAccepted | AllocationRejected

fun allocation_status_to_u8 :: "allocation_status \<Rightarrow> u8" where
  "allocation_status_to_u8 AllocationAccepted = 0"
| "allocation_status_to_u8 AllocationRejected = 1"

definition allocation_status_variants :: "allocation_status list" where
  "allocation_status_variants = [AllocationAccepted, AllocationRejected]"

definition allocation_status_from_u8 :: "crates \<Rightarrow> u8 \<Rightarrow> allocation_status" where
  "allocation_status_from_u8 C = enum_from C allocation_status_variants allocation_status_to_u8 1"

definition allocation_status_default :: allocation_status where
  "allocation_status_default = AllocationRejected"

sublocale crates_spec \<subseteq> allocation_status_enum: u8_enum allocation_status_to_u8 "allocation_status_from_u8 C" allocation_status_variants allocation_status_default
  unfolding allocation_status_from_u8_def
proof (rule enum_from_u8_enum)
  show "e \<in> set allocation_status_variants" for e
    by (cases e) (simp_all add: allocation_status_variants_def)
qed (simp_all add: allocation_status_variants_def allocation_status_default_def)

record allocate_response =
  allocate_resp_hdr :: control_msg_header
  allocate_resp_completion_code :: u8
  allocation_status_reserved :: bytes
  allocate_resp_pool_size :: u8
  first_eid :: u8

definition wf_allocate_response :: "allocate_response \<Rightarrow> bool" where
  "wf_allocate_response x \<longleftrightarrow>
     wf_control_msg_header (allocate_resp_hdr x) \<and> length (allocation_status_reserved x) = 1"

definition raw_allocation_status :: "crates \<Rightarrow> allocate_response \<Rightarrow> u8" where
  "raw_allocation_status C x = bits_get C 0 1 (allocation_status_reserved x)"

definition set_raw_allocation_status :: "crates \<Rightarrow> u8 \<Rightarrow> allocate_response \<Rightarrow> allocate_response" where
  "set_raw_allocation_status C v x =
     x\<lparr>allocation_status_reserved := bits_set C 0 1 v (allocation_status_reserved x)\<rparr>"

definition allocate_response_new ::
  "crates \<Rightarrow> control_msg_header \<Rightarrow> u8 \<Rightarrow> allocation_status \<Rightarrow> u8 \<Rightarrow> u8 \<Rightarrow> allocate_response" where
  "allocate_response_new C h cc st pool first =
     set_raw_allocation_status C (allocation_status_to_u8 st)
       \<lparr>allocate_resp_hdr = h, allocate_resp_completion_code = cc,
        allocation_status_reserved = [0], allocate_resp_pool_size = pool, first_eid = first\<rparr>"

definition allocate_response_from ::
  "crates \<Rightarrow> allocate_request \<Rightarrow> u8 \<Rightarrow> allocation_status \<Rightarrow> u8 \<Rightarrow> u8 \<Rightarrow> allocate_response" where
  "allocate_response_from C req cc st pool first =
     (let h = allocate_req_hdr req; h = set_rq C 0 h
      in allocate_response_new C h cc st pool first)"

text \<open>The method \<open>allocation_status()\<close>.\<close>

definition allocate_resp_allocation_status :: "crates \<Rightarrow> allocate_response \<Rightarrow> allocation_status" where
  "allocate_resp_allocation_status C x = allocation_status_from_u8 C (raw_allocation_status C x)"

definition allocate_response_ser :: "crates \<Rightarrow> allocate_response \<Rightarrow> bytes" where
  "allocate_response_ser C x =
     control_msg_header_ser C (allocate_resp_hdr x) @ write_u8 C (allocate_resp_completion_code x) @
     put_array C (allocation_status_reserved x) @ write_u8 C (allocate_resp_pool_size x) @
     write_u8 C (first_eid x)"

definition allocate_response_de :: "crates \<Rightarrow> bytes \<Rightarrow> (allocate_response \<times> bytes) option" where
  "allocate_response_de C bs = do {
     (h, r) \<leftarrow> control_msg_header_de C bs;
     (c, r) \<leftarrow> read_u8 C r;
     (a, r) \<leftarrow> get_array C 1 r;
     (p, r) \<leftarrow> read_u8 C r;
     (f, r) \<leftarrow> read_u8 C r;
     Some (\<lparr>allocate_resp_hdr = h, allocate_resp_completion_code = c,
            allocation_status_reserved = a, allocate_resp_pool_size = p, first_eid = f\<rparr>, r)
   }"

definition allocate_response_size :: nat where
  "allocate_response_size = 7"

definition allocate_response_try_from ::
  "crates \<Rightarrow> bytes \<Rightarrow> (mctp_base_lib_error, allocate_response) res" where
  "allocate_response_try_from C =
     from_control_payload_try_from C allocate_response_size (allocate_response_de C)"

sublocale crates_spec \<subseteq> alloc_resp: codec "allocate_response_ser C" "allocate_response_de C"
  allocate_response_size wf_allocate_response
  by (rule message_codec [where n = 4 and hd_of = allocate_resp_hdr
        and tl_of = "\<lambda>x. allocate_resp_completion_code x # allocation_status_reserved x @
               [allocate_resp_pool_size x, first_eid x]"
        and mk = "\<lambda>h t. \<lparr>allocate_resp_hdr = h, allocate_resp_completion_code = t ! 0,
               allocation_status_reserved = [t ! 1], allocate_resp_pool_size = t ! 2,
               first_eid = t ! 3\<rparr>"])
    (auto simp: allocate_response_ser_def allocate_response_de_def wf_allocate_response_def
      codec_simps wire_u8 allocate_response_size_def control_msg_header_size_def
      numeral_eq_Suc length_Suc_conv)

section \<open>What the fields are\<close>

context crates_spec
begin

lemma allocate_request_fields [header_simps]:
  "allocate_req_hdr (allocate_request_new C h op n s) = h"
  "number_of_eids (allocate_request_new C h op n s) = n"
  "starting_eid (allocate_request_new C h op n s) = s"
  "allocate_req_operation C (allocate_request_new C h op n s) = allocate_operation_to_u8 op"
  "wf_control_msg_header h \<Longrightarrow> wf_allocate_request (allocate_request_new C h op n s)"
  by (cases op; simp add: allocate_request_new_def set_allocate_req_operation_def
      allocate_req_operation_def wf_allocate_request_def set_length get_set_same)+

lemma allocate_response_fields [header_simps]:
  "allocate_resp_hdr (allocate_response_new C h cc st p f) = h"
  "allocate_resp_completion_code (allocate_response_new C h cc st p f) = cc"
  "allocate_resp_pool_size (allocate_response_new C h cc st p f) = p"
  "first_eid (allocate_response_new C h cc st p f) = f"
  "raw_allocation_status C (allocate_response_new C h cc st p f) = allocation_status_to_u8 st"
  "wf_control_msg_header h \<Longrightarrow> wf_allocate_response (allocate_response_new C h cc st p f)"
  by (cases st; simp add: allocate_response_new_def set_raw_allocation_status_def
      raw_allocation_status_def wf_allocate_response_def set_length get_set_same)+

lemma allocate_response_status [header_simps]:
  "allocate_resp_allocation_status C (allocate_response_new C h cc st p f) = st"
  by (simp add: allocate_resp_allocation_status_def allocate_response_fields
      allocation_status_enum.from_to)

end

section \<open>Properties\<close>

context crates_spec
begin

lemma allocate_wire:
  assumes "wf_control_msg_header h" "q = allocate_request_new C h op n s"
    "x = allocate_response_from C q cc st p f"
  shows "from_binary_try_from C allocate_request_size (allocate_request_de C) (allocate_request_ser C q @ r) = Ok q \<and>
    allocate_operation_from_u8 C (allocate_req_operation C q) = op \<and> number_of_eids q = n \<and> starting_eid q = s \<and>
    allocate_response_try_from C (allocate_response_ser C x @ r) = Ok x \<and>
    allocate_resp_completion_code x = cc \<and>
    allocate_resp_allocation_status C x = st \<and> allocate_resp_pool_size x = p \<and> first_eid x = f \<and>
    allocate_resp_hdr x = set_rq C 0 h"
proof -
  have wq: "wf_allocate_request q" using assms by (simp add: header_simps)
  have wx: "wf_allocate_response x" using assms by (simp add: allocate_response_from_def header_simps)
  show ?thesis
    using alloc_req.try_from_enc [OF wq] alloc_resp.try_from_enc [OF wx]
      allocate_operation_enum.from_to [of op]
    by (simp add: allocate_response_try_from_def control_payload_eq_binary
        assms(2,3) allocate_response_from_def header_simps)
qed

end

text \<open>
  An Allocate Endpoint IDs request decodes to the operation, the
  number of identifiers and the first identifier it was built with; the response made from it
  decodes to its completion code, allocation status, pool size and first identifier, under
  the header of the request with its request bit cleared.
\<close>

theorem allocate_eids_roundtrip:
  assumes "crates_spec C" "wf_control_msg_header h" "q = allocate_request_new C h op n s"
    "x = allocate_response_from C q cc st p f"
  shows "from_binary_try_from C allocate_request_size (allocate_request_de C) (allocate_request_ser C q @ r) = Ok q \<and>
    allocate_operation_from_u8 C (allocate_req_operation C q) = op \<and> number_of_eids q = n \<and> starting_eid q = s \<and>
    allocate_response_try_from C (allocate_response_ser C x @ r) = Ok x \<and>
    allocate_resp_completion_code x = cc \<and>
    allocate_resp_allocation_status C x = st \<and> allocate_resp_pool_size x = p \<and> first_eid x = f \<and>
    allocate_resp_hdr x = set_rq C 0 h"
  by (rule crates_spec.allocate_wire [OF assms])

theorem allocate_eids_roundtrip_witness:
  "allocate_resp_allocation_status std_crates (allocate_response_from std_crates
     (allocate_request_new std_crates (control_msg_header_new std_crates AllocateEndpointIDs 1 False True False) ForceAllocation 4 0x81)
     0 AllocationRejected 4 0x81) = AllocationRejected"
  using allocate_eids_roundtrip [OF std_crates_spec std.control_new_wf refl refl,
      of AllocateEndpointIDs 1 False True False ForceAllocation 4 "0x81" "[]" 0 AllocationRejected 4 "0x81"]
  by simp

end
