(* ===== verification/RoutingTable.thy ===== *)
theory RoutingTable
  imports Payload
begin

text \<open>
  The Get Routing Table Entries messages of
  \<open>mctp-base-lib/src/control/get_routing_table.rs\<close>.
\<close>

record routing_table_request =
  routing_req_hdr :: control_msg_header
  entry_handle :: u8

definition routing_table_request_new :: "control_msg_header \<Rightarrow> u8 \<Rightarrow> routing_table_request" where
  "routing_table_request_new h e = \<lparr>routing_req_hdr = h, entry_handle = e\<rparr>"

definition wf_routing_table_request :: "routing_table_request \<Rightarrow> bool" where
  "wf_routing_table_request x \<longleftrightarrow> wf_control_msg_header (routing_req_hdr x)"

definition routing_table_request_ser :: "crates \<Rightarrow> routing_table_request \<Rightarrow> bytes" where
  "routing_table_request_ser C x =
     control_msg_header_ser C (routing_req_hdr x) @ write_u8 C (entry_handle x)"

definition routing_table_request_de :: "crates \<Rightarrow> bytes \<Rightarrow> (routing_table_request \<times> bytes) option" where
  "routing_table_request_de C bs = do {
     (h, r) \<leftarrow> control_msg_header_de C bs;
     (e, r) \<leftarrow> read_u8 C r;
     Some (\<lparr>routing_req_hdr = h, entry_handle = e\<rparr>, r)
   }"

definition routing_table_request_size :: nat where
  "routing_table_request_size = 4"

record routing_table_response =
  routing_resp_hdr :: control_msg_header
  routing_resp_completion_code :: u8
  next_entry_handle :: u8
  entries_in_response :: u8

definition routing_table_response_new ::
  "control_msg_header \<Rightarrow> u8 \<Rightarrow> u8 \<Rightarrow> u8 \<Rightarrow> routing_table_response" where
  "routing_table_response_new h cc nxt n =
     \<lparr>routing_resp_hdr = h, routing_resp_completion_code = cc, next_entry_handle = nxt,
      entries_in_response = n\<rparr>"

definition routing_table_response_from ::
  "crates \<Rightarrow> routing_table_request \<Rightarrow> completion_code \<Rightarrow> u8 \<Rightarrow> u8 \<Rightarrow> routing_table_response" where
  "routing_table_response_from C req cc nxt n =
     (let h = routing_req_hdr req; h = set_rq C 0 h
      in routing_table_response_new h (completion_code_to_u8 cc) nxt n)"

definition wf_routing_table_response :: "routing_table_response \<Rightarrow> bool" where
  "wf_routing_table_response x \<longleftrightarrow> wf_control_msg_header (routing_resp_hdr x)"

definition routing_table_response_ser :: "crates \<Rightarrow> routing_table_response \<Rightarrow> bytes" where
  "routing_table_response_ser C x =
     control_msg_header_ser C (routing_resp_hdr x) @ write_u8 C (routing_resp_completion_code x) @
     write_u8 C (next_entry_handle x) @ write_u8 C (entries_in_response x)"

definition routing_table_response_de :: "crates \<Rightarrow> bytes \<Rightarrow> (routing_table_response \<times> bytes) option" where
  "routing_table_response_de C bs = do {
     (h, r) \<leftarrow> control_msg_header_de C bs;
     (c, r) \<leftarrow> read_u8 C r;
     (x, r) \<leftarrow> read_u8 C r;
     (n, r) \<leftarrow> read_u8 C r;
     Some (\<lparr>routing_resp_hdr = h, routing_resp_completion_code = c, next_entry_handle = x,
            entries_in_response = n\<rparr>, r)
   }"

definition routing_table_response_size :: nat where
  "routing_table_response_size = 6"

sublocale crates_spec \<subseteq> rt_req: codec "routing_table_request_ser C" "routing_table_request_de C"
  routing_table_request_size wf_routing_table_request
  by (rule message_codec [where n = 1 and hd_of = routing_req_hdr
        and tl_of = "\<lambda>x. [entry_handle x]"
        and mk = "\<lambda>h t. \<lparr>routing_req_hdr = h, entry_handle = hd t\<rparr>"])
    (auto simp: routing_table_request_ser_def routing_table_request_de_def wire_u8
      wf_routing_table_request_def routing_table_request_size_def control_msg_header_size_def
      length_Suc_conv)

sublocale crates_spec \<subseteq> rt_resp: codec "routing_table_response_ser C" "routing_table_response_de C"
  routing_table_response_size wf_routing_table_response
  by (rule message_codec [where n = 3 and hd_of = routing_resp_hdr
        and tl_of = "\<lambda>x. [routing_resp_completion_code x, next_entry_handle x, entries_in_response x]"
        and mk = "\<lambda>h t. \<lparr>routing_resp_hdr = h, routing_resp_completion_code = t ! 0,
                          next_entry_handle = t ! 1, entries_in_response = t ! 2\<rparr>"])
    (auto simp: routing_table_response_ser_def routing_table_response_de_def wire_u8
      wf_routing_table_response_def routing_table_response_size_def control_msg_header_size_def
      numeral_eq_Suc length_Suc_conv)

end
