(* ===== verification/BusOwner.thy ===== *)
theory BusOwner
  imports SetEid GetEid AllocateEids RoutingTable Flows
begin

text \<open>
  The bus owner of \<open>examples/basic_bus_owner_loop.rs\<close>: the endpoint, how it answers control
  requests (\<open>handle_request\<close>), and the task of \<open>main\<close> that dispatches received datagrams to
  the waiting requests or to the request handler.
\<close>

section \<open>The endpoint\<close>

record mctp_endpoint_context =
  smbus_addr :: u8
  msg_types :: "u8 list"
  topmost_bus_owner :: bool
  assigned_eid :: u8
  perform_discovery :: bool
  min_eid_in_pool :: u8
  eid_pool_size :: u8
  next_msg_tag :: u8
  next_instance_id :: u8

text \<open>The endpoint \<open>main\<close> sets up.\<close>

definition main_context :: mctp_endpoint_context where
  "main_context =
     \<lparr>smbus_addr = 0x10, msg_types = [0x7E], topmost_bus_owner = False, assigned_eid = 0,
      perform_discovery = False, min_eid_in_pool = 0x80, eid_pool_size = 32,
      next_msg_tag = 1, next_instance_id = 1\<rparr>"

section \<open>Answering requests\<close>

text \<open>\<open>payload.create_response_payload(resp.hdr, resp.into())\<close>, as bytes.\<close>

definition response_bytes :: "crates \<Rightarrow> control_payload \<Rightarrow> control_msg_header \<Rightarrow> bytes \<Rightarrow> bytes" where
  "response_bytes C p ch body = control_payload_to_bytes C (create_response_payload C p ch body)"

definition handle_set_endpoint_id ::
  "crates \<Rightarrow> mctp_endpoint_context \<Rightarrow> control_payload \<Rightarrow> (anyhow, bytes) res \<times> mctp_endpoint_context" where
  "handle_set_endpoint_id C ctx p =
     (case with_context ''Failed parsing SetEndpointID msg''
             (try_from_control_payload C set_eid_request_size (set_eid_request_de C) p) of
        Ok req \<Rightarrow>
          (let ctx = ctx\<lparr>assigned_eid := set_eid_req_eid req\<rparr>;
               resp = set_eid_response_from C req Success NoPoolSupport Accepted (assigned_eid ctx) 0
           in (Ok (response_bytes C p (set_eid_resp_hdr resp) (set_eid_response_ser C resp)), ctx))
      | Err e \<Rightarrow> (Err e, ctx)
      | Panic m \<Rightarrow> (Panic m, ctx))"

definition handle_get_endpoint_id :: "crates \<Rightarrow> control_payload \<Rightarrow> (anyhow, bytes) res" where
  "handle_get_endpoint_id C p =
     res_bind (with_context ''Failed parsing GetEid msg''
       (try_from_control_payload C get_eid_request_size (get_eid_request_de C) p)) (\<lambda>req.
     let resp = get_eid_response_from C req Success 0 Dynamic Simple 0
     in Ok (response_bytes C p (get_eid_resp_hdr resp) (get_eid_response_ser C resp)))"

definition handle_empty :: "crates \<Rightarrow> completion_code \<Rightarrow> control_payload \<Rightarrow> (anyhow, bytes) res" where
  "handle_empty C cc p =
     res_bind (with_context ''Failed parsing GetEid msg''
       (try_from_control_payload C empty_request_size (empty_request_de C) p)) (\<lambda>req.
     let resp = empty_response_from C req cc
     in Ok (response_bytes C p (empty_response_hdr resp) (empty_response_ser C resp)))"

definition handle_routing_table :: "crates \<Rightarrow> control_payload \<Rightarrow> (anyhow, bytes) res" where
  "handle_routing_table C p =
     res_bind (with_context ''Failed parsing GetRoutingTable msg''
       (try_from_control_payload C routing_table_request_size (routing_table_request_de C) p)) (\<lambda>req.
     let resp = routing_table_response_from C req Success 0xff 0
     in Ok (response_bytes C p (routing_resp_hdr resp) (routing_table_response_ser C resp)))"

definition handle_request ::
  "crates \<Rightarrow> mctp_endpoint_context \<Rightarrow> bytes \<Rightarrow> (anyhow, bytes) res \<times> mctp_endpoint_context" where
  "handle_request C ctx bs =
     (case with_context ''Failed parsing payload'' (control_payload_try_from C bs) of
        Err e \<Rightarrow> (Err e, ctx)
      | Panic m \<Rightarrow> (Panic m, ctx)
      | Ok p \<Rightarrow>
          (case payload_command_code p of
             Ok SetEndpointID \<Rightarrow> handle_set_endpoint_id C ctx p
           | Ok GetEndpointID \<Rightarrow> (handle_get_endpoint_id C p, ctx)
           | Ok DiscoveryNotify \<Rightarrow>
               (let r = handle_empty C Success p
                in (r, if is_ok r then ctx\<lparr>perform_discovery := True\<rparr> else ctx))
           | Ok GetRoutingTableEntries \<Rightarrow> (handle_routing_table C p, ctx)
           | Ok _ \<Rightarrow> (handle_empty C ErrorUnsupportedCmd p, ctx)
           | Err _ \<Rightarrow> (Panic ''not yet implemented'', ctx)
           | Panic m \<Rightarrow> (Panic m, ctx)))"

section \<open>The dispatcher of main\<close>

text \<open>The addresses \<open>main\<close> uses, and the frame \<open>send_cmd_closure\<close> builds.\<close>

definition SMBUS_ADDR_7BIT :: u8 where "SMBUS_ADDR_7BIT = 0x10"
definition DEST_SMBUS_ADDR_7BIT :: u8 where "DEST_SMBUS_ADDR_7BIT = drop_bit 1 0x60"

definition bus_owner_frame :: "crates \<Rightarrow> bool \<Rightarrow> bytes \<Rightarrow> (anyhow, bytes) res" where
  "bus_owner_frame C chk buf =
     res_bind (add_u chk (word_of_nat (length buf)) 1) (\<lambda>count.
       let resp_buf = [push_bit 1 DEST_SMBUS_ADDR_7BIT, 0x0f, count,
                       push_bit 1 SMBUS_ADDR_7BIT OR 1] @ buf
       in Ok (resp_buf @ [pec C resp_buf]))"

text \<open>The closure \<open>create_tag\<close> of \<open>main\<close>: the same code as the function of \<open>simple_network.rs\<close>.\<close>

definition main_create_tag :: "crates \<Rightarrow> bytes \<Rightarrow> msg_flow_tag option" where
  "main_create_tag C bs =
     (if length bs < 4 then Some msg_flow_tag_default
      else case transport_header_try_from C bs of
             Ok h \<Rightarrow>
               Some \<lparr>flow_dest_eid = destination_eid h, flow_src_eid = source_eid h,
                     flow_msg_tag = msg_tag C h, flow_tag_owner = (tag_owner C h \<noteq> 0)\<rparr>
           | _ \<Rightarrow> None)"

lemma main_create_tag [simp]: "main_create_tag C = create_tag C"
  by (rule ext) (simp add: main_create_tag_def create_tag_def header_tag_def split: res.split)

datatype transport_command =
    ReceiveMsg bytes
  | SendMsg message_type bytes "nat option"

text \<open>
  What the dispatcher does with a command: nothing, complete a waiting request, or put a
  frame on the socket. It owns the table of pending commands and shares the endpoint.
\<close>

datatype dispatch = Ignored | Completed nat bytes | Framed bytes | NotHandled anyhow

definition send_cmd ::
  "crates \<Rightarrow> bool \<Rightarrow> bytes \<Rightarrow> nat option \<Rightarrow> nat mctp_flow_list \<Rightarrow> (anyhow, dispatch) res \<times> nat mctp_flow_list" where
  "send_cmd C chk buf resp pending =
     (let frame = res_bind (bus_owner_frame C chk buf) (\<lambda>f. Ok (Framed f))
      in (case resp of
            None \<Rightarrow> (frame, pending)
          | Some ch \<Rightarrow>
              (case main_create_tag C buf of
                 None \<Rightarrow> (Ok Ignored, pending)
               | Some tag \<Rightarrow> (frame, flow_push tag ch pending))))"

definition receive_msg ::
  "crates \<Rightarrow> bool \<Rightarrow> bytes \<Rightarrow> nat mctp_flow_list \<Rightarrow> mctp_endpoint_context
    \<Rightarrow> (anyhow, dispatch) res \<times> nat mctp_flow_list \<times> mctp_endpoint_context" where
  "receive_msg C chk buf pending c =
     (if length buf < 4 \<or> buf ! 1 \<noteq> 0x0f then (Ok Ignored, pending, c)
      else
        (let resp_buf = drop 4 buf
         in (case main_create_tag C resp_buf of
               None \<Rightarrow> (Ok Ignored, pending, c)
             | Some recv_tag \<Rightarrow>
                 (case flow_take recv_tag pending of
                    Some ((_, ch), rest) \<Rightarrow> (Ok (Completed ch resp_buf), rest, c)
                  | None \<Rightarrow>
                      (case handle_request C c resp_buf of
                         (Ok resp, c') \<Rightarrow>
                           (let (r, pending') = send_cmd C chk resp None pending in (r, pending', c'))
                       | (Err e, c') \<Rightarrow> (Ok (NotHandled e), pending, c')
                       | (Panic m, c') \<Rightarrow> (Panic m, pending, c'))))))"

definition dispatch_command ::
  "crates \<Rightarrow> bool \<Rightarrow> transport_command \<Rightarrow> nat mctp_flow_list \<Rightarrow> mctp_endpoint_context
    \<Rightarrow> (anyhow, dispatch) res \<times> nat mctp_flow_list \<times> mctp_endpoint_context" where
  "dispatch_command C chk cmd pending c =
     (case cmd of
        ReceiveMsg buf \<Rightarrow> receive_msg C chk buf pending c
      | SendMsg mt buf resp \<Rightarrow>
          (let (r, pending') = send_cmd C chk buf resp pending in (r, pending', c)))"

end
