(* ===== verification/BusLoop.thy ===== *)
theory BusLoop
  imports BusOwner
begin

text \<open>
  The discovery loop of \<open>examples/basic_bus_owner_loop.rs\<close> (\<open>run_bus_owner_loop\<close> and the
  functions it calls). The loop waits for the rest of the program only inside
  \<open>send_and_decode\<close> and in its sleep, so its code is a \<open>loop_task\<close>: a result, or a request with a
  continuation that takes the outcome of the exchange. \<open>perform\<close> runs one by itself in a
  world that answers its requests; \<open>BusRun\<close> runs it beside the other tasks of \<open>main\<close>.
\<close>

section \<open>Tasks\<close>

text \<open>The requests of the loop.\<close>

datatype loop_request = LoopGetEid u8 | LoopSetEid u8 | LoopAllocate u8 u8

text \<open>
  How an exchange with the dispatcher ends: the command channel is closed, the reply channel
  is closed, or a reply comes, itself a result.
\<close>

datatype exchange = SendFailed anyhow | RecvFailed anyhow | Replied "io_error + bytes"

datatype 'a loop_task = Done "(anyhow, 'a) res" | Ask loop_request "exchange \<Rightarrow> 'a loop_task"

primrec task_bind :: "'a loop_task \<Rightarrow> ('a \<Rightarrow> 'b loop_task) \<Rightarrow> 'b loop_task" where
  "task_bind (Done r) f = (case r of Ok x \<Rightarrow> f x | Err e \<Rightarrow> Done (Err e) | Panic p \<Rightarrow> Done (Panic p))"
| "task_bind (Ask q k) f = Ask q (\<lambda>x. task_bind (k x) f)"

primrec task_result :: "((anyhow, 'a) res \<Rightarrow> (anyhow, 'b) res) \<Rightarrow> 'a loop_task \<Rightarrow> 'b loop_task" where
  "task_result g (Done r) = Done (g r)"
| "task_result g (Ask q k) = Ask q (\<lambda>x. task_result g (k x))"

abbreviation task_return :: "'a \<Rightarrow> 'a loop_task" where
  "task_return x \<equiv> Done (Ok x)"

definition task_context :: "string \<Rightarrow> 'a loop_task \<Rightarrow> 'a loop_task" where
  "task_context msg = task_result (map_err (any_context msg))"

text \<open>\<open>unwrap\<close> of a result.\<close>

definition res_unwrap :: "(anyhow, 'a) res \<Rightarrow> (anyhow, 'a) res" where
  "res_unwrap r = (case r of Err e \<Rightarrow> Panic ''called Result::unwrap on an Err value'' | _ \<Rightarrow> r)"

definition task_unwrap :: "'a loop_task \<Rightarrow> 'a loop_task" where
  "task_unwrap = task_result res_unwrap"

lemma task_bind_assoc: "task_bind (task_bind t f) g = task_bind t (\<lambda>x. task_bind (f x) g)"
  by (induction t) (auto split: res.splits)

section \<open>The requests\<close>

text \<open>
  The texts the errors of the loop end in, which the sources leave to third-party code: the
  \<open>Debug\<close> renderings of two responses, and the errors of the two kinds of channels.
\<close>

record loop_texts =
  debug_set_eid :: "set_eid_response \<Rightarrow> string"
  debug_allocate :: "allocate_response \<Rightarrow> string"
  send_error :: anyhow
  recv_error :: anyhow

text \<open>
  \<open>send_and_decode\<close> gets the bytes of the request; here it gets the request, and whoever runs
  the task builds its bytes with the counters of the endpoint (\<open>loop_request_bytes\<close>): the code
  has no \<open>await\<close> between the two.
\<close>

definition send_and_decode ::
  "crates \<Rightarrow> (bytes \<Rightarrow> (mctp_base_lib_error, 'a) res) \<Rightarrow> loop_request \<Rightarrow> (control_payload \<times> 'a) loop_task" where
  "send_and_decode C conv q =
     Ask q (\<lambda>x. Done (case x of
         SendFailed e \<Rightarrow> Err (any_context ''Failed sending GetEid cmd'' e)
       | RecvFailed e \<Rightarrow> Err (any_context ''Failed waiting for result'' e)
       | Replied (Inl e) \<Rightarrow> Panic (''called Result::unwrap on an Err value: '' @ e)
       | Replied (Inr b) \<Rightarrow> try_to_response C conv b))"

definition send_set_eid_request :: "crates \<Rightarrow> u8 \<Rightarrow> set_eid_response loop_task" where
  "send_set_eid_request C eid =
     task_bind (task_context ''Failed sending SetEid request''
       (send_and_decode C (set_eid_response_try_from C) (LoopSetEid eid))) (\<lambda>r. task_return (snd r))"

definition send_get_eid_request :: "crates \<Rightarrow> u8 \<Rightarrow> get_eid_response loop_task" where
  "send_get_eid_request C dest_eid =
     task_bind (task_context ''Failed sending GetEid request''
       (send_and_decode C (get_eid_response_try_from C) (LoopGetEid dest_eid))) (\<lambda>r. task_return (snd r))"

definition send_allocate_eids_request :: "crates \<Rightarrow> u8 \<Rightarrow> u8 \<Rightarrow> allocate_response loop_task" where
  "send_allocate_eids_request C start count =
     task_bind (task_context ''Failed sending GetEid request''
       (send_and_decode C (allocate_response_try_from C) (LoopAllocate start count))) (\<lambda>r. task_return (snd r))"

section \<open>The discovery loop\<close>

record endpoint_context =
  ep_eid :: u8
  ep_endpoint_type :: endpoint_type
  ep_eid_type :: eid_type
  ep_eid_allocation_status :: eid_allocation_status
  min_dynamic_eid :: u8
  max_dynamic_eid :: u8
  dynamic_eid_pool_size :: u8

text \<open>Reserve the identifiers behind \<open>next_eid\<close> for a bridge that asks for a pool.\<close>

definition reserve_pool ::
  "bool \<Rightarrow> u8 \<Rightarrow> endpoint_context \<Rightarrow> set_eid_response \<Rightarrow> (anyhow, u8 \<times> endpoint_context) res" where
  "reserve_pool chk next_eid endpoint resp =
     (let pool_size = set_eid_resp_pool_size resp
      in if ep_endpoint_type endpoint = BusOwnerOrBridge \<and>
            ep_eid_allocation_status endpoint = RequiresPoolAllocation \<and> pool_size > 0
         then res_bind (add_u chk next_eid pool_size) (\<lambda>past.
              res_bind (sub_u chk past 1) (\<lambda>max_eid.
              res_bind (add_u chk next_eid pool_size) (\<lambda>next_eid'.
                Ok (next_eid',
                  endpoint\<lparr>min_dynamic_eid := next_eid, max_dynamic_eid := max_eid,
                           dynamic_eid_pool_size := pool_size\<rparr>))))
         else Ok (next_eid, endpoint))"

text \<open>
  Step 2 of a discovery: assign the next identifier to a dynamic endpoint. Returns the next
  free identifier.
\<close>

definition assign_eid ::
  "crates \<Rightarrow> loop_texts \<Rightarrow> bool \<Rightarrow> u8 \<Rightarrow> endpoint_context \<Rightarrow> (u8 \<times> endpoint_context) loop_task" where
  "assign_eid C D chk next_eid endpoint =
     (let eid = next_eid
      in task_bind (Done (add_u chk next_eid 1)) (\<lambda>next_eid.
         task_bind (task_context ''SetEid request failed'' (send_set_eid_request C eid)) (\<lambda>resp.
         task_bind (Done (response_is_success C (set_eid_resp_completion_code resp))) (\<lambda>_.
           let endpoint = endpoint\<lparr>ep_eid_allocation_status := set_eid_resp_allocation_status C resp\<rparr>
           in if eid_assignment_status_bits C resp \<noteq> 0
              then Done (Err [''EID assignment was rejected: '' @ debug_set_eid D resp])
              else Done (reserve_pool chk next_eid endpoint resp)))))"

text \<open>Step 3: hand the pool to the bridge.\<close>

definition allocate_pool :: "crates \<Rightarrow> loop_texts \<Rightarrow> endpoint_context \<Rightarrow> unit loop_task" where
  "allocate_pool C D endpoint =
     (if min_dynamic_eid endpoint \<noteq> max_dynamic_eid endpoint
      then task_bind (task_context ''AllocateEid request failed''
             (send_allocate_eids_request C (min_dynamic_eid endpoint) (dynamic_eid_pool_size endpoint))) (\<lambda>resp.
           task_bind (Done (response_is_success C (allocate_resp_completion_code resp))) (\<lambda>_.
             if allocate_resp_allocation_status C resp \<noteq> AllocationAccepted
             then Done (Err [''EID pool allocation was rejected: '' @ debug_allocate D resp])
             else task_return ()))
      else task_return ())"

definition discover :: "crates \<Rightarrow> loop_texts \<Rightarrow> bool \<Rightarrow> u8 \<Rightarrow> u8 loop_task" where
  "discover C D chk next_eid =
     task_bind (task_context ''GetEid request failed'' (send_get_eid_request C 0)) (\<lambda>resp.
     task_bind (task_context ''GetEID Response is non-successful''
       (Done (response_is_success C (get_eid_resp_completion_code resp)))) (\<lambda>_.
       let endpoint = \<lparr>ep_eid = get_eid_resp_eid resp,
             ep_endpoint_type = endpoint_type_from_u8 C (get_eid_resp_endpoint_type C resp),
             ep_eid_type = eid_type_from_u8 C (get_eid_resp_eid_type C resp),
             ep_eid_allocation_status = NoPoolSupport,
             min_dynamic_eid = 0, max_dynamic_eid = 0, dynamic_eid_pool_size = 0\<rparr>
       in task_bind (if ep_eid_type endpoint = Dynamic then assign_eid C D chk next_eid endpoint
                     else task_return (next_eid, endpoint)) (\<lambda>(next_eid, endpoint).
          task_bind (allocate_pool C D endpoint) (\<lambda>_. task_return next_eid))))"

text \<open>A turn without discovery, after the sleep: ping the endpoint if there is one to ping.\<close>

definition idle_turn :: "crates \<Rightarrow> u8 \<Rightarrow> u8 \<Rightarrow> u8 loop_task" where
  "idle_turn C ping_eid next_eid =
     (if ping_eid \<noteq> 0
      then task_bind (task_unwrap (task_context ''GetEid request failed'' (send_get_eid_request C ping_eid))) (\<lambda>resp.
           task_bind (task_unwrap (task_context ''GetEID Response is non-successful''
             (Done (response_is_success C (get_eid_resp_completion_code resp))))) (\<lambda>_.
           task_return next_eid))
      else task_return next_eid)"

section \<open>The loop by itself\<close>

text \<open>
  The world outside the loop: for every request, given the requests sent before it, the
  requests of others the endpoint answers before it is built and while the loop waits, and how
  the exchange ends; for every turn the requests it answers before the flag is taken, and for a
  turn without discovery those it answers while the loop sleeps.
\<close>

record bus_env =
  before_env :: "bytes list \<Rightarrow> bytes list"
  exchange_env :: "bytes list \<Rightarrow> bytes \<Rightarrow> bytes list \<times> exchange"
  top_env :: "nat \<Rightarrow> bytes list"
  idle_env :: "nat \<Rightarrow> bytes list"

record bus_owner =
  ctx :: mctp_endpoint_context
  sent :: "bytes list"

type_synonym 'a act = "bus_owner \<Rightarrow> (anyhow, 'a) res \<times> bus_owner"

definition act_bind :: "'a act \<Rightarrow> ('a \<Rightarrow> 'b act) \<Rightarrow> 'b act" where
  "act_bind m f s =
     (case m s of
        (Ok x, s') \<Rightarrow> f x s'
      | (Err e, s') \<Rightarrow> (Err e, s')
      | (Panic p, s') \<Rightarrow> (Panic p, s'))"

definition act_lift :: "(anyhow, 'a) res \<Rightarrow> 'a act" where
  "act_lift r s = (r, s)"

definition answer_others :: "crates \<Rightarrow> bytes list \<Rightarrow> bus_owner \<Rightarrow> bus_owner" where
  "answer_others C reqs s = s\<lparr>ctx := fold (\<lambda>bs c. snd (handle_request C c bs)) reqs (ctx s)\<rparr>"

text \<open>\<open>fetch_add\<close> returns the old value and wraps around.\<close>

definition new_transport_hdr :: "crates \<Rightarrow> u8 \<Rightarrow> transport_header act" where
  "new_transport_hdr C dst s =
     (let c = ctx s
      in (Ok (transport_header_new C (assigned_eid c) dst (next_msg_tag c) (Some True) (Some True) (Some True)),
          s\<lparr>ctx := c\<lparr>next_msg_tag := next_msg_tag c + 1\<rparr>\<rparr>))"

definition next_ctrl_hdr :: "crates \<Rightarrow> command_code \<Rightarrow> control_msg_header act" where
  "next_ctrl_hdr C code s =
     (let c = ctx s
      in (Ok (control_msg_header_new C code (next_instance_id c) False True False),
          s\<lparr>ctx := c\<lparr>next_instance_id := next_instance_id c + 1\<rparr>\<rparr>))"

definition request_bytes :: "crates \<Rightarrow> transport_header \<Rightarrow> control_msg_header \<Rightarrow> bytes \<Rightarrow> bytes" where
  "request_bytes C h ch body = control_payload_to_bytes C (control_payload_new h ch body)"

definition loop_request_bytes :: "crates \<Rightarrow> loop_request \<Rightarrow> bytes act" where
  "loop_request_bytes C r =
     (case r of
        LoopGetEid dest_eid \<Rightarrow>
          act_bind (new_transport_hdr C dest_eid) (\<lambda>h. act_bind (next_ctrl_hdr C GetEndpointID) (\<lambda>ch.
            act_lift (Ok (request_bytes C h ch (get_eid_request_ser C \<lparr>get_eid_req_hdr = ch\<rparr>)))))
      | LoopSetEid eid \<Rightarrow>
          act_bind (new_transport_hdr C 0) (\<lambda>h. act_bind (next_ctrl_hdr C SetEndpointID) (\<lambda>ch.
            act_lift (Ok (request_bytes C h ch
              (set_eid_request_ser C (set_eid_request_new C ch SetEid eid))))))
      | LoopAllocate start count \<Rightarrow>
          act_bind (new_transport_hdr C 0) (\<lambda>h. act_bind (next_ctrl_hdr C AllocateEndpointIDs) (\<lambda>ch.
            act_lift (Ok (request_bytes C h ch
              (allocate_request_ser C (allocate_request_new C ch AllocateEids count start)))))))"

text \<open>A request is on the way, and requests of others are answered, unless the channel is closed.\<close>

definition exchanged :: "crates \<Rightarrow> bytes \<Rightarrow> bytes list \<Rightarrow> exchange \<Rightarrow> bus_owner \<Rightarrow> bus_owner" where
  "exchanged C bs others x s =
     (case x of SendFailed e \<Rightarrow> s | _ \<Rightarrow> answer_others C others (s\<lparr>sent := sent s @ [bs]\<rparr>))"

primrec perform :: "crates \<Rightarrow> bus_env \<Rightarrow> 'a loop_task \<Rightarrow> 'a act" where
  "perform C E (Done r) = act_lift r"
| "perform C E (Ask q k) =
     (\<lambda>s. act_bind (loop_request_bytes C q) (\<lambda>bs s.
       case exchange_env E (sent s) bs of
         (others, x) \<Rightarrow> perform C E (k x) (exchanged C bs others x s))
       (answer_others C (before_env E (sent s)) s))"

text \<open>\<open>perform_discovery.swap(false)\<close> decides what a turn of the loop does.\<close>

definition bus_owner_turn :: "crates \<Rightarrow> bus_env \<Rightarrow> loop_texts \<Rightarrow> bool \<Rightarrow> u8 \<Rightarrow> nat \<Rightarrow> u8 \<Rightarrow> u8 act" where
  "bus_owner_turn C E D chk ping_eid turn next_eid s =
     (let s = answer_others C (top_env E turn) s;
          s' = s\<lparr>ctx := (ctx s)\<lparr>perform_discovery := False\<rparr>\<rparr>
      in if perform_discovery (ctx s) then perform C E (discover C D chk next_eid) s'
         else perform C E (idle_turn C ping_eid next_eid) (answer_others C (idle_env E turn) s'))"

text \<open>
  The loop has no exit but an error; \<open>bus_owner_turns\<close> is its first turns, numbered from
  \<open>turn\<close>.
\<close>

fun bus_owner_turns :: "crates \<Rightarrow> bus_env \<Rightarrow> loop_texts \<Rightarrow> bool \<Rightarrow> u8 \<Rightarrow> nat \<Rightarrow> nat \<Rightarrow> u8 \<Rightarrow> u8 act" where
  "bus_owner_turns C E D chk ping_eid 0 turn next_eid = act_lift (Ok next_eid)"
| "bus_owner_turns C E D chk ping_eid (Suc n) turn next_eid =
     act_bind (bus_owner_turn C E D chk ping_eid turn next_eid)
       (bus_owner_turns C E D chk ping_eid n (Suc turn))"

definition run_bus_owner_loop :: "crates \<Rightarrow> bus_env \<Rightarrow> loop_texts \<Rightarrow> bool \<Rightarrow> u8 \<Rightarrow> nat \<Rightarrow> u8 act" where
  "run_bus_owner_loop C E D chk ping_eid turns s =
     bus_owner_turns C E D chk ping_eid turns 0 (min_eid_in_pool (ctx s)) s"

section \<open>Laws of performing\<close>

lemma act_bind_assoc: "act_bind (act_bind m f) g = act_bind m (\<lambda>x. act_bind (f x) g)"
  by (rule ext) (simp add: act_bind_def split: prod.splits res.splits)

lemma act_bind_Ok [simp]: "act_bind (act_lift (Ok x)) f = f x"
  by (rule ext) (simp add: act_bind_def act_lift_def)

lemma answer_others_Nil [simp]: "answer_others C [] s = s"
  by (simp add: answer_others_def)

lemma sent_answer_others [simp]: "sent (answer_others C os s) = sent s"
  by (simp add: answer_others_def)

text \<open>A request is built in one step, and only the counters of the endpoint change.\<close>

lemma loop_request_bytes_ctx:
  obtains buf c where "\<And>s :: bus_owner. ctx s = c0 \<Longrightarrow> loop_request_bytes C q s = (Ok buf, s\<lparr>ctx := c\<rparr>)"
  by (cases q)
    (force simp: loop_request_bytes_def act_bind_def act_lift_def new_transport_hdr_def next_ctrl_hdr_def Let_def)+

lemma perform_Ask:
  assumes "loop_request_bytes C q (answer_others C (before_env E (sent s)) s) = (Ok bs, s1)"
    "exchange_env E (sent s1) bs = (others, x)"
  shows "perform C E (Ask q k) s = perform C E (k x) (exchanged C bs others x s1)"
  using assms by (simp add: act_bind_def)

text \<open>To perform the parts of a task one after the other is to perform the task.\<close>

lemma perform_bind: "perform C E (task_bind t f) = act_bind (perform C E t) (\<lambda>x. perform C E (f x))"
proof (induction t)
  case (Done r)
  show ?case by (rule ext) (simp add: act_bind_def act_lift_def split: res.splits)
next
  case (Ask q k)
  show ?case
    by (rule ext) (simp add: act_bind_def Ask.IH [OF rangeI] split: prod.splits res.splits)
qed

lemma perform_result:
  "perform C E (task_result g t) s = (let (r, s') = perform C E t s in (g r, s'))"
proof (induction t arbitrary: s)
  case (Done r)
  show ?case by (simp add: act_lift_def)
next
  case (Ask q k)
  let ?s = "answer_others C (before_env E (sent s)) s"
  obtain bs c where "loop_request_bytes C q ?s = (Ok bs, ?s\<lparr>ctx := c\<rparr>)"
    using loop_request_bytes_ctx [of "ctx ?s" C q] by blast
  then show ?case by (simp add: act_bind_def Ask.IH [OF rangeI] split: prod.splits)
qed

end
