(* ===== verification/BusProps.thy ===== *)
theory BusProps
  imports BusLoop
begin

text \<open>
  What the bus owner guarantees: how \<open>handle_request\<close> answers each request, and which
  endpoint identifiers the discovery loop hands out.
\<close>

section \<open>Responses\<close>

text \<open>
  A response to the payload \<open>p\<close>: the transport header of the response, then the control
  header of the request with its request bit cleared, then the rest of the message.
\<close>

definition response_to :: "crates \<Rightarrow> control_payload \<Rightarrow> bytes \<Rightarrow> bytes \<Rightarrow> bool" where
  "response_to C p tail r \<longleftrightarrow>
     r = transport_header_ser C (create_response C (hdr p)) @
         control_msg_header_ser C (set_rq C 0 (control_hdr p)) @ tail"

text \<open>The header of a decoded request is the control header its bytes start with.\<close>

lemma header_of_parse:
  assumes "control_msg_header_try_from C bs = Ok h"
  shows "\<exists>r. control_msg_header_de C bs = Some (h, r)"
  using assms
  by (auto simp: control_msg_header_try_from_def from_binary_try_from_def bincode_deserialize_def
      split: if_splits option.splits)

lemma parse_hdr:
  assumes "control_msg_header_try_from C bs = Ok h"
  shows "from_binary_try_from C n (set_eid_request_de C) bs = Ok q1 \<Longrightarrow> set_eid_req_hdr q1 = h"
    "from_binary_try_from C n (get_eid_request_de C) bs = Ok q2 \<Longrightarrow> get_eid_req_hdr q2 = h"
    "from_binary_try_from C n (empty_request_de C) bs = Ok q3 \<Longrightarrow> empty_request_hdr q3 = h"
    "from_binary_try_from C n (routing_table_request_de C) bs = Ok q4 \<Longrightarrow> routing_req_hdr q4 = h"
  using header_of_parse [OF assms]
  by (auto simp: from_binary_try_from_def bincode_deserialize_def set_eid_request_de_def
      get_eid_request_de_def empty_request_de_def routing_table_request_de_def
      split: if_splits option.splits bind_splits)

context crates_spec
begin

lemma consistent_hdr_wf: "consistent_payload C p \<Longrightarrow> wf_control_msg_header (control_hdr p)"
  using ctrl.try_from_wf [of C "payload p" "control_hdr p"]
  by (simp add: consistent_payload_def control_msg_header_try_from_def)

lemma set_eid_parse_eid:
  assumes "from_binary_try_from C set_eid_request_size (set_eid_request_de C) bs = Ok q"
  shows "5 \<le> length bs \<and> set_eid_req_eid q = bs ! 4"
proof -
  have "5 \<le> length bs"
    using assms seteid_req.try_from_is_ok [of C bs] by (simp add: set_eid_request_size_def)
  then obtain a b c d e r where "bs = a # b # c # d # e # r"
    by (auto simp: numeral_eq_Suc Suc_le_length_iff)
  with assms show ?thesis
    by (auto simp: set_eid_request_de_def from_binary_try_from_def bincode_deserialize_def
        set_eid_request_size_def codec_simps wire_u8)
qed

lemma response_bytes_ser:
  "response_bytes C p ch body = transport_header_ser C (create_response C (hdr p)) @ body"
  by (simp add: response_bytes_def create_response_payload_def control_payload_to_bytes_def
      control_payload_new_def)

lemma handle_set_endpoint_id_cases:
  assumes "consistent_payload C p"
  obtains (short) "length (payload p) < 5"
      "handle_set_endpoint_id C c p = (Err [''Failed parsing SetEndpointID msg'',
         ''invalid payload size (found '' @ debug_str (to_string (length (payload p))) @
         '', expected '' @ debug_str (to_string 5) @ '')''], c)"
  | (ok) q where "5 \<le> length (payload p)" "set_eid_req_hdr q = control_hdr p"
      "set_eid_req_eid q = payload p ! 4"
      "handle_set_endpoint_id C c p =
        (Ok (response_bytes C p (set_rq C 0 (control_hdr p))
           (set_eid_response_ser C (set_eid_response_from C q Success NoPoolSupport Accepted (payload p ! 4) 0))),
         c\<lparr>assigned_eid := payload p ! 4\<rparr>)"
proof (cases "length (payload p) < 5")
  case True
  then show thesis
    using short
    by (simp add: handle_set_endpoint_id_def try_from_control_payload_eq set_eid_request_size_def
        from_binary_try_from_def)
next
  case False
  then obtain q where q: "from_binary_try_from C set_eid_request_size (set_eid_request_de C) (payload p) = Ok q"
    using seteid_req.try_from_long [of "payload p" C] by (auto simp: set_eid_request_size_def)
  have "set_eid_req_hdr q = control_hdr p"
    using parse_hdr(1) [OF _ q] assms by (simp add: consistent_payload_def)
  then show thesis
    using ok [of q] set_eid_parse_eid [OF q] q False
    by (simp add: handle_set_endpoint_id_def try_from_control_payload_eq set_eid_response_from_def
        header_simps)
qed

lemma handle_get_endpoint_id_ok:
  assumes "consistent_payload C p" "3 \<le> length (payload p)"
  shows "handle_get_endpoint_id C p =
    Ok (response_bytes C p (set_rq C 0 (control_hdr p))
      (get_eid_response_ser C (get_eid_response_new C (set_rq C 0 (control_hdr p)) 0 0 Dynamic Simple 0)))"
proof -
  obtain q where q: "from_binary_try_from C get_eid_request_size (get_eid_request_de C) (payload p) = Ok q"
    using geteid_req.try_from_long [of "payload p" C] assms(2) by (auto simp: get_eid_request_size_def)
  have "get_eid_req_hdr q = control_hdr p"
    using parse_hdr(2) [OF _ q] assms(1) by (simp add: consistent_payload_def)
  with q show ?thesis
    by (simp add: handle_get_endpoint_id_def try_from_control_payload_eq get_eid_response_from_def
        header_simps Let_def)
qed

lemma handle_empty_ok:
  assumes "consistent_payload C p" "3 \<le> length (payload p)"
  shows "handle_empty C cc p =
    Ok (response_bytes C p (set_rq C 0 (control_hdr p))
      (empty_response_ser C (empty_response_new (set_rq C 0 (control_hdr p)) (completion_code_to_u8 cc))))"
proof -
  obtain q where q: "from_binary_try_from C empty_request_size (empty_request_de C) (payload p) = Ok q"
    using ereq.try_from_long [of "payload p" C] assms(2) by (auto simp: empty_request_size_def)
  have "empty_request_hdr q = control_hdr p"
    using parse_hdr(3) [OF _ q] assms(1) by (simp add: consistent_payload_def)
  with q show ?thesis
    by (simp add: handle_empty_def try_from_control_payload_eq empty_response_from_def
        empty_response_new_def Let_def)
qed

lemma handle_routing_table_cases:
  assumes "consistent_payload C p"
  obtains (short) e where "length (payload p) < 4" "handle_routing_table C p = Err e"
  | (ok) "4 \<le> length (payload p)"
      "handle_routing_table C p = Ok (response_bytes C p (set_rq C 0 (control_hdr p))
         (routing_table_response_ser C (routing_table_response_new (set_rq C 0 (control_hdr p)) 0 0xff 0)))"
proof (cases "length (payload p) < 4")
  case True
  then show thesis
    using short
    by (simp add: handle_routing_table_def try_from_control_payload_eq routing_table_request_size_def
        from_binary_try_from_def)
next
  case False
  then obtain q where q:
      "from_binary_try_from C routing_table_request_size (routing_table_request_de C) (payload p) = Ok q"
    using rt_req.try_from_long [of "payload p" C] by (auto simp: routing_table_request_size_def)
  have "routing_req_hdr q = control_hdr p"
    using parse_hdr(4) [OF _ q] assms by (simp add: consistent_payload_def)
  with q ok False show thesis
    by (simp add: handle_routing_table_def try_from_control_payload_eq routing_table_response_from_def
        routing_table_response_new_def Let_def)
qed

text \<open>Every answer of \<open>handle_request\<close> is a response to the request it parsed.\<close>

lemma response_to_bytes:
  "body = control_msg_header_ser C (set_rq C 0 (control_hdr p)) @ tail \<Longrightarrow>
    response_to C p tail (response_bytes C p ch body)"
  by (simp add: response_to_def response_bytes_ser)

lemma handle_request_ok_cases:
  assumes "handle_request C c bs = (Ok r, c')"
  obtains p h body where "control_payload_try_from C bs = Ok p" "consistent_payload C p"
    "h = set_rq C 0 (control_hdr p)" "r = response_bytes C p h body"
    "(\<exists>e. body = set_eid_response_ser C (set_eid_response_new C h 0 NoPoolSupport Accepted e 0)) \<or>
     body = get_eid_response_ser C (get_eid_response_new C h 0 0 Dynamic Simple 0) \<or>
     body = routing_table_response_ser C (routing_table_response_new h 0 0xff 0) \<or>
     (\<exists>cc. body = empty_response_ser C (empty_response_new h cc))"
proof -
  from assms obtain p where p: "control_payload_try_from C bs = Ok p"
    by (cases "control_payload_try_from C bs") (auto simp: handle_request_def)
  then have con: "consistent_payload C p" and len: "3 \<le> length (payload p)"
    using payload_parse_consistent by blast+
  note res = that [OF p con refl]
  obtain code where code: "payload_command_code p = Ok code"
    using assms p by (cases "payload_command_code p") (auto simp: handle_request_def)
  consider "handle_set_endpoint_id C c p = (Ok r, c')" | "handle_get_endpoint_id C p = Ok r"
    | "handle_routing_table C p = Ok r" | cc where "handle_empty C cc p = Ok r"
    using assms p code by (cases code) (auto simp: handle_request_def Let_def)
  then show thesis
  proof cases
    case 1
    then show thesis
      by (cases rule: handle_set_endpoint_id_cases [OF con, of c]) (use res in \<open>auto simp: set_eid_response_from_def\<close>)
  next
    case 2
    then show thesis using handle_get_endpoint_id_ok [OF con len] res by auto
  next
    case 3
    then show thesis by (cases rule: handle_routing_table_cases [OF con]) (use res in auto)
  next
    case (4 cc)
    then show thesis using handle_empty_ok [OF con len, of cc] res by auto
  qed
qed

lemma handle_request_response:
  assumes "handle_request C c bs = (Ok r, c')"
  shows "\<exists>p tail. control_payload_try_from C bs = Ok p \<and> response_to C p tail r \<and> tail \<noteq> []"
proof -
  from handle_request_ok_cases [OF assms] obtain p h body where
    p: "control_payload_try_from C bs = Ok p" "h = set_rq C 0 (control_hdr p)" "r = response_bytes C p h body"
    and body: "(\<exists>e. body = set_eid_response_ser C (set_eid_response_new C h 0 NoPoolSupport Accepted e 0)) \<or>
     body = get_eid_response_ser C (get_eid_response_new C h 0 0 Dynamic Simple 0) \<or>
     body = routing_table_response_ser C (routing_table_response_new h 0 0xff 0) \<or>
     (\<exists>cc. body = empty_response_ser C (empty_response_new h cc))" .
  from body have "\<exists>tail. body = control_msg_header_ser C h @ tail \<and> tail \<noteq> []"
    by (auto simp: set_eid_response_ser_def get_eid_response_ser_def routing_table_response_ser_def
        routing_table_response_new_def empty_response_ser_def empty_response_new_def header_simps wire_u8)
  then show ?thesis using p response_to_bytes by blast
qed

text \<open>The responses are short.\<close>

lemma handle_request_length:
  assumes "handle_request C c bs = (Ok r, c')"
  shows "length r \<le> 11"
proof -
  from handle_request_ok_cases [OF assms] obtain p h body where
    con: "consistent_payload C p" and h: "h = set_rq C 0 (control_hdr p)" and r: "r = response_bytes C p h body"
    and body: "(\<exists>e. body = set_eid_response_ser C (set_eid_response_new C h 0 NoPoolSupport Accepted e 0)) \<or>
     body = get_eid_response_ser C (get_eid_response_new C h 0 0 Dynamic Simple 0) \<or>
     body = routing_table_response_ser C (routing_table_response_new h 0 0xff 0) \<or>
     (\<exists>cc. body = empty_response_ser C (empty_response_new h cc))" .
  have wf: "wf_transport_header (hdr p)" "wf_control_msg_header h"
    using con consistent_hdr_wf [OF con] by (simp_all add: consistent_payload_def header_simps h)
  have "length body \<le> 7"
    using body ctrl.enc_length [OF wf(2)] seteid_resp.enc_length [OF set_eid_response_fields(5) [OF wf(2)]]
      geteid_resp.enc_length [OF get_eid_response_fields(5) [OF wf(2)]]
    by (auto simp: set_eid_response_size_def get_eid_response_size_def control_msg_header_size_def
        routing_table_response_ser_def routing_table_response_new_def empty_response_ser_def empty_response_new_def wire_u8)
  then show ?thesis
    using th.enc_length [OF response_fields(1) [OF wf(1)]]
    by (simp add: r response_bytes_ser transport_header_size_def)
qed

text \<open>What a response to a request is, read back.\<close>

lemma response_to_parse:
  assumes p: "control_payload_try_from C bs = Ok p" and r: "response_to C p tail r"
  shows "control_payload_try_from C r = Ok (control_payload_new (create_response C (hdr p))
      (set_rq C 0 (control_hdr p)) (control_msg_header_ser C (set_rq C 0 (control_hdr p)) @ tail))"
    "create_tag C bs = Some (header_tag C (hdr p))"
    "create_tag C r = Some (header_tag C (create_response C (hdr p)))"
    "flow_matches (header_tag C (hdr p)) (header_tag C (create_response C (hdr p)))"
proof -
  have con: "consistent_payload C p" and bs: "control_payload_to_bytes C p = bs"
    using payload_parse_consistent [OF p] by simp_all
  have wf: "wf_transport_header (hdr p)" "wf_control_msg_header (set_rq C 0 (control_hdr p))"
    using con consistent_hdr_wf [OF con] by (simp_all add: consistent_payload_def header_simps)
  let ?q = "control_payload_new (create_response C (hdr p)) (set_rq C 0 (control_hdr p))
      (control_msg_header_ser C (set_rq C 0 (control_hdr p)) @ tail)"
  have "consistent_payload C ?q"
    using wf ctrl.try_from_enc [OF wf(2), of C tail]
    by (simp add: consistent_payload_def control_payload_new_def control_msg_header_try_from_def header_simps)
  moreover have "control_payload_to_bytes C ?q = r"
    using r by (simp add: response_to_def control_payload_to_bytes_def control_payload_new_def)
  ultimately show "control_payload_try_from C r = Ok ?q" using payload_roundtrip [of ?q] by simp
  show "create_tag C bs = Some (header_tag C (hdr p))"
    using create_tag_ser [OF wf(1), of "payload p"] bs by (simp add: control_payload_to_bytes_def)
  show "create_tag C r = Some (header_tag C (create_response C (hdr p)))"
    using create_tag_ser [OF response_fields(1) [OF wf(1)]] r by (simp add: response_to_def)
  show "flow_matches (header_tag C (hdr p)) (header_tag C (create_response C (hdr p)))"
    by (rule response_matches [OF wf(1)])
qed

end

section \<open>The identifiers a message hands out\<close>

text \<open>
  The half-open range of endpoint identifiers a control request assigns: one for Set Endpoint
  ID, a pool for Allocate Endpoint IDs.
\<close>

definition assigned_range :: "crates \<Rightarrow> bytes \<Rightarrow> (nat \<times> nat) option" where
  "assigned_range C bs =
     (case control_payload_try_from C bs of
        Ok p \<Rightarrow>
          (case payload_command_code p of
             Ok SetEndpointID \<Rightarrow>
               (case try_from_control_payload C set_eid_request_size (set_eid_request_de C) p of
                  Ok q \<Rightarrow> Some (unat (set_eid_req_eid q), unat (set_eid_req_eid q) + 1)
                | _ \<Rightarrow> None)
           | Ok AllocateEndpointIDs \<Rightarrow>
               (case try_from_control_payload C allocate_request_size (allocate_request_de C) p of
                  Ok q \<Rightarrow> Some (unat (starting_eid q), unat (starting_eid q) + unat (number_of_eids q))
                | _ \<Rightarrow> None)
           | _ \<Rightarrow> None)
      | _ \<Rightarrow> None)"

definition ranges :: "crates \<Rightarrow> bytes list \<Rightarrow> (nat \<times> nat) list" where
  "ranges C log = List.map_filter (assigned_range C) log"

fun increasing :: "nat \<Rightarrow> (nat \<times> nat) list \<Rightarrow> nat \<Rightarrow> bool" where
  "increasing lo [] hi \<longleftrightarrow> lo \<le> hi"
| "increasing lo ((a, b) # rs) hi \<longleftrightarrow> lo \<le> a \<and> a \<le> b \<and> increasing b rs hi"

lemma ranges_append [simp]: "ranges C (xs @ ys) = ranges C xs @ ranges C ys"
  by (simp add: ranges_def map_filter_def)

lemma ranges_Nil [simp]: "ranges C [] = []"
  by (simp add: ranges_def map_filter_def)

lemma ranges_single: "ranges C [b] = (case assigned_range C b of None \<Rightarrow> [] | Some r \<Rightarrow> [r])"
  by (simp add: ranges_def map_filter_def split: option.splits)

lemma increasing_append:
  "increasing lo xs mid \<Longrightarrow> increasing mid ys hi \<Longrightarrow> increasing lo (xs @ ys) hi"
proof (induction lo xs mid rule: increasing.induct)
  case (1 lo mid)
  then show ?case by (cases ys) auto
qed auto

lemma increasing_le: "increasing lo rs hi \<Longrightarrow> lo \<le> hi"
  by (induction lo rs hi rule: increasing.induct) auto

lemma increasing_mono: "increasing lo rs hi \<Longrightarrow> hi \<le> hi' \<Longrightarrow> increasing lo rs hi'"
  by (induction lo rs hi rule: increasing.induct) auto

lemma increasing_weaken: "lo' \<le> lo \<Longrightarrow> increasing lo rs hi \<Longrightarrow> increasing lo' rs hi"
  by (cases rs) auto

lemma increasing_nth:
  "increasing lo rs hi \<Longrightarrow> i < length rs \<Longrightarrow>
     lo \<le> fst (rs ! i) \<and> fst (rs ! i) \<le> snd (rs ! i) \<and> snd (rs ! i) \<le> hi"
proof (induction lo rs hi arbitrary: i rule: increasing.induct)
  case (2 lo a b rs hi)
  then show ?case using increasing_le [of b rs hi] by (cases i) fastforce+
qed simp

lemma increasing_disjoint:
  "increasing lo rs hi \<Longrightarrow> i < j \<Longrightarrow> j < length rs \<Longrightarrow> snd (rs ! i) \<le> fst (rs ! j)"
proof (induction lo rs hi arbitrary: i j rule: increasing.induct)
  case (2 lo a b rs hi)
  then obtain j' where j: "j = Suc j'" by (cases j) auto
  show ?case
  proof (cases i)
    case 0
    then show ?thesis using 2 j increasing_nth [of b rs hi j'] by simp
  next
    case (Suc i')
    then show ?thesis using 2 j by simp
  qed
qed simp

section \<open>What a task hands out\<close>

text \<open>
  \<open>hands_out t lo Q\<close>: with every identifier below \<open>lo\<close> taken, the requests of \<open>t\<close> hand out
  increasing ranges from \<open>lo\<close> to some \<open>hi\<close> below the broadcast identifier, whatever the
  exchanges come to, and \<open>Q x hi\<close> holds if \<open>t\<close> returns \<open>Ok x\<close>.
\<close>

fun request_range :: "loop_request \<Rightarrow> (nat \<times> nat) option" where
  "request_range (LoopGetEid d) = None"
| "request_range (LoopSetEid e) = Some (unat e, unat e + 1)"
| "request_range (LoopAllocate e n) = Some (unat e, unat e + unat n)"

primrec hands_out :: "'a loop_task \<Rightarrow> nat \<Rightarrow> ('a \<Rightarrow> nat \<Rightarrow> bool) \<Rightarrow> bool" where
  "hands_out (Done r) lo Q \<longleftrightarrow> lo \<le> 255 \<and> (\<forall>x. r = Ok x \<longrightarrow> Q x lo)"
| "hands_out (Ask q k) lo Q \<longleftrightarrow>
     (case request_range q of
        None \<Rightarrow> \<forall>x. hands_out (k x) lo Q
      | Some (a, b) \<Rightarrow> lo \<le> a \<and> a \<le> b \<and> b \<le> 255 \<and> (\<forall>x. hands_out (k x) b Q))"

lemma hands_out_bind:
  "hands_out t lo Q \<Longrightarrow> (\<And>x hi. Q x hi \<Longrightarrow> hi \<le> 255 \<Longrightarrow> hands_out (f x) hi R) \<Longrightarrow> hands_out (task_bind t f) lo R"
proof (induction t arbitrary: lo)
  case (Ask q k)
  have "hands_out (task_bind (k x) f) lo' R" if "hands_out (k x) lo' Q" for x lo'
    by (rule Ask.IH [OF rangeI that]) (rule Ask.prems(2))
  then show ?case using Ask.prems(1) by (auto split: option.splits)
qed (auto split: res.splits)

lemma hands_out_conseq:
  "hands_out t lo Q \<Longrightarrow> (\<And>x hi. Q x hi \<Longrightarrow> hi \<le> 255 \<Longrightarrow> R x hi) \<Longrightarrow> hands_out t lo R"
proof (induction t arbitrary: lo)
  case (Ask q k)
  have "hands_out (k x) lo' R" if "hands_out (k x) lo' Q" for x lo'
    by (rule Ask.IH [OF rangeI that]) (rule Ask.prems(2))
  then show ?case using Ask.prems(1) by (auto split: option.splits)
qed auto

lemma hands_out_result:
  "hands_out t lo Q \<Longrightarrow> (\<And>r x. g r = Ok x \<Longrightarrow> r = Ok x) \<Longrightarrow> hands_out (task_result g t) lo Q"
  by (induction t arbitrary: lo) (auto split: option.splits)

lemma hands_out_context: "hands_out t lo Q \<Longrightarrow> hands_out (task_context msg t) lo Q"
  unfolding task_context_def by (rule hands_out_result) simp_all

lemma hands_out_unwrap: "hands_out t lo Q \<Longrightarrow> hands_out (task_unwrap t) lo Q"
  unfolding task_unwrap_def by (rule hands_out_result) (auto simp: res_unwrap_def split: res.splits)

lemma hands_out_exchange:
  "hands_out (send_and_decode C conv q) lo (\<lambda>_ h. h = hi)"
  if "case request_range q of None \<Rightarrow> lo \<le> 255 \<and> hi = lo | Some (a, b) \<Rightarrow> lo \<le> a \<and> a \<le> b \<and> b \<le> 255 \<and> hi = b"
  using that by (auto simp: send_and_decode_def split: option.splits)

lemma hands_out_get_eid:
  "lo \<le> 255 \<Longrightarrow> hands_out (send_get_eid_request C d) lo (\<lambda>_ h. h = lo)"
  unfolding send_get_eid_request_def
  by (rule hands_out_bind [OF hands_out_context [OF hands_out_exchange [where hi = lo]]]) simp_all

lemma hands_out_set_eid:
  "unat e < 255 \<Longrightarrow> hands_out (send_set_eid_request C e) (unat e) (\<lambda>_ h. h = unat e + 1)"
  unfolding send_set_eid_request_def
  by (rule hands_out_bind [OF hands_out_context [OF hands_out_exchange [where hi = "unat e + 1"]]]) simp_all

lemma hands_out_allocate:
  "unat e + unat n \<le> 255 \<Longrightarrow>
    hands_out (send_allocate_eids_request C e n) (unat e) (\<lambda>_ h. h = unat e + unat n)"
  unfolding send_allocate_eids_request_def
  by (rule hands_out_bind [OF hands_out_context [OF hands_out_exchange [where hi = "unat e + unat n"]]]) simp_all

lemma u8_le [simp]: "unat (n :: u8) \<le> 255"
  using unsigned_less [of n, where 'a = nat] by simp

text \<open>
  Where a discovery stands after step 2: no pool is open, or the identifiers from
  \<open>min_dynamic_eid\<close> up to the next free one are the pool.
\<close>

definition pool_open :: "endpoint_context \<Rightarrow> u8 \<times> endpoint_context \<Rightarrow> nat \<Rightarrow> bool" where
  "pool_open ep x hi \<longleftrightarrow>
     (case x of (n', ep') \<Rightarrow>
        (hi = unat n' \<and> min_dynamic_eid ep' = min_dynamic_eid ep \<and>
         max_dynamic_eid ep' = max_dynamic_eid ep) \<or>
        (hi = unat (min_dynamic_eid ep') \<and> unat n' = hi + unat (dynamic_eid_pool_size ep')))"

lemma reserve_pool_open:
  "reserve_pool True n ep resp = Ok x \<Longrightarrow> pool_open ep x (unat n)"
  by (auto simp: reserve_pool_def pool_open_def res_bind_eq_Ok Let_def dest!: add_u_checked_Ok split: if_splits)

lemma hands_out_assign: "hands_out (assign_eid C D True n ep) (unat n) (pool_open ep)"
proof -
  have add: "hands_out (Done (add_u True n 1)) (unat n) (\<lambda>m h. h = unat n \<and> unat m = unat n + 1)"
    by (auto dest!: add_u_checked_Ok)
  have ok: "hands_out (Done r) lo (\<lambda>_ h. h = lo)" if "lo \<le> 255" for r :: "(anyhow, unit) res" and lo
    using that by simp
  show ?thesis
    unfolding assign_eid_def Let_def
  proof (rule hands_out_bind [OF add], clarify, rule hands_out_bind [OF hands_out_context])
    fix m :: u8
    assume m: "unat m = unat n + 1"
    with u8_le [of m] have lt: "unat n < 255" by simp
    show "hands_out (send_set_eid_request C n) (unat n) (\<lambda>_ h. h = unat m)"
      using hands_out_set_eid [OF lt] by (simp add: m)
    fix resp hi
    assume hi: "hi = unat m"
    show "hands_out (task_bind (Done (response_is_success C (set_eid_resp_completion_code resp))) (\<lambda>_.
        if eid_assignment_status_bits C resp \<noteq> 0
        then Done (Err [''EID assignment was rejected: '' @ debug_set_eid D resp])
        else Done (reserve_pool True m (ep\<lparr>ep_eid_allocation_status := set_eid_resp_allocation_status C resp\<rparr>) resp)))
        hi (pool_open ep)"
      by (rule hands_out_bind [OF ok [where lo = hi]]) (auto simp: hi pool_open_def dest!: reserve_pool_open)
  qed
qed

lemma hands_out_allocate_pool:
  assumes "pool_open ep (n, ep') hi" "min_dynamic_eid ep = 0" "max_dynamic_eid ep = 0" "hi \<le> 255"
  shows "hands_out (allocate_pool C D ep') hi (\<lambda>_ h. h \<le> unat n)"
proof (cases "min_dynamic_eid ep' = max_dynamic_eid ep'")
  case True
  then show ?thesis using assms by (auto simp: allocate_pool_def pool_open_def)
next
  case False
  then have p: "hi = unat (min_dynamic_eid ep')" "unat n = hi + unat (dynamic_eid_pool_size ep')"
    using assms(1-3) by (auto simp: pool_open_def)
  have sum: "unat (min_dynamic_eid ep') + unat (dynamic_eid_pool_size ep') \<le> 255"
    using u8_le [of n] p by simp
  show ?thesis
    unfolding allocate_pool_def p(1)
    using False hands_out_bind [OF hands_out_context [OF hands_out_allocate [OF sum]]] p
    by (auto intro!: hands_out_bind [OF hands_out_context [OF hands_out_allocate [OF sum]]] split: res.splits)
qed

lemma hands_out_check: "lo \<le> 255 \<Longrightarrow> hands_out (Done r) lo (\<lambda>_ h. h = lo)"
  by simp

lemma hands_out_discover: "hands_out (discover C D True n) (unat n) (\<lambda>n' h. h \<le> unat n')"
proof -
  have step2: "hands_out (if ep_eid_type ep = Dynamic then assign_eid C D True n ep else task_return (n, ep))
      (unat n) (pool_open ep)" for ep
    using hands_out_assign by (simp add: pool_open_def)
  show ?thesis
    unfolding discover_def
  proof (rule hands_out_bind [OF hands_out_context [OF hands_out_get_eid]], simp, clarify,
      rule hands_out_bind [OF hands_out_context [OF hands_out_check]], simp, clarify)
    fix resp
    let ?ep = "\<lparr>ep_eid = get_eid_resp_eid resp,
         ep_endpoint_type = endpoint_type_from_u8 C (get_eid_resp_endpoint_type C resp),
         ep_eid_type = eid_type_from_u8 C (get_eid_resp_eid_type C resp),
         ep_eid_allocation_status = NoPoolSupport,
         min_dynamic_eid = 0, max_dynamic_eid = 0, dynamic_eid_pool_size = 0\<rparr>"
    show "hands_out (let endpoint = ?ep
       in task_bind (if ep_eid_type endpoint = Dynamic then assign_eid C D True n endpoint
                     else task_return (n, endpoint)) (\<lambda>(next_eid, endpoint).
          task_bind (allocate_pool C D endpoint) (\<lambda>_. task_return next_eid))) (unat n) (\<lambda>n' h. h \<le> unat n')"
      unfolding Let_def
      by (rule hands_out_bind [OF step2]) (auto intro!: hands_out_bind [OF hands_out_allocate_pool])
  qed
qed

lemma hands_out_idle: "hands_out (idle_turn C ping n) (unat n) (\<lambda>n' h. h \<le> unat n')"
proof -
  have "hands_out (task_bind (task_unwrap (task_context m1 (send_get_eid_request C ping))) (\<lambda>resp.
      task_bind (task_unwrap (task_context m2 (Done (f resp)))) (\<lambda>_. task_return n))) (unat n) (\<lambda>n' h. h \<le> unat n')"
    for m1 m2 and f :: "get_eid_response \<Rightarrow> (anyhow, unit) res"
    by (rule hands_out_bind [OF hands_out_unwrap [OF hands_out_context [OF hands_out_get_eid]]], simp,
        rule hands_out_bind [OF hands_out_unwrap [OF hands_out_context [OF hands_out_check]]]) simp_all
  then show ?thesis by (simp add: idle_turn_def)
qed

section \<open>What the requests on the wire hand out\<close>

context crates_spec
begin

lemma request_bytes_parse:
  assumes "wf_transport_header h" "wf_control_msg_header ch"
  shows "control_payload_try_from C (request_bytes C h ch (control_msg_header_ser C ch @ tail)) =
    Ok (control_payload_new h ch (control_msg_header_ser C ch @ tail))"
proof -
  let ?p = "control_payload_new h ch (control_msg_header_ser C ch @ tail)"
  have "consistent_payload C ?p"
    using assms ctrl.try_from_enc [OF assms(2), of C tail]
    by (simp add: consistent_payload_def control_payload_new_def control_msg_header_try_from_def)
  from payload_roundtrip [OF this] show ?thesis by (simp add: request_bytes_def)
qed

lemma get_eid_request_range:
  assumes "wf_transport_header h" "ch = control_msg_header_new C GetEndpointID i False True False"
  shows "assigned_range C (request_bytes C h ch (get_eid_request_ser C \<lparr>get_eid_req_hdr = ch\<rparr>)) = None"
proof -
  have ch: "wf_control_msg_header ch" "hdr_command_code ch = GetEndpointID"
    using assms(2) by (simp_all add: header_simps)
  from request_bytes_parse [OF assms(1) ch(1), of "[]"] show ?thesis
    by (simp add: get_eid_request_ser_def assigned_range_def payload_command_code_def
        control_payload_new_def ch(2))
qed

lemma set_eid_request_range:
  assumes "wf_transport_header h" "ch = control_msg_header_new C SetEndpointID i False True False"
  shows "assigned_range C (request_bytes C h ch (set_eid_request_ser C (set_eid_request_new C ch op e))) =
    Some (unat e, unat e + 1)"
proof -
  let ?q = "set_eid_request_new C ch op e"
  have ch: "wf_control_msg_header ch" "hdr_command_code ch = SetEndpointID"
    using assms(2) by (simp_all add: header_simps)
  have "\<exists>tail. set_eid_request_ser C ?q = control_msg_header_ser C ch @ tail"
    by (simp add: set_eid_request_ser_def header_simps)
  then have parse: "control_payload_try_from C (request_bytes C h ch (set_eid_request_ser C ?q)) =
      Ok (control_payload_new h ch (set_eid_request_ser C ?q))"
    using request_bytes_parse [OF assms(1) ch(1)] by auto
  have "wf_set_eid_request ?q" using ch(1) by (simp add: header_simps)
  from seteid_req.try_from_enc_exact [OF this, of C] parse show ?thesis
    by (simp add: assigned_range_def payload_command_code_def control_payload_new_def ch(2)
        try_from_control_payload_eq header_simps)
qed

lemma allocate_request_range:
  assumes "wf_transport_header h" "ch = control_msg_header_new C AllocateEndpointIDs i False True False"
  shows "assigned_range C (request_bytes C h ch (allocate_request_ser C (allocate_request_new C ch op n e))) =
    Some (unat e, unat e + unat n)"
proof -
  let ?q = "allocate_request_new C ch op n e"
  have ch: "wf_control_msg_header ch" "hdr_command_code ch = AllocateEndpointIDs"
    using assms(2) by (simp_all add: header_simps)
  have "\<exists>tail. allocate_request_ser C ?q = control_msg_header_ser C ch @ tail"
    by (simp add: allocate_request_ser_def header_simps)
  then have parse: "control_payload_try_from C (request_bytes C h ch (allocate_request_ser C ?q)) =
      Ok (control_payload_new h ch (allocate_request_ser C ?q))"
    using request_bytes_parse [OF assms(1) ch(1)] by auto
  have "wf_allocate_request ?q" using ch(1) by (simp add: header_simps)
  from alloc_req.try_from_enc_exact [OF this, of C] parse show ?thesis
    by (simp add: assigned_range_def payload_command_code_def control_payload_new_def ch(2)
        try_from_control_payload_eq header_simps)
qed

lemma loop_request_ranges:
  assumes "loop_request_bytes C q s = (Ok buf, s')"
  shows "ranges C [buf] = (case request_range q of None \<Rightarrow> [] | Some r \<Rightarrow> [r])"
  using assms
  by (cases q)
    (auto simp: loop_request_bytes_def act_bind_def act_lift_def new_transport_hdr_def next_ctrl_hdr_def Let_def
      ranges_single get_eid_request_range set_eid_request_range allocate_request_range new_wf)

text \<open>Performed in any world, a task sends what it hands out.\<close>

lemma perform_hands_out:
  assumes "hands_out t lo Q" "perform C E t s = (r, s')"
  shows "\<exists>ms hi. sent s' = sent s @ ms \<and> increasing lo (ranges C ms) hi \<and> hi \<le> 255 \<and>
    (\<forall>x. r = Ok x \<longrightarrow> (\<exists>h. hi \<le> h \<and> Q x h))"
  using assms
proof (induction t arbitrary: lo s)
  case (Done r')
  then show ?case by (intro exI [of _ "[]"] exI [of _ lo]) (auto simp: act_lift_def)
next
  case (Ask q k)
  let ?b = "answer_others C (before_env E (sent s)) s"
  obtain bs c where q: "\<And>s' :: bus_owner. ctx s' = ctx ?b \<Longrightarrow> loop_request_bytes C q s' = (Ok bs, s'\<lparr>ctx := c\<rparr>)"
    using loop_request_bytes_ctx [of "ctx ?b" C q] by blast
  obtain others x where x: "exchange_env E (sent s) bs = (others, x)" by fastforce
  let ?s = "exchanged C bs others x (?b\<lparr>ctx := c\<rparr>)"
  have "perform C E (Ask q k) s = perform C E (k x) ?s" by (rule perform_Ask [OF q [OF refl]]) (simp add: x)
  with Ask.prems(2) have run: "perform C E (k x) ?s = (r, s')" by (simp only:)
  have sent: "sent ?s = sent s \<or> sent ?s = sent s @ [bs]" by (cases x) (simp_all add: exchanged_def)
  obtain mid where mid: "increasing lo (ranges C [bs]) mid" "lo \<le> mid" "hands_out (k x) mid Q"
  proof (cases "request_range q")
    case None
    then show thesis using Ask.prems(1) loop_request_ranges [OF q [OF refl]] that [of lo] by simp
  next
    case (Some ab)
    then show thesis using Ask.prems(1) loop_request_ranges [OF q [OF refl]] that [of "snd ab"] by (cases ab) simp
  qed
  from Ask.IH [OF rangeI mid(3) run] obtain ms hi where ms: "sent s' = sent ?s @ ms" "increasing mid (ranges C ms) hi"
    "hi \<le> 255" "\<forall>x. r = Ok x \<longrightarrow> (\<exists>h. hi \<le> h \<and> Q x h)" by blast
  from sent show ?case
  proof
    assume "sent ?s = sent s"
    moreover have "increasing lo (ranges C ms) hi" using increasing_weaken [OF mid(2) ms(2)] .
    ultimately show ?thesis using ms by (intro exI [of _ ms] exI [of _ hi]) simp
  next
    assume "sent ?s = sent s @ [bs]"
    with ms increasing_append [OF mid(1) ms(2)] show ?thesis
      by (intro exI [of _ "bs # ms"] exI [of _ hi]) (simp flip: ranges_append)
  qed
qed

lemma turns_hand_out:
  assumes "bus_owner_turns C E D True ping k turn n s = (r, s')"
  shows "\<exists>ms hi. sent s' = sent s @ ms \<and> increasing (unat n) (ranges C ms) hi \<and> hi \<le> 255 \<and>
    (\<forall>n'. r = Ok n' \<longrightarrow> hi \<le> unat n')"
  using assms
proof (induction k arbitrary: turn n s)
  case 0
  then show ?case by (intro exI [of _ "[]"] exI [of _ "unat n"]) (auto simp: act_lift_def)
next
  case (Suc k)
  obtain r1 s1 where turn: "bus_owner_turn C E D True ping turn n s = (r1, s1)" by fastforce
  let ?s = "answer_others C (top_env E turn) s"
  obtain t s0 where t: "perform C E t s0 = (r1, s1)" "sent s0 = sent s" "hands_out t (unat n) (\<lambda>n' h. h \<le> unat n')"
  proof (cases "perform_discovery (ctx ?s)")
    case True
    then show thesis
      using turn that [of "discover C D True n" "?s\<lparr>ctx := (ctx ?s)\<lparr>perform_discovery := False\<rparr>\<rparr>"] hands_out_discover
      by (simp add: bus_owner_turn_def Let_def)
  next
    case False
    then show thesis
      using turn hands_out_idle that [of "idle_turn C ping n"
        "answer_others C (idle_env E turn) (?s\<lparr>ctx := (ctx ?s)\<lparr>perform_discovery := False\<rparr>\<rparr>)"]
      by (simp add: bus_owner_turn_def Let_def)
  qed
  from perform_hands_out [OF t(3,1)] obtain ms hi where ms: "sent s1 = sent s @ ms"
    "increasing (unat n) (ranges C ms) hi" "hi \<le> 255" "\<forall>x. r1 = Ok x \<longrightarrow> hi \<le> unat x"
    unfolding t(2) using order_trans by blast
  show ?case
  proof (cases "\<exists>n1. r1 = Ok n1")
    case True
    then obtain n1 where n1: "r1 = Ok n1" by blast
    then have "bus_owner_turns C E D True ping k (Suc turn) n1 s1 = (r, s')"
      using Suc.prems turn by (simp add: act_bind_def)
    from Suc.IH [OF this] obtain ms' hi' where "sent s' = sent s1 @ ms'" "increasing (unat n1) (ranges C ms') hi'"
      "hi' \<le> 255" "\<forall>n'. r = Ok n' \<longrightarrow> hi' \<le> unat n'" by blast
    moreover from this(2) have "increasing hi (ranges C ms') hi'"
      by (rule increasing_weaken [rotated]) (use ms(4) n1 in simp)
    ultimately show ?thesis
      using ms(1) increasing_append [OF ms(2)] by (intro exI [of _ "ms @ ms'"] exI [of _ hi']) simp
  next
    case False
    with Suc.prems turn have "s' = s1 \<and> \<not> is_ok r" by (cases r1) (auto simp: act_bind_def)
    with ms show ?thesis by (intro exI [of _ ms] exI [of _ hi]) auto
  qed
qed

end

section \<open>The branches of the request handler\<close>

context crates_spec
begin

lemma payload_code:
  assumes "control_payload_try_from C bs = Ok p"
  shows "7 \<le> length bs \<and> payload p = drop 4 bs \<and> hdr_command_code (control_hdr p) = command_code_from_u8 C (bs ! 6)"
proof (cases rule: payload_try_from_cases [of bs])
  case short
  with assms show ?thesis by simp
next
  case (long h ch)
  then obtain a b c d e f g r where bs: "bs = a # b # c # d # e # f # g # r"
    by (auto simp: numeral_eq_Suc Suc_le_length_iff)
  have "hdr_command_code ch = command_code_from_u8 C g"
    using long(4) header_of_parse [OF long(4)] by (auto simp: bs codec_simps)
  with long assms show ?thesis by (auto simp: bs control_payload_new_def)
qed

lemma handle_request_branches:
  fixes c bs
  defines "code \<equiv> command_code_from_u8 C (bs ! 6)"
  shows "\<exists>r c'. handle_request C c bs = (r, c') \<and>
    (is_ok r \<longleftrightarrow> 7 \<le> length bs \<and> code \<noteq> Unknown \<and> (code = SetEndpointID \<longrightarrow> 9 \<le> length bs) \<and>
       (code = GetRoutingTableEntries \<longrightarrow> 8 \<le> length bs)) \<and>
    ((\<exists>m. r = Panic m) \<longleftrightarrow> 7 \<le> length bs \<and> code = Unknown) \<and>
    c' = (if is_ok r \<and> code = SetEndpointID then c\<lparr>assigned_eid := bs ! 8\<rparr>
          else if is_ok r \<and> code = DiscoveryNotify then c\<lparr>perform_discovery := True\<rparr> else c)"
proof (cases "control_payload_try_from C bs")
  case (Ok p)
  note pc = payload_code [OF Ok]
  have con: "consistent_payload C p" and len: "3 \<le> length (payload p)"
    using payload_parse_consistent [OF Ok] by simp_all
  have code: "payload_command_code p = (if code = Unknown then Err (UnknownValue ''Unknown'') else Ok code)"
    using pc by (auto simp: payload_command_code_def code_def split: command_code.splits)
  have nth: "payload p ! 4 = bs ! 8" using pc by simp
  have len5: "5 \<le> length (payload p) \<longleftrightarrow> 9 \<le> length bs" "4 \<le> length (payload p) \<longleftrightarrow> 8 \<le> length bs"
    using pc by auto
  consider (unknown) "code = Unknown" | (set) "code = SetEndpointID" | (rt) "code = GetRoutingTableEntries"
    | (notify) "code = DiscoveryNotify" | (other) "code \<notin> {Unknown, SetEndpointID, GetRoutingTableEntries, DiscoveryNotify}"
    by blast
  then show ?thesis
  proof cases
    case unknown
    then show ?thesis using Ok code pc by (simp add: handle_request_def)
  next
    case set
    show ?thesis
      by (cases rule: handle_set_endpoint_id_cases [OF con, of c])
        (use Ok code pc set len5 nth in \<open>auto simp: handle_request_def\<close>)
  next
    case rt
    show ?thesis
      by (cases rule: handle_routing_table_cases [OF con])
        (use Ok code pc rt len5 in \<open>auto simp: handle_request_def\<close>)
  next
    case notify
    then show ?thesis using Ok code pc handle_empty_ok [OF con len] by (simp add: handle_request_def Let_def)
  next
    case other
    then show ?thesis
      using Ok code pc handle_empty_ok [OF con len] handle_get_endpoint_id_ok [OF con len]
      by (cases code) (simp_all add: handle_request_def Let_def)
  qed
next
  case (Err e)
  have "length bs < 7" using Err by (cases rule: payload_try_from_cases [of bs]) simp_all
  then show ?thesis using Err by (simp add: handle_request_def)
next
  case (Panic m)
  then show ?thesis by (cases rule: payload_try_from_cases [of bs]) simp_all
qed

text \<open>What the requester reads out of the answers to its two discovery requests.\<close>

lemma set_endpoint_id_answer:
  assumes "9 \<le> length bs" "command_code_from_u8 C (bs ! 6) = SetEndpointID"
    "handle_request C c bs = (r, c')"
  shows "\<exists>bytes p x. r = Ok bytes \<and> try_to_response C (set_eid_response_try_from C) bytes = Ok (p, x) \<and>
    response_is_success C (set_eid_resp_completion_code x) = Ok () \<and>
    eid_assignment_status_bits C x = 0 \<and> set_eid_resp_allocation_status C x = NoPoolSupport \<and>
    eid_setting x = bs ! 8 \<and> set_eid_resp_pool_size x = 0"
proof -
  obtain p where p: "control_payload_try_from C bs = Ok p"
    using assms(1) by (cases rule: payload_try_from_cases [of bs]) auto
  note pc = payload_code [OF p]
  have con: "consistent_payload C p" using payload_parse_consistent [OF p] by simp
  have code: "payload_command_code p = Ok SetEndpointID"
    using pc assms(2) by (simp add: payload_command_code_def)
  have h: "handle_set_endpoint_id C c p = (r, c')" using assms(3) p code by (simp add: handle_request_def)
  have len: "\<not> length (payload p) < 5" and nth: "payload p ! 4 = bs ! 8" using pc assms(1) by auto
  let ?x = "\<lambda>q. set_eid_response_from C q Success NoPoolSupport Accepted (bs ! 8) 0"
  obtain q where q: "set_eid_req_hdr q = control_hdr p"
      "r = Ok (response_bytes C p (set_rq C 0 (control_hdr p)) (set_eid_response_ser C (?x q)))"
    by (cases rule: handle_set_endpoint_id_cases [OF con, of c]) (use h len nth in auto)
  have x: "?x q = set_eid_response_new C (set_rq C 0 (control_hdr p)) 0 NoPoolSupport Accepted (bs ! 8) 0"
    by (simp add: set_eid_response_from_def q(1))
  have wx: "wf_set_eid_response (?x q)" using consistent_hdr_wf [OF con] by (simp add: x header_simps)
  obtain tail where tail: "set_eid_response_ser C (?x q) = control_msg_header_ser C (set_rq C 0 (control_hdr p)) @ tail"
    by (simp add: set_eid_response_ser_def x header_simps)
  let ?b = "response_bytes C p (set_rq C 0 (control_hdr p)) (set_eid_response_ser C (?x q))"
  have "control_payload_try_from C ?b = Ok (control_payload_new (create_response C (hdr p))
      (set_rq C 0 (control_hdr p)) (set_eid_response_ser C (?x q)))"
    using response_to_parse(1) [OF p response_to_bytes [OF tail]] tail by simp
  then have "try_to_response C (set_eid_response_try_from C) ?b =
      Ok (control_payload_new (create_response C (hdr p)) (set_rq C 0 (control_hdr p)) (set_eid_response_ser C (?x q)), ?x q)"
    using seteid_resp.try_from_enc_exact [OF wx, of C]
    by (simp add: try_to_response_def set_eid_response_try_from_def control_payload_eq_binary control_payload_new_def)
  then show ?thesis unfolding q(2) x by (auto simp: header_simps)
qed

lemma get_endpoint_id_answer:
  assumes "7 \<le> length bs" "command_code_from_u8 C (bs ! 6) = GetEndpointID"
    "handle_request C c bs = (r, c')"
  shows "c' = c \<and> (\<exists>bytes p x. r = Ok bytes \<and> try_to_response C (get_eid_response_try_from C) bytes = Ok (p, x) \<and>
    response_is_success C (get_eid_resp_completion_code x) = Ok () \<and> get_eid_resp_eid x = 0 \<and>
    eid_type_from_u8 C (get_eid_resp_eid_type C x) = Dynamic \<and>
    endpoint_type_from_u8 C (get_eid_resp_endpoint_type C x) = Simple)"
proof -
  obtain p where p: "control_payload_try_from C bs = Ok p"
    using assms(1) by (cases rule: payload_try_from_cases [of bs]) auto
  note pc = payload_code [OF p]
  have con: "consistent_payload C p" and len: "3 \<le> length (payload p)"
    using payload_parse_consistent [OF p] by simp_all
  have code: "payload_command_code p = Ok GetEndpointID"
    using pc assms(2) by (simp add: payload_command_code_def)
  let ?x = "get_eid_response_new C (set_rq C 0 (control_hdr p)) 0 0 Dynamic Simple 0"
  let ?b = "response_bytes C p (set_rq C 0 (control_hdr p)) (get_eid_response_ser C ?x)"
  have r: "r = Ok ?b" "c' = c"
    using assms(3) p code handle_get_endpoint_id_ok [OF con len] by (simp_all add: handle_request_def)
  have wx: "wf_get_eid_response ?x" using consistent_hdr_wf [OF con] by (simp add: header_simps)
  obtain tail where tail: "get_eid_response_ser C ?x = control_msg_header_ser C (set_rq C 0 (control_hdr p)) @ tail"
    by (simp add: get_eid_response_ser_def header_simps)
  have "control_payload_try_from C ?b = Ok (control_payload_new (create_response C (hdr p))
      (set_rq C 0 (control_hdr p)) (get_eid_response_ser C ?x))"
    using response_to_parse(1) [OF p response_to_bytes [OF tail]] tail by simp
  then have "try_to_response C (get_eid_response_try_from C) ?b =
      Ok (control_payload_new (create_response C (hdr p)) (set_rq C 0 (control_hdr p)) (get_eid_response_ser C ?x), ?x)"
    using geteid_resp.try_from_enc_exact [OF wx, of C]
    by (simp add: try_to_response_def get_eid_response_try_from_def control_payload_eq_binary control_payload_new_def)
  then show ?thesis
    using eid_type_enum.from_to [of Dynamic] endpoint_type_enum.from_to [of Simple]
    by (auto simp: r header_simps)
qed

end

section \<open>Discovering an endpoint that runs the same program\<close>

text \<open>The state of a device after it has received the requests of a log.\<close>

definition peer_state :: "crates \<Rightarrow> mctp_endpoint_context \<Rightarrow> bytes list \<Rightarrow> mctp_endpoint_context" where
  "peer_state C d log = fold (\<lambda>bs c. snd (handle_request C c bs)) log d"

text \<open>An environment in which one such device answers every request.\<close>

definition peer_env :: "crates \<Rightarrow> mctp_endpoint_context \<Rightarrow> bus_env" where
  "peer_env C d =
     \<lparr>before_env = (\<lambda>_. []), exchange_env = (\<lambda>log req. ([], case fst (handle_request C (peer_state C d log) req) of
          Ok r \<Rightarrow> Replied (Inr r) | Err e \<Rightarrow> RecvFailed e | Panic m \<Rightarrow> RecvFailed [m])),
      top_env = (\<lambda>_. []), idle_env = (\<lambda>_. [])\<rparr>"

definition plain_texts :: loop_texts where
  "plain_texts = \<lparr>debug_set_eid = (\<lambda>_. []), debug_allocate = (\<lambda>_. []),
     send_error = [''channel closed''], recv_error = [''channel closed'']\<rparr>"

text \<open>The answers of a simple endpoint that takes the identifier it is given.\<close>

definition simple_answer :: "crates \<Rightarrow> bytes \<Rightarrow> bool" where
  "simple_answer C b \<longleftrightarrow>
     (\<exists>p x. try_to_response C (get_eid_response_try_from C) b = Ok (p, x) \<and>
        response_is_success C (get_eid_resp_completion_code x) = Ok () \<and>
        eid_type_from_u8 C (get_eid_resp_eid_type C x) = Dynamic \<and>
        endpoint_type_from_u8 C (get_eid_resp_endpoint_type C x) = Simple)"

definition accepted_answer :: "crates \<Rightarrow> bytes \<Rightarrow> bool" where
  "accepted_answer C b \<longleftrightarrow>
     (\<exists>p x. try_to_response C (set_eid_response_try_from C) b = Ok (p, x) \<and>
        response_is_success C (set_eid_resp_completion_code x) = Ok () \<and>
        eid_assignment_status_bits C x = 0 \<and> set_eid_resp_allocation_status C x = NoPoolSupport)"

text \<open>With such answers a discovery is two exchanges.\<close>

lemma discover_simple_endpoint:
  assumes "unat n < 255"
  shows "\<exists>k1. discover C D chk n = Ask (LoopGetEid 0) k1 \<and>
    (\<forall>b1. simple_answer C b1 \<longrightarrow> (\<exists>k2. k1 (Replied (Inr b1)) = Ask (LoopSetEid n) k2 \<and>
      (\<forall>b2. accepted_answer C b2 \<longrightarrow> k2 (Replied (Inr b2)) = task_return (n + 1))))"
proof -
  have add: "(add_u chk n 1 :: (anyhow, u8) res) = Ok (n + 1)" using assms by (simp add: add_u_def)
  show ?thesis
    by (simp add: discover_def send_get_eid_request_def send_and_decode_def task_context_def, intro allI impI)
      (auto simp: simple_answer_def accepted_answer_def assign_eid_def send_set_eid_request_def send_and_decode_def
        task_context_def add reserve_pool_def allocate_pool_def Let_def)
qed

context crates_spec
begin

lemma request_bytes_layout:
  assumes "wf_transport_header h" "wf_control_msg_header ch"
    "body = control_msg_header_ser C ch @ tail"
  shows "length (request_bytes C h ch body) = 7 + length tail"
    "request_bytes C h ch body ! 6 = command_code_to_u8 (hdr_command_code ch)"
    "i < length tail \<Longrightarrow> request_bytes C h ch body ! (7 + i) = tail ! i"
proof -
  obtain a b where ab: "msg_type_integrity_check_instance_id_rsvd_d_bit_rq ch = [a, b]"
    using assms(2) by (auto simp: wf_control_conv)
  have len: "length (transport_header_ser C h) = 4"
    using th.enc_length [OF assms(1)] by (simp add: transport_header_size_def)
  have bytes: "request_bytes C h ch body =
      transport_header_ser C h @ [a, b, command_code_to_u8 (hdr_command_code ch)] @ tail"
    by (simp add: request_bytes_def control_payload_to_bytes_def control_payload_new_def assms(3)
        control_ser ab)
  show "length (request_bytes C h ch body) = 7 + length tail" by (simp add: bytes len)
  show "request_bytes C h ch body ! 6 = command_code_to_u8 (hdr_command_code ch)"
    by (simp add: bytes len nth_append)
  show "i < length tail \<Longrightarrow> request_bytes C h ch body ! (7 + i) = tail ! i"
    by (simp add: bytes len nth_append nth_Cons')
qed

text \<open>Bytes behind a response, such as the error code of its frame, do not matter to its decoding.\<close>

lemma padded_response:
  assumes cd: "codec enc dec sz ok"
    and bs: "try_to_response C (from_binary_try_from C sz dec) bs = Ok (p, x)"
  shows "\<exists>p'. try_to_response C (from_binary_try_from C sz dec) (bs @ r) = Ok (p', x)"
proof -
  let ?g = "from_binary_try_from C sz dec"
  have p: "control_payload_try_from C bs = Ok p" and x: "?g (payload p) = Ok x"
    using bs
    by (cases "control_payload_try_from C bs"; cases "?g (payload p)"; auto simp: try_to_response_def split: res.splits)+
  note pc = payload_code [OF p]
  have len: "sz \<le> length (drop 4 bs)"
    using codec.try_from_is_ok [OF cd, of C "drop 4 bs"] x pc by simp
  then have "?g (drop 4 bs @ r) = ?g (drop 4 bs)"
    using codec.try_from_take [OF cd, of "drop 4 bs" C] codec.try_from_take [OF cd, of "drop 4 bs @ r" C] by simp
  with x pc have y: "?g (drop 4 (bs @ r)) = Ok x" by simp
  show ?thesis
    by (cases rule: payload_try_from_cases [of "bs @ r"])
      (use pc y in \<open>simp_all add: try_to_response_def control_payload_new_def\<close>)
qed

lemma padded_get_eid_response:
  "try_to_response C (get_eid_response_try_from C) bs = Ok (p, x) \<Longrightarrow>
    \<exists>p'. try_to_response C (get_eid_response_try_from C) (bs @ r) = Ok (p', x)"
  using padded_response [OF geteid_resp.codec_axioms]
  by (simp add: get_eid_response_try_from_def control_payload_eq_binary)

lemma padded_set_eid_response:
  "try_to_response C (set_eid_response_try_from C) bs = Ok (p, x) \<Longrightarrow>
    \<exists>p'. try_to_response C (set_eid_response_try_from C) (bs @ r) = Ok (p', x)"
  using padded_response [OF seteid_resp.codec_axioms]
  by (simp add: set_eid_response_try_from_def control_payload_eq_binary)

lemma padded_answers:
  "simple_answer C b \<Longrightarrow> simple_answer C (b @ r)" "accepted_answer C b \<Longrightarrow> accepted_answer C (b @ r)"
  using padded_get_eid_response padded_set_eid_response unfolding simple_answer_def accepted_answer_def by metis+

text \<open>The two requests of a discovery, with anything behind them, as the device reads them.\<close>

lemma discovery_requests:
  shows "loop_request_bytes C (LoopGetEid d) s = (Ok m, s') \<Longrightarrow>
      7 \<le> length m \<and> command_code_from_u8 C ((m @ r) ! 6) = GetEndpointID"
    and "loop_request_bytes C (LoopSetEid e) s = (Ok m, s') \<Longrightarrow>
      9 \<le> length m \<and> command_code_from_u8 C ((m @ r) ! 6) = SetEndpointID \<and> (m @ r) ! 8 = e"
proof -
  let ?h = "transport_header_new C (assigned_eid (ctx s)) d (next_msg_tag (ctx s)) (Some True) (Some True) (Some True)"
  let ?ch = "control_msg_header_new C GetEndpointID (next_instance_id (ctx s)) False True False"
  note lay = request_bytes_layout [OF new_wf control_new_wf, where tail = "[]",
      of "get_eid_request_ser C \<lparr>get_eid_req_hdr = ?ch\<rparr>"]
  assume "loop_request_bytes C (LoopGetEid d) s = (Ok m, s')"
  then have "m = request_bytes C ?h ?ch (get_eid_request_ser C \<lparr>get_eid_req_hdr = ?ch\<rparr>)"
    by (simp add: loop_request_bytes_def act_bind_def act_lift_def new_transport_hdr_def next_ctrl_hdr_def Let_def)
  then show "7 \<le> length m \<and> command_code_from_u8 C ((m @ r) ! 6) = GetEndpointID"
    using lay(1,2) command_code_enum.from_to [of GetEndpointID]
    by (simp add: get_eid_request_ser_def header_simps nth_append)
next
  let ?h = "transport_header_new C (assigned_eid (ctx s)) 0 (next_msg_tag (ctx s)) (Some True) (Some True) (Some True)"
  let ?ch = "control_msg_header_new C SetEndpointID (next_instance_id (ctx s)) False True False"
  let ?q = "set_eid_request_new C ?ch SetEid e"
  have "wf_set_eid_request ?q" by (simp add: header_simps)
  then obtain op where op: "set_eid_operation_reserved ?q = [op]"
    unfolding wf_set_eid_request_def length_1_conv by blast
  have ser: "set_eid_request_ser C ?q = control_msg_header_ser C ?ch @ [op, e]"
    by (simp add: set_eid_request_ser_def header_simps codec_simps wire_u8 op)
  note lay = request_bytes_layout [OF new_wf control_new_wf ser]
  assume "loop_request_bytes C (LoopSetEid e) s = (Ok m, s')"
  then have "m = request_bytes C ?h ?ch (set_eid_request_ser C ?q)"
    by (simp add: loop_request_bytes_def act_bind_def act_lift_def new_transport_hdr_def next_ctrl_hdr_def Let_def)
  then show "9 \<le> length m \<and> command_code_from_u8 C ((m @ r) ! 6) = SetEndpointID \<and> (m @ r) ! 8 = e"
    using lay(1,2) lay(3) [of 1] command_code_enum.from_to [of SetEndpointID]
    by (simp add: header_simps nth_append)
qed

text \<open>How it answers them: it stores the identifier, and is otherwise unchanged.\<close>

lemma peer_answers:
  shows "loop_request_bytes C (LoopGetEid d) s = (Ok m, s') \<Longrightarrow>
      \<exists>b. handle_request C c (m @ r) = (Ok b, c) \<and> simple_answer C b"
    and "loop_request_bytes C (LoopSetEid e) s = (Ok m, s') \<Longrightarrow>
      \<exists>b. handle_request C c (m @ r) = (Ok b, c\<lparr>assigned_eid := e\<rparr>) \<and> accepted_answer C b"
proof -
  obtain x c' where run: "handle_request C c (m @ r) = (x, c')" by fastforce
  assume "loop_request_bytes C (LoopGetEid d) s = (Ok m, s')"
  from discovery_requests(1) [OF this, of r] have "7 \<le> length (m @ r)"
    "command_code_from_u8 C ((m @ r) ! 6) = GetEndpointID" by simp_all
  from get_endpoint_id_answer [OF this run] run
  show "\<exists>b. handle_request C c (m @ r) = (Ok b, c) \<and> simple_answer C b" by (auto simp: simple_answer_def)
next
  obtain x c' where run: "handle_request C c (m @ r) = (x, c')" by fastforce
  assume "loop_request_bytes C (LoopSetEid e) s = (Ok m, s')"
  from discovery_requests(2) [OF this, of r] have m: "9 \<le> length (m @ r)"
    "command_code_from_u8 C ((m @ r) ! 6) = SetEndpointID" "(m @ r) ! 8 = e" by simp_all
  from handle_request_branches [of c "m @ r"] run m have "c' = c\<lparr>assigned_eid := e\<rparr>" by auto
  with set_endpoint_id_answer [OF m(1,2) run] run
  show "\<exists>b. handle_request C c (m @ r) = (Ok b, c\<lparr>assigned_eid := e\<rparr>) \<and> accepted_answer C b"
    by (auto simp: accepted_answer_def)
qed

text \<open>An exchange with such a device.\<close>

lemma perform_peer:
  assumes "loop_request_bytes C q s = (Ok m, s\<lparr>ctx := c\<rparr>)" "handle_request C (peer_state C d (sent s)) m = (Ok b, d')"
  shows "perform C (peer_env C d) (Ask q k) s = perform C (peer_env C d) (k (Replied (Inr b))) \<lparr>ctx = c, sent = sent s @ [m]\<rparr> \<and>
    peer_state C d (sent s @ [m]) = d'"
proof
  have "exchange_env (peer_env C d) (sent s) m = ([], Replied (Inr b))" using assms(2) by (simp add: peer_env_def)
  then have "perform C (peer_env C d) (Ask q k) s =
      perform C (peer_env C d) (k (Replied (Inr b))) (exchanged C m [] (Replied (Inr b)) (s\<lparr>ctx := c\<rparr>))"
    by (intro perform_Ask) (use assms(1) in \<open>simp_all add: peer_env_def\<close>)
  then show "perform C (peer_env C d) (Ask q k) s =
      perform C (peer_env C d) (k (Replied (Inr b))) \<lparr>ctx = c, sent = sent s @ [m]\<rparr>"
    by (cases s) (simp add: exchanged_def)
  show "peer_state C d (sent s @ [m]) = d'" using assms(2) by (simp add: peer_state_def)
qed

lemma discover_peer:
  assumes "unat n < 255"
  shows "\<exists>s' m1 m2. perform C (peer_env C d) (discover C D chk n) s = (Ok (n + 1), s') \<and>
    sent s' = sent s @ [m1, m2] \<and> ranges C [m1, m2] = [(unat n, unat n + 1)] \<and>
    assigned_eid (peer_state C d (sent s')) = n"
proof -
  from discover_simple_endpoint [OF assms, of C D chk] obtain k1 where
    k1: "discover C D chk n = Ask (LoopGetEid 0) k1"
      "\<And>b1. simple_answer C b1 \<Longrightarrow> \<exists>k2. k1 (Replied (Inr b1)) = Ask (LoopSetEid n) k2 \<and>
        (\<forall>b2. accepted_answer C b2 \<longrightarrow> k2 (Replied (Inr b2)) = task_return (n + 1))" by blast
  obtain m1 c1 where m1: "loop_request_bytes C (LoopGetEid 0) s = (Ok m1, s\<lparr>ctx := c1\<rparr>)"
    using loop_request_bytes_ctx [of "ctx s" C "LoopGetEid 0"] by blast
  from peer_answers(1) [OF m1, of _ "[]"] obtain b1 where
    b1: "handle_request C (peer_state C d (sent s)) m1 = (Ok b1, peer_state C d (sent s))" "simple_answer C b1" by auto
  note p1 = perform_peer [OF m1 b1(1), of k1]
  obtain k2 where k2: "k1 (Replied (Inr b1)) = Ask (LoopSetEid n) k2"
    "\<And>b2. accepted_answer C b2 \<Longrightarrow> k2 (Replied (Inr b2)) = task_return (n + 1)" using k1(2) [OF b1(2)] by blast
  let ?s = "\<lparr>ctx = c1, sent = sent s @ [m1]\<rparr>"
  obtain m2 c2 where m2: "loop_request_bytes C (LoopSetEid n) ?s = (Ok m2, ?s\<lparr>ctx := c2\<rparr>)"
    using loop_request_bytes_ctx [of "ctx ?s" C "LoopSetEid n"] by blast
  from peer_answers(2) [OF m2, of _ "[]"] obtain b2 where
    b2: "handle_request C (peer_state C d (sent ?s)) m2 = (Ok b2, (peer_state C d (sent ?s))\<lparr>assigned_eid := n\<rparr>)"
      "accepted_answer C b2" by auto
  note p2 = perform_peer [OF m2 b2(1), of k2]
  have "perform C (peer_env C d) (discover C D chk n) s = (Ok (n + 1), \<lparr>ctx = c2, sent = sent ?s @ [m2]\<rparr>)"
    using p1 p2 by (simp add: k1(1) k2(1) k2(2) [OF b2(2)] act_lift_def)
  moreover have "ranges C [m1, m2] = [(unat n, unat n + 1)]"
    using ranges_append [of C "[m1]" "[m2]"] loop_request_ranges [OF m1] loop_request_ranges [OF m2] by simp
  ultimately show ?thesis using p2 by (intro exI [of _ "\<lparr>ctx = c2, sent = sent ?s @ [m2]\<rparr>"]) auto
qed

end

section \<open>A notification before every turn\<close>

text \<open>The device that answers, and a Discovery Notify request that arrives before every turn.\<close>

definition notified_env :: "crates \<Rightarrow> mctp_endpoint_context \<Rightarrow> bytes \<Rightarrow> bus_env" where
  "notified_env C d notify = (peer_env C d)\<lparr>top_env := (\<lambda>_. [notify])\<rparr>"

text \<open>What happens between turns does not matter to a task.\<close>

lemma perform_between_turns: "perform C (E\<lparr>top_env := f\<rparr>) t = perform C E t"
  by (induction t) (simp_all add: rangeI)

context crates_spec
begin

lemma notified_turns:
  assumes notify: "7 \<le> length notify" "command_code_from_u8 C (notify ! 6) = DiscoveryNotify"
    and "unat n + turns \<le> 255"
  shows "\<exists>s' ms. bus_owner_turns C (notified_env C d notify) D chk ping turns k n s = (Ok (n + of_nat turns), s') \<and>
    sent s' = sent s @ ms \<and> ranges C ms = map (\<lambda>i. (unat n + i, unat n + i + 1)) [0..<turns] \<and>
    (0 < turns \<longrightarrow> unat (assigned_eid (peer_state C d (sent s'))) = unat n + (turns - 1))"
  using assms(3)
proof (induction turns arbitrary: k n s)
  case 0
  show ?case by (simp add: act_lift_def)
next
  case (Suc turns)
  let ?E = "notified_env C d notify"
  let ?c = "(ctx s)\<lparr>perform_discovery := False\<rparr>"
  obtain r where "handle_request C (ctx s) notify = (r, (ctx s)\<lparr>perform_discovery := True\<rparr>)"
    using handle_request_branches [of "ctx s" notify] notify by (auto simp: is_ok_iff)
  then have "answer_others C (top_env ?E k) s = s\<lparr>ctx := (ctx s)\<lparr>perform_discovery := True\<rparr>\<rparr>"
    by (simp add: answer_others_def notified_env_def)
  then have turn: "bus_owner_turn C ?E D chk ping k n s = perform C (peer_env C d) (discover C D chk n) (s\<lparr>ctx := ?c\<rparr>)"
    by (simp add: bus_owner_turn_def notified_env_def perform_between_turns)
  have n: "unat n < 255" using Suc.prems by simp
  from discover_peer [OF n, of d D chk "s\<lparr>ctx := ?c\<rparr>"] obtain s1 m1 m2 where
    s1: "perform C (peer_env C d) (discover C D chk n) (s\<lparr>ctx := ?c\<rparr>) = (Ok (n + 1), s1)"
      "sent s1 = sent s @ [m1, m2]" "ranges C [m1, m2] = [(unat n, unat n + 1)]"
      "assigned_eid (peer_state C d (sent s1)) = n" by auto
  have un: "unat (n + 1) = unat n + 1" using n by (simp add: unat_word_ariths)
  with Suc.prems Suc.IH [of "n + 1" "Suc k" s1] obtain s' ms where
    s': "bus_owner_turns C ?E D chk ping turns (Suc k) (n + 1) s1 = (Ok (n + 1 + of_nat turns), s')"
      "sent s' = sent s1 @ ms" "ranges C ms = map (\<lambda>i. (unat n + 1 + i, unat n + 1 + i + 1)) [0..<turns]"
      "0 < turns \<longrightarrow> unat (assigned_eid (peer_state C d (sent s'))) = unat n + 1 + (turns - 1)" by auto
  have "bus_owner_turns C ?E D chk ping (Suc turns) k n s = (Ok (n + of_nat (Suc turns)), s')"
    using turn s1(1) s'(1) by (simp add: act_bind_def algebra_simps)
  moreover have "sent s' = sent s @ (m1 # m2 # ms)" using s1(2) s'(2) by simp
  moreover have "ranges C (m1 # m2 # ms) = map (\<lambda>i. (unat n + i, unat n + i + 1)) [0..<Suc turns]"
    using ranges_append [of C "[m1, m2]" ms] s1(3) s'(3) by (simp add: map_upt_Suc del: upt_Suc)
  moreover have "unat (assigned_eid (peer_state C d (sent s'))) = unat n + (Suc turns - 1)"
  proof (cases turns)
    case 0
    with s'(1) s1(4) show ?thesis by (simp add: act_lift_def)
  next
    case (Suc t)
    with s'(4) show ?thesis by simp
  qed
  ultimately show ?case by blast
qed

end

section \<open>Properties\<close>

text \<open>
  In a build with overflow checks, take the ranges of endpoint
  identifiers in the requests that any number of turns of the bus owner loop send, in order,
  whatever the devices reply and however the loop ends. No range starts below the first
  identifier of the pool, a later one never starts before an earlier one ends, so no
  identifier is handed out twice, and none contains the broadcast identifier.
\<close>

theorem bus_owner_eids_disjoint:
  assumes "crates_spec C" "run_bus_owner_loop C E D True ping turns s = (r, s')"
  shows "\<exists>ms. sent s' = sent s @ ms \<and>
    (\<forall>i < length (ranges C ms). unat (min_eid_in_pool (ctx s)) \<le> fst (ranges C ms ! i) \<and>
       fst (ranges C ms ! i) \<le> snd (ranges C ms ! i) \<and> snd (ranges C ms ! i) \<le> 255) \<and>
    (\<forall>i j. i < j \<and> j < length (ranges C ms) \<longrightarrow> snd (ranges C ms ! i) \<le> fst (ranges C ms ! j))"
proof -
  let ?lo = "unat (min_eid_in_pool (ctx s))"
  from crates_spec.turns_hand_out [OF assms(1) assms(2) [unfolded run_bus_owner_loop_def]]
  obtain ms hi where ms: "sent s' = sent s @ ms" "increasing ?lo (ranges C ms) hi" "hi \<le> 255" by blast
  have "increasing ?lo (ranges C ms) 255" using increasing_mono [OF ms(2,3)] .
  then show ?thesis using ms(1) increasing_nth increasing_disjoint by blast
qed

theorem bus_owner_eids_disjoint_witness:
  "\<exists>r s' ms. run_bus_owner_loop std_crates (peer_env std_crates main_context) plain_texts True 0 1
      \<lparr>ctx = main_context\<lparr>perform_discovery := True\<rparr>, sent = []\<rparr> = (r, s') \<and> sent s' = ms \<and>
    ranges std_crates ms = [(0x80, 0x81)] \<and> fst (ranges std_crates ms ! 0) \<le> snd (ranges std_crates ms ! 0)"
proof -
  let ?E = "peer_env std_crates main_context"
  let ?s = "\<lparr>ctx = main_context\<lparr>perform_discovery := True\<rparr>, sent = []\<rparr> :: bus_owner"
  let ?quiet = "\<lparr>ctx = main_context\<lparr>perform_discovery := False\<rparr>, sent = []\<rparr> :: bus_owner"
  have "unat (0x80 :: u8) < 255" by simp
  from std.discover_peer [OF this, of main_context plain_texts True ?quiet] obtain s' m1 m2
    where d: "perform std_crates ?E (discover std_crates plain_texts True 0x80) ?quiet = (Ok (0x80 + 1), s')" "sent s' = [m1, m2]"
      "ranges std_crates [m1, m2] = [(0x80, 0x81)]"
    by auto
  have min: "min_eid_in_pool main_context = 0x80" by (simp add: main_context_def)
  have "bus_owner_turn std_crates ?E plain_texts True 0 0 0x80 ?s = (Ok (0x80 + 1), s')"
    using d(1) by (simp add: bus_owner_turn_def peer_env_def)
  then have run: "run_bus_owner_loop std_crates ?E plain_texts True 0 1 ?s = (Ok (0x80 + 1), s')"
    by (simp add: run_bus_owner_loop_def act_bind_def act_lift_def min)
  from bus_owner_eids_disjoint [OF std_crates_spec run] d(2,3)
  have "fst (ranges std_crates [m1, m2] ! 0) \<le> snd (ranges std_crates [m1, m2] ! 0)" by simp
  with run d(2,3) show ?thesis by blast
qed



text \<open>
  C18: a Discovery Notify arrives before every turn, and a device that
  takes the identifier it is given answers every request. Each of the \<open>turns\<close> turns then hands out
  one identifier, counting up from the first of the pool, as long as they stay below 255: the
  size of the pool is not looked at. After as many turns as the pool has identifiers, the next
  one lies outside the pool, and the device stores it.
\<close>

theorem discovery_leaves_pool:
  assumes "crates_spec C" "7 \<le> length notify" "command_code_from_u8 C (notify ! 6) = DiscoveryNotify"
    "unat (min_eid_in_pool (ctx s)) + turns \<le> 255"
  shows "\<exists>s' ms. run_bus_owner_loop C (notified_env C d notify) D chk ping turns s =
      (Ok (min_eid_in_pool (ctx s) + of_nat turns), s') \<and> sent s' = sent s @ ms \<and>
    ranges C ms = map (\<lambda>i. (unat (min_eid_in_pool (ctx s)) + i, unat (min_eid_in_pool (ctx s)) + i + 1)) [0..<turns] \<and>
    (unat (eid_pool_size (ctx s)) < turns \<longrightarrow>
       unat (min_eid_in_pool (ctx s)) + unat (eid_pool_size (ctx s)) \<le> fst (last (ranges C ms)) \<and>
       unat (assigned_eid (peer_state C d (sent s'))) = fst (last (ranges C ms)))"
proof -
  from crates_spec.notified_turns [OF assms(1-4), where k = 0 and d = d and D = D and chk = chk and ping = ping and s = s]
  obtain s' ms where s':
    "run_bus_owner_loop C (notified_env C d notify) D chk ping turns s = (Ok (min_eid_in_pool (ctx s) + of_nat turns), s')"
    "sent s' = sent s @ ms"
    "ranges C ms = map (\<lambda>i. (unat (min_eid_in_pool (ctx s)) + i, unat (min_eid_in_pool (ctx s)) + i + 1)) [0..<turns]"
    "0 < turns \<Longrightarrow> unat (assigned_eid (peer_state C d (sent s'))) = unat (min_eid_in_pool (ctx s)) + (turns - 1)"
    unfolding run_bus_owner_loop_def by blast
  have "fst (last (ranges C ms)) = unat (min_eid_in_pool (ctx s)) + (turns - 1)" if "0 < turns"
    using that by (simp add: s'(3) last_map)
  moreover have "0 < turns" if "unat (eid_pool_size (ctx s)) < turns" using that by simp
  ultimately show ?thesis
    by (intro exI [of _ s'] exI [of _ ms] conjI impI s'(1-3)) (simp_all add: s'(4))
qed

theorem discovery_leaves_pool_witness:
  "\<exists>s' ms. run_bus_owner_loop std_crates (notified_env std_crates main_context [1, 0, 9, 0xc8, 0, 0x81, 0x0D]) plain_texts True 0 33
      \<lparr>ctx = main_context, sent = []\<rparr> = (Ok 0xA1, s') \<and> sent s' = ms \<and>
    last (ranges std_crates ms) = (0xA0, 0xA1) \<and>
    assigned_eid (peer_state std_crates main_context ms) = 0xA0 \<and> eid_pool_size main_context = 32"
proof -
  let ?s = "\<lparr>ctx = main_context, sent = []\<rparr> :: bus_owner" and ?n = "[1, 0, 9, 0xc8, 0, 0x81, 0x0D] :: bytes"
  have pool: "min_eid_in_pool main_context = 0x80" "eid_pool_size main_context = 32" by (simp_all add: main_context_def)
  have n: "7 \<le> length ?n" "command_code_from_u8 std_crates (?n ! 6) = DiscoveryNotify"
    using std.command_code_enum.from_to [of DiscoveryNotify] by simp_all
  have "unat (min_eid_in_pool (ctx ?s)) + 33 \<le> 255" by (simp add: pool)
  from discovery_leaves_pool [OF std_crates_spec n this, of main_context plain_texts True 0] obtain s' ms where
    run: "run_bus_owner_loop std_crates (notified_env std_crates main_context ?n) plain_texts True 0 33 ?s = (Ok 0xA1, s')"
      "sent s' = ms"
    and rs: "ranges std_crates ms = map (\<lambda>i. (128 + i, 128 + i + 1)) [0..<33]"
    and eid: "unat (assigned_eid (peer_state std_crates main_context ms)) = fst (last (ranges std_crates ms))"
    by (auto simp: pool)
  have last: "last (ranges std_crates ms) = (0xA0, 0xA1)" by (simp add: rs last_map)
  with eid have "unat (assigned_eid (peer_state std_crates main_context ms)) = unat (0xA0 :: u8)" by simp
  then have "assigned_eid (peer_state std_crates main_context ms) = 0xA0" by (simp only: word_unat_eq_iff)
  with run last pool show ?thesis by auto
qed

context crates_spec
begin

lemma handle_request_answer:
  assumes "handle_request C c bs = (Ok r, c')"
  shows "\<exists>p q t rt. control_payload_try_from C bs = Ok p \<and> control_payload_try_from C r = Ok q \<and>
    hdr q = create_response C (hdr p) \<and>
    hdr_command_code (control_hdr q) = hdr_command_code (control_hdr p) \<and>
    instance_id C (control_hdr q) = instance_id C (control_hdr p) \<and> rq C (control_hdr q) = 0 \<and>
    create_tag C bs = Some t \<and> create_tag C r = Some rt \<and> flow_matches t rt"
proof -
  from handle_request_response [OF assms] obtain p tail
    where p: "control_payload_try_from C bs = Ok p" and r: "response_to C p tail r" by blast
  have "wf_control_msg_header (control_hdr p)"
    using payload_parse_consistent [OF p] consistent_hdr_wf by blast
  then show ?thesis
    using p response_to_parse [OF p r] by (auto simp: control_payload_new_def header_simps)
qed

end

text \<open>
  C12: whatever \<open>handle_request\<close> answers to a request parses as a
  control payload: under the response header of the request, with its command code and
  instance and the request bit cleared. The answer matches the flow of the request, so the
  requester's flow table finds it.
\<close>

theorem handle_request_answers:
  assumes "crates_spec C" "handle_request C c bs = (Ok r, c')"
  shows "\<exists>p q t rt. control_payload_try_from C bs = Ok p \<and> control_payload_try_from C r = Ok q \<and>
    hdr q = create_response C (hdr p) \<and>
    hdr_command_code (control_hdr q) = hdr_command_code (control_hdr p) \<and>
    instance_id C (control_hdr q) = instance_id C (control_hdr p) \<and> rq C (control_hdr q) = 0 \<and>
    create_tag C bs = Some t \<and> create_tag C r = Some rt \<and> flow_matches t rt"
  by (rule crates_spec.handle_request_answer [OF assms])

lemma std_command_codes:
  "command_code_from_u8 std_crates 1 = SetEndpointID" "command_code_from_u8 std_crates 2 = GetEndpointID"
  "command_code_from_u8 std_crates 0x77 = Unknown"
  using std.command_code_enum.from_to [of SetEndpointID] std.command_code_enum.from_to [of GetEndpointID]
    std.command_code_enum.from_unknown [of "0x77"]
  by (simp_all add: command_code_variants_def command_code_default_def)

theorem handle_request_answers_witness:
  "\<exists>r t rt. handle_request std_crates main_context [1, 9, 8, 0xc9, 0, 0x81, 2] = (Ok r, main_context) \<and>
     create_tag std_crates [1, 9, 8, 0xc9, 0, 0x81, 2] = Some t \<and> create_tag std_crates r = Some rt \<and>
     flow_matches t rt"
proof -
  let ?bs = "[1, 9, 8, 0xc9, 0, 0x81, 2] :: bytes"
  have "command_code_from_u8 std_crates (?bs ! 6) = GetEndpointID" by (simp add: std_command_codes)
  from std.get_endpoint_id_answer [OF _ this, of main_context]
  obtain r where r: "handle_request std_crates main_context ?bs = (Ok r, main_context)"
    by (cases "handle_request std_crates main_context ?bs") auto
  from handle_request_answers [OF std_crates_spec r] r show ?thesis by blast
qed

text \<open>
  C24: \<open>handle_request\<close> answers exactly the requests that are long
  enough for their command, panics exactly when seven bytes or more carry a command code it
  does not know, and returns an error otherwise. The endpoint changes only when a Set
  Endpoint ID request is answered, whatever its operation, and when a Discovery Notify is.
\<close>

theorem handle_request_outcome:
  assumes "crates_spec C" "code = command_code_from_u8 C (bs ! 6)" "handle_request C c bs = (r, c')"
  shows "(is_ok r \<longleftrightarrow> 7 \<le> length bs \<and> code \<noteq> Unknown \<and> (code = SetEndpointID \<longrightarrow> 9 \<le> length bs) \<and>
       (code = GetRoutingTableEntries \<longrightarrow> 8 \<le> length bs)) \<and>
    ((\<exists>m. r = Panic m) \<longleftrightarrow> 7 \<le> length bs \<and> code = Unknown) \<and>
    c' = (if is_ok r \<and> code = SetEndpointID then c\<lparr>assigned_eid := bs ! 8\<rparr>
          else if is_ok r \<and> code = DiscoveryNotify then c\<lparr>perform_discovery := True\<rparr> else c)"
  using crates_spec.handle_request_branches [OF assms(1), of c bs] assms(2,3) by auto

theorem handle_request_outcome_witness:
  "\<exists>m. handle_request std_crates main_context [1, 9, 8, 0xc9, 0, 0x81, 0x77] = (Panic m, main_context)"
proof -
  let ?bs = "[1, 9, 8, 0xc9, 0, 0x81, 0x77] :: bytes"
  obtain r c' where run: "handle_request std_crates main_context ?bs = (r, c')" by fastforce
  from handle_request_outcome [OF std_crates_spec refl run] run show ?thesis
    by (auto simp: std_command_codes)
qed

text \<open>
  C33: the answer to a Set Endpoint ID request decodes, with the
  function the bus owner itself uses on replies, to a successful and accepted assignment of
  exactly the identifier that was asked for, without a pool.
\<close>

theorem set_endpoint_id_accepted:
  assumes "crates_spec C" "9 \<le> length bs" "command_code_from_u8 C (bs ! 6) = SetEndpointID"
    "handle_request C c bs = (r, c')"
  shows "\<exists>bytes p x. r = Ok bytes \<and> try_to_response C (set_eid_response_try_from C) bytes = Ok (p, x) \<and>
    response_is_success C (set_eid_resp_completion_code x) = Ok () \<and>
    eid_assignment_status_bits C x = 0 \<and> set_eid_resp_allocation_status C x = NoPoolSupport \<and>
    eid_setting x = bs ! 8 \<and> set_eid_resp_pool_size x = 0"
  by (rule crates_spec.set_endpoint_id_answer [OF assms])

theorem set_endpoint_id_accepted_witness:
  "\<exists>bytes c' p x. handle_request std_crates main_context [1, 9, 8, 0xc9, 0, 0x81, 1, 0, 0x42] = (Ok bytes, c') \<and>
     try_to_response std_crates (set_eid_response_try_from std_crates) bytes = Ok (p, x) \<and> eid_setting x = 0x42"
proof -
  let ?bs = "[1, 9, 8, 0xc9, 0, 0x81, 1, 0, 0x42] :: bytes"
  obtain r c' where run: "handle_request std_crates main_context ?bs = (r, c')" by fastforce
  have "9 \<le> length ?bs" "command_code_from_u8 std_crates (?bs ! 6) = SetEndpointID"
    by (simp_all add: std_command_codes)
  from set_endpoint_id_accepted [OF std_crates_spec this run] run show ?thesis by auto
qed

text \<open>
  The endpoint stores the identifier of a Set Endpoint ID
  request, but a Get Endpoint ID request after it is still answered with identifier 0.
\<close>

theorem get_endpoint_id_forgets:
  assumes "crates_spec C" "9 \<le> length bs" "command_code_from_u8 C (bs ! 6) = SetEndpointID"
    "handle_request C c bs = (r, c')"
    "7 \<le> length bs'" "command_code_from_u8 C (bs' ! 6) = GetEndpointID" "handle_request C c' bs' = (r', c'')"
  shows "assigned_eid c'' = bs ! 8 \<and>
    (\<exists>bytes p x. r' = Ok bytes \<and> try_to_response C (get_eid_response_try_from C) bytes = Ok (p, x) \<and>
       response_is_success C (get_eid_resp_completion_code x) = Ok () \<and> get_eid_resp_eid x = 0)"
proof -
  have "c' = c\<lparr>assigned_eid := bs ! 8\<rparr>"
    using crates_spec.handle_request_branches [OF assms(1), of c bs] assms(2-4) by auto
  then show ?thesis using crates_spec.get_endpoint_id_answer [OF assms(1,5-7)] by auto
qed

theorem get_endpoint_id_forgets_witness:
  "\<exists>c' c'' bytes p x. handle_request std_crates c' [1, 9, 8, 0xc9, 0, 0x82, 2] = (Ok bytes, c'') \<and>
     assigned_eid c'' = 0x42 \<and>
     try_to_response std_crates (get_eid_response_try_from std_crates) bytes = Ok (p, x) \<and> get_eid_resp_eid x = 0"
proof -
  let ?bs = "[1, 9, 8, 0xc9, 0, 0x81, 1, 0, 0x42] :: bytes" and ?g = "[1, 9, 8, 0xc9, 0, 0x82, 2] :: bytes"
  obtain r c' where run: "handle_request std_crates main_context ?bs = (r, c')" by fastforce
  obtain r' c'' where run': "handle_request std_crates c' ?g = (r', c'')" by fastforce
  have "9 \<le> length ?bs" "command_code_from_u8 std_crates (?bs ! 6) = SetEndpointID"
    "7 \<le> length ?g" "command_code_from_u8 std_crates (?g ! 6) = GetEndpointID"
    by (simp_all add: std_command_codes)
  from get_endpoint_id_forgets [OF std_crates_spec this(1,2) run this(3,4) run']
  obtain bytes p x where "assigned_eid c'' = ?bs ! 8" "r' = Ok bytes"
    "try_to_response std_crates (get_eid_response_try_from std_crates) bytes = Ok (p, x)" "get_eid_resp_eid x = 0"
    by blast
  with run' show ?thesis by (intro exI [of _ c'] exI [of _ c''] exI [of _ bytes] exI [of _ p] exI [of _ x]) simp
qed

lemma receive_msg_unmatched:
  assumes "4 \<le> length buf" "buf ! 1 = 0x0f" "create_tag C (drop 4 buf) = Some rt" "flow_take rt pending = None"
  shows "\<exists>r c'. receive_msg C chk buf pending c = (r, pending, c') \<and> (\<forall>ch m. r \<noteq> Ok (Completed ch m))"
proof -
  have "res_bind (bus_owner_frame C chk q) (\<lambda>f. Ok (Framed f)) \<noteq> (Ok (Completed ch m) :: (anyhow, dispatch) res)" for q ch m
    by (cases "bus_owner_frame C chk q :: (anyhow, bytes) res") simp_all
  with assms show ?thesis
    by (cases "handle_request C c (drop 4 buf)") (auto simp: receive_msg_def send_cmd_def Let_def split: res.split)
qed

context crates_spec
begin

lemma receive_msg_framed:
  assumes "receive_msg C chk buf pending c = (Ok (Framed f), pending', c')"
  shows "\<exists>r. handle_request C c (drop 4 buf) = (Ok r, c') \<and> bus_owner_frame C chk r = Ok f \<and> pending' = pending"
  using assms
  by (auto simp: receive_msg_def send_cmd_def res_bind_eq_Ok Let_def
      split: if_splits option.splits prod.splits res.splits)

lemma bus_owner_frame_drop: "bus_owner_frame C chk r = Ok f \<Longrightarrow> \<exists>x. drop 4 f = r @ [x]"
  by (auto simp: bus_owner_frame_def res_bind_eq_Ok Let_def)

lemma bus_owner_frame_tag:
  assumes "bus_owner_frame C chk r = Ok f" "create_tag C r = Some rt" "4 \<le> length r"
  shows "create_tag C (drop 4 f) = Some rt"
proof -
  obtain x where x: "drop 4 f = r @ [x]" using bus_owner_frame_drop [OF assms(1)] by blast
  have "transport_header_try_from C (r @ [x]) = transport_header_try_from C r"
    using th.try_from_take [of r C] th.try_from_take [of "r @ [x]" C] assms(3)
    by (simp add: transport_header_try_from_def transport_header_size_def)
  then show ?thesis using assms(2,3) by (simp add: x create_tag_def)
qed

lemma reply_answers:
  assumes "receive_msg C chk buf pending c = (Ok (Framed f), pending', c')"
  shows "\<exists>t rt. create_tag C (drop 4 buf) = Some t \<and> create_tag C (drop 4 f) = Some rt \<and>
    flow_matches t rt \<and> pending' = pending"
proof -
  from receive_msg_framed [OF assms] obtain r
    where r: "handle_request C c (drop 4 buf) = (Ok r, c')" "bus_owner_frame C chk r = Ok f" "pending' = pending"
    by blast
  from handle_request_answer [OF r(1)] obtain q t rt where
    "control_payload_try_from C r = Ok q" "create_tag C (drop 4 buf) = Some t" "create_tag C r = Some rt"
    "flow_matches t rt" by blast
  moreover from this(1) have "7 \<le> length r" using payload_code by blast
  ultimately show ?thesis using bus_owner_frame_tag [OF r(2)] r(3) by simp
qed

end

text \<open>
  C32: when a datagram with the MCTP command answers pending requests, the
  dispatcher completes the oldest of them with the packet, takes it out of the table, the others
  staying in their order, and leaves the endpoint alone. When it answers none, the table stays
  as it is, no request is completed, and a frame sent in reply carries a packet that answers the
  flow of the packet received.
\<close>

theorem dispatch_received:
  assumes "crates_spec C" "4 \<le> length buf" "buf ! 1 = 0x0f" "create_tag C (drop 4 buf) = Some rt"
  shows "(\<forall>i < length pending.
      flow_matches (fst (pending ! i)) rt \<and> (\<forall>j < i. \<not> flow_matches (fst (pending ! j)) rt) \<longrightarrow>
      dispatch_command C chk (ReceiveMsg buf) pending c =
        (Ok (Completed (snd (pending ! i)) (drop 4 buf)), take i pending @ drop (Suc i) pending, c)) \<and>
    ((\<forall>f \<in> set pending. \<not> flow_matches (fst f) rt) \<longrightarrow>
      (\<exists>r c'. dispatch_command C chk (ReceiveMsg buf) pending c = (r, pending, c') \<and>
         (\<forall>ch m. r \<noteq> Ok (Completed ch m)) \<and>
         (\<forall>f. r = Ok (Framed f) \<longrightarrow> (\<exists>t. create_tag C (drop 4 f) = Some t \<and> flow_matches rt t))))"
proof (intro conjI allI impI, goal_cases)
  case (1 i)
  with flow_take_nth [of i pending rt]
  have "flow_take rt pending = Some ((fst (pending ! i), snd (pending ! i)), take i pending @ drop (Suc i) pending)" by simp
  with assms show ?case
    by (cases "pending ! i") (simp add: dispatch_command_def receive_msg_def Let_def)
next
  case 2
  then have "flow_take rt pending = None" using flows.take_None_iff by blast
  from receive_msg_unmatched [OF assms(2-4) this] obtain r c' where
    r: "receive_msg C chk buf pending c = (r, pending, c')" "\<forall>ch m. r \<noteq> Ok (Completed ch m)" by blast
  moreover have "\<exists>t. create_tag C (drop 4 f) = Some t \<and> flow_matches rt t" if "r = Ok (Framed f)" for f
    using crates_spec.reply_answers [OF assms(1) r(1) [unfolded that]] assms(4) by auto
  ultimately show ?case by (simp add: dispatch_command_def)
qed

theorem dispatch_received_witness:
  "\<exists>t r t'. dispatch_command std_crates True (ReceiveMsg ([0x20, 0x0f, 9, 0x61] @ r)) [(t', 1), (t, 3), (t, 4)] main_context =
     (Ok (Completed 3 r), [(t', 1), (t, 4)], main_context) \<and> length r = 11 \<and>
   (\<exists>x c. dispatch_command std_crates True (ReceiveMsg ([0x20, 0x0f, 9, 0x61] @ r)) [(t', 1)] main_context = (x, [(t', 1)], c))"
proof -
  let ?h = "transport_header_new std_crates 8 9 3 (Some True) (Some True) (Some True)"
  let ?t = "header_tag std_crates ?h" and ?rt = "header_tag std_crates (create_response std_crates ?h)"
  let ?t' = "?t\<lparr>flow_dest_eid := 10\<rparr>"
  let ?r = "transport_header_ser std_crates (create_response std_crates ?h) @ [0, 0, 2, 0, 9, 0, 0]"
  let ?b = "[0x20, 0x0f, 9, 0x61] @ ?r"
  have wf: "wf_transport_header (create_response std_crates ?h)"
    by (rule std.response_fields(1) [OF std.new_wf])
  then have len: "length ?r = 11" using std.th.enc_length by (simp add: transport_header_size_def)
  have tag: "create_tag std_crates (drop 4 ?b) = Some ?rt" using std.create_tag_ser [OF wf] by simp
  have m: "flow_matches ?t ?rt" "\<not> flow_matches ?t' ?rt"
    using std.response_matches [OF std.new_wf] std.response_fields(3) [OF std.new_wf]
    by (simp_all add: flow_matches_def header_tag_def std.new_eids)
  have b: "4 \<le> length ?b" "?b ! 1 = 0x0f" by simp_all
  note received = dispatch_received [OF std_crates_spec b tag, where chk = True and c = main_context]
  have "dispatch_command std_crates True (ReceiveMsg ?b) [(?t', 1), (?t, 3), (?t, 4)] main_context =
     (Ok (Completed 3 ?r), [(?t', 1), (?t, 4)], main_context)"
    using received [of "[(?t', 1), (?t, 3), (?t, 4)]"] m
    by (elim conjE allE [of _ "1 :: nat"]) simp
  moreover have "\<exists>x c. dispatch_command std_crates True (ReceiveMsg ?b) [(?t', 1)] main_context = (x, [(?t', 1)], c)"
    using received [of "[(?t', 1)]"] m(2) by auto
  ultimately show ?thesis using len by blast
qed

text \<open>
  C39: a bridge that asks for a pool of one identifier has one
  reserved, so that the next free identifier moves past it, but the pool's first and last
  identifier are equal and the loop takes that for no pool: it sends no Allocate Endpoint IDs
  request.
\<close>

theorem pool_of_one_never_allocated:
  assumes "set_eid_resp_pool_size resp = 1" "ep_endpoint_type ep = BusOwnerOrBridge"
    "ep_eid_allocation_status ep = RequiresPoolAllocation" "reserve_pool chk n ep resp = Ok (n', ep')"
  shows "n' = n + 1 \<and> min_dynamic_eid ep' = n \<and> dynamic_eid_pool_size ep' = 1 \<and>
    allocate_pool C D ep' = task_return ()"
  using assms by (auto simp: reserve_pool_def allocate_pool_def add_u_def sub_u_def split: if_splits)

theorem pool_of_one_never_allocated_witness:
  "\<exists>ep'. dynamic_eid_pool_size ep' = 1 \<and> allocate_pool std_crates plain_texts ep' = task_return ()"
proof -
  let ?r = "\<lparr>set_eid_resp_hdr = control_msg_header_default, set_eid_resp_completion_code = 0,
      eid_allocation_status_reserved1_eid_assignment_status_reserved2 = [1], eid_setting = 9,
      set_eid_resp_pool_size = 1\<rparr> :: set_eid_response"
  let ?ep = "\<lparr>ep_eid = 0, ep_endpoint_type = BusOwnerOrBridge, ep_eid_type = Dynamic,
      ep_eid_allocation_status = RequiresPoolAllocation, min_dynamic_eid = 0, max_dynamic_eid = 0,
      dynamic_eid_pool_size = 0\<rparr>"
  obtain n' ep' where "reserve_pool True 0x81 ?ep ?r = Ok (n', ep')"
    by (simp add: reserve_pool_def add_u_def sub_u_def)
  with pool_of_one_never_allocated [of ?r ?ep True "0x81" n' ep' std_crates plain_texts] show ?thesis by auto
qed

end
