(* ===== verification/BusMain.thy ===== *)
theory BusMain
  imports BusProps Smbus
begin

text \<open>
  The tasks of \<open>main\<close> in \<open>examples/basic_bus_owner_loop.rs\<close>: the reader of the socket, the
  dispatcher of the command channel, and the discovery loop, which puts one request at a time
  to the dispatcher and waits for its reply. The tasks share the channel of 32 commands, the
  endpoint and the one-shot reply channels. Their steps interleave.
\<close>

section \<open>The tasks and what they share\<close>

datatype reply_chan = ReplyOpen | ReplySent bytes | ReplyLost

definition reply_send :: "reply_chan \<Rightarrow> bytes \<Rightarrow> reply_chan option" where
  "reply_send c b = (case c of ReplyOpen \<Rightarrow> Some (ReplySent b) | _ \<Rightarrow> None)"

text \<open>
  Where the loop is: between requests, waiting for room in the command channel with a request
  in hand, waiting for the reply, or ended by an error.
\<close>

datatype loop_state = LoopIdle | LoopPutting nat bytes | LoopWaiting nat bytes | LoopFailed

text \<open>
  \<open>exchanges\<close> are the requests answered so far with their replies, \<open>frames_out\<close> what was
  put on the socket.
\<close>

record bus_main =
  endpoint :: mctp_endpoint_context
  pending_cmd :: "nat mctp_flow_list"
  commands :: "transport_command list"
  reply_chans :: "nat \<Rightarrow> reply_chan"
  next_reply :: nat
  loop_at :: loop_state
  exchanges :: "(bytes \<times> bytes) list"
  frames_out :: "bytes list"
  reader_up :: bool
  dispatcher_up :: bool

definition bus_main_init :: bus_main where
  "bus_main_init =
     \<lparr>endpoint = main_context, pending_cmd = [], commands = [], reply_chans = (\<lambda>_. ReplyOpen),
      next_reply = 0, loop_at = LoopIdle, exchanges = [], frames_out = [],
      reader_up = True, dispatcher_up = True\<rparr>"

datatype main_event =
    Datagram "io_error + bytes"   \<comment> \<open>\<open>recv_from\<close> returns\<close>
  | LoopPoll                      \<comment> \<open>the loop takes the discovery flag\<close>
  | LoopSend loop_request
  | LoopPut
  | LoopReceive
  | Dispatch

section \<open>The steps\<close>

text \<open>The reader: an error, a full channel and a closed one all end in an \<open>unwrap\<close>.\<close>

definition main_read :: "io_error + bytes \<Rightarrow> bus_main \<Rightarrow> bus_main option" where
  "main_read r m =
     (if \<not> reader_up m then None
      else
        (case r of
           Inl e \<Rightarrow> Some (m\<lparr>reader_up := False\<rparr>)
         | Inr d \<Rightarrow>
             if length d = 0 then Some m
             else if \<not> dispatcher_up m \<or> 32 \<le> length (commands m)
             then Some (m\<lparr>reader_up := False\<rparr>)
             else Some (m\<lparr>commands := commands m @ [ReceiveMsg d]\<rparr>)))"

text \<open>
  The loop: \<open>swap\<close> of the flag; the request and its reply channel; the command, once there
  is room, or the failure when the dispatcher is gone; the reply.
\<close>

definition main_poll :: "bus_main \<Rightarrow> bus_main option" where
  "main_poll m =
     (case loop_at m of
        LoopIdle \<Rightarrow> Some (m\<lparr>endpoint := (endpoint m)\<lparr>perform_discovery := False\<rparr>\<rparr>)
      | _ \<Rightarrow> None)"

definition main_request :: "crates \<Rightarrow> loop_request \<Rightarrow> bus_main \<Rightarrow> bus_main option" where
  "main_request C q m =
     (case loop_at m of
        LoopIdle \<Rightarrow>
          (case loop_request_bytes C q \<lparr>ctx = endpoint m, sent = []\<rparr> of
             (Ok buf, s) \<Rightarrow>
               Some (m\<lparr>endpoint := ctx s, next_reply := Suc (next_reply m),
                       loop_at := LoopPutting (next_reply m) buf\<rparr>)
           | (_, s) \<Rightarrow> Some (m\<lparr>endpoint := ctx s, loop_at := LoopFailed\<rparr>))
      | _ \<Rightarrow> None)"

definition main_put :: "bus_main \<Rightarrow> bus_main option" where
  "main_put m =
     (case loop_at m of
        LoopPutting ch buf \<Rightarrow>
          if \<not> dispatcher_up m then Some (m\<lparr>loop_at := LoopFailed\<rparr>)
          else if 32 \<le> length (commands m) then None
          else Some (m\<lparr>loop_at := LoopWaiting ch buf,
                       commands := commands m @ [SendMsg Control buf (Some ch)]\<rparr>)
      | _ \<Rightarrow> None)"

definition main_receive :: "bus_main \<Rightarrow> bus_main option" where
  "main_receive m =
     (case loop_at m of
        LoopWaiting ch buf \<Rightarrow>
          (case reply_chans m ch of
             ReplyOpen \<Rightarrow> None
           | ReplySent b \<Rightarrow> Some (m\<lparr>loop_at := LoopIdle, exchanges := exchanges m @ [(buf, b)]\<rparr>)
           | ReplyLost \<Rightarrow> Some (m\<lparr>loop_at := LoopFailed\<rparr>))
      | _ \<Rightarrow> None)"

text \<open>
  The dispatcher. Its panic drops the channel with the commands in it and the table of pending
  commands, and with them the senders of the replies.
\<close>

fun cmd_reply :: "transport_command \<Rightarrow> (nat \<times> bytes) option" where
  "cmd_reply (SendMsg mt buf (Some ch)) = Some (ch, buf)"
| "cmd_reply _ = None"

definition queued :: "bus_main \<Rightarrow> (nat \<times> bytes) list" where
  "queued m = List.map_filter cmd_reply (commands m)"

definition held :: "bus_main \<Rightarrow> nat set" where
  "held m = snd ` set (pending_cmd m) \<union> fst ` set (queued m)"

definition dispatcher_dies :: "bus_main \<Rightarrow> bus_main" where
  "dispatcher_dies m =
     m\<lparr>dispatcher_up := False, commands := [], pending_cmd := [],
       reply_chans := (\<lambda>ch. if ch \<in> held m \<and> reply_chans m ch = ReplyOpen then ReplyLost
                            else reply_chans m ch)\<rparr>"

definition lose_reply :: "transport_command \<Rightarrow> bus_main \<Rightarrow> bus_main" where
  "lose_reply cmd m =
     (case cmd_reply cmd of
        Some (ch, _) \<Rightarrow> m\<lparr>reply_chans := (reply_chans m)(ch := ReplyLost)\<rparr>
      | None \<Rightarrow> m)"

definition main_dispatch :: "crates \<Rightarrow> send_env \<Rightarrow> bool \<Rightarrow> bus_main \<Rightarrow> bus_main option" where
  "main_dispatch C env chk m =
     (if \<not> dispatcher_up m then None
      else
        (case commands m of
           [] \<Rightarrow> None
         | cmd # q \<Rightarrow>
             (case dispatch_command C chk cmd (pending_cmd m) (endpoint m) of
                (r, pending', c') \<Rightarrow>
                  (let m' = m\<lparr>commands := q, pending_cmd := pending', endpoint := c'\<rparr>
                   in (case r of
                         Ok Ignored \<Rightarrow> Some (lose_reply cmd m')
                       | Ok (NotHandled e) \<Rightarrow> Some m'
                       | Ok (Completed ch b) \<Rightarrow>
                           (case reply_send (reply_chans m ch) b of
                              Some x \<Rightarrow> Some (m'\<lparr>reply_chans := (reply_chans m)(ch := x)\<rparr>)
                            | None \<Rightarrow> Some (dispatcher_dies m'))
                       | Ok (Framed f) \<Rightarrow>
                           (case env (frames_out m) f of
                              Inl e \<Rightarrow> Some (dispatcher_dies m')
                            | Inr n \<Rightarrow> Some (m'\<lparr>frames_out := frames_out m @ [f]\<rparr>))
                       | _ \<Rightarrow> Some (dispatcher_dies m'))))))"

definition main_exec :: "crates \<Rightarrow> send_env \<Rightarrow> bool \<Rightarrow> main_event \<Rightarrow> bus_main \<Rightarrow> bus_main option" where
  "main_exec C env chk e m =
     (case e of
        Datagram r \<Rightarrow> main_read r m
      | LoopPoll \<Rightarrow> main_poll m
      | LoopSend q \<Rightarrow> main_request C q m
      | LoopPut \<Rightarrow> main_put m
      | LoopReceive \<Rightarrow> main_receive m
      | Dispatch \<Rightarrow> main_dispatch C env chk m)"

fun main_run :: "crates \<Rightarrow> send_env \<Rightarrow> bool \<Rightarrow> main_event list \<Rightarrow> bus_main \<Rightarrow> bus_main option" where
  "main_run C env chk [] m = Some m"
| "main_run C env chk (e # es) m =
     (case main_exec C env chk e m of None \<Rightarrow> None | Some m' \<Rightarrow> main_run C env chk es m')"

lemma main_run_append:
  "main_run C env chk (es @ fs) m = (case main_run C env chk es m of None \<Rightarrow> None | Some m' \<Rightarrow> main_run C env chk fs m')"
  by (induction es arbitrary: m) (auto split: option.splits)

inductive main_reachable :: "crates \<Rightarrow> send_env \<Rightarrow> bool \<Rightarrow> bus_main \<Rightarrow> bool" for C env chk where
  start: "main_reachable C env chk bus_main_init"
| step: "main_reachable C env chk m \<Longrightarrow> main_exec C env chk e m = Some m' \<Longrightarrow> main_reachable C env chk m'"

section \<open>The invariant\<close>

text \<open>\<open>r\<close> carries a packet that answers the packet \<open>q\<close>.\<close>

definition replies :: "crates \<Rightarrow> bytes \<Rightarrow> bytes \<Rightarrow> bool" where
  "replies C q r \<longleftrightarrow>
     (\<exists>t rt. create_tag C q = Some t \<and> create_tag C r = Some rt \<and> flow_matches t rt)"

text \<open>
  At most one request is with the dispatcher, the one the loop waits on: it is in the channel,
  in the table, answered, or lost with the dispatcher.
\<close>

definition loop_inv :: "crates \<Rightarrow> bus_main \<Rightarrow> bool" where
  "loop_inv C m \<longleftrightarrow>
     (case loop_at m of
        LoopWaiting ch buf \<Rightarrow>
          length buf \<le> 10 \<and> ch < next_reply m \<and>
          (case reply_chans m ch of
             ReplyOpen \<Rightarrow>
               pending_cmd m = [] \<and> queued m = [(ch, buf)] \<or>
               queued m = [] \<and> (\<exists>t. create_tag C buf = Some t \<and> pending_cmd m = [(t, ch)])
           | ReplySent b \<Rightarrow> pending_cmd m = [] \<and> queued m = [] \<and> replies C buf b
           | ReplyLost \<Rightarrow> pending_cmd m = [] \<and> queued m = [])
      | LoopPutting ch buf \<Rightarrow>
          length buf \<le> 10 \<and> reply_chans m ch = ReplyOpen \<and> ch < next_reply m \<and>
          pending_cmd m = [] \<and> queued m = []
      | _ \<Rightarrow> pending_cmd m = [] \<and> queued m = [])"

definition main_inv :: "crates \<Rightarrow> bus_main \<Rightarrow> bool" where
  "main_inv C m \<longleftrightarrow>
     loop_inv C m \<and> (\<forall>ch \<ge> next_reply m. reply_chans m ch = ReplyOpen) \<and>
     (\<forall>(q, r) \<in> set (exchanges m). replies C q r) \<and>
     (\<forall>mt buf. SendMsg mt buf None \<notin> set (commands m)) \<and>
     length (commands m) \<le> 32 \<and> (\<not> dispatcher_up m \<longrightarrow> commands m = [])"

lemma map_filter_append [simp]: "List.map_filter f (xs @ ys) = List.map_filter f xs @ List.map_filter f ys"
  by (induction xs) (auto split: option.splits)

section \<open>What a turn of the dispatcher does\<close>

text \<open>The socket refuses the frame the command in front leads to.\<close>

definition frame_refused :: "crates \<Rightarrow> send_env \<Rightarrow> bool \<Rightarrow> bus_main \<Rightarrow> bool" where
  "frame_refused C env chk m \<longleftrightarrow>
     (case commands m of
        [] \<Rightarrow> False
      | cmd # q \<Rightarrow>
          (case dispatch_command C chk cmd (pending_cmd m) (endpoint m) of
             (Ok (Framed f), _) \<Rightarrow> (case env (frames_out m) f of Inl _ \<Rightarrow> True | Inr _ \<Rightarrow> False)
           | _ \<Rightarrow> False))"

text \<open>The requests of the loop are short: the byte count of their frames does not overflow.\<close>

context crates_spec
begin

lemma loop_request_bytes_ok:
  "\<exists>buf s'. loop_request_bytes C q s = (Ok buf, s') \<and> length buf \<le> 10"
proof -
  have req: "length (request_bytes C (transport_header_new C a b t x y z) ch body) = 4 + length body" for a b t x y z ch body
    using th.enc_length [OF new_wf]
    by (simp add: request_bytes_def control_payload_to_bytes_def control_payload_new_def transport_header_size_def)
  have body:
    "length (get_eid_request_ser C \<lparr>get_eid_req_hdr = control_msg_header_new C k i False True False\<rparr>) = 3"
    "length (set_eid_request_ser C (set_eid_request_new C (control_msg_header_new C k i False True False) SetEid n)) = 5"
    "length (allocate_request_ser C
       (allocate_request_new C (control_msg_header_new C k i False True False) AllocateEids n n')) = 6" for k i n n'
    using geteid_req.enc_length [of "\<lparr>get_eid_req_hdr = control_msg_header_new C k i False True False\<rparr>"]
      seteid_req.enc_length [OF set_eid_request_fields(5) [OF control_new_wf]]
      alloc_req.enc_length [OF allocate_request_fields(5) [OF control_new_wf]]
    by (simp_all add: control_new_wf wf_get_eid_request_def get_eid_request_size_def set_eid_request_size_def
        allocate_request_size_def)
  show ?thesis
    by (cases q)
      (simp_all add: loop_request_bytes_def act_bind_def act_lift_def new_transport_hdr_def next_ctrl_hdr_def
        Let_def req body)
qed

lemma bus_owner_frame_short: "length buf < 255 \<Longrightarrow> \<exists>f. bus_owner_frame C chk buf = Ok f"
  by (simp add: bus_owner_frame_def add_u_def unat_of_nat Let_def)

text \<open>What the dispatcher makes of a datagram and of a request of the loop.\<close>

lemma dispatch_receive_cases:
  obtains (ignored) "dispatch_command C chk (ReceiveMsg d) p c = (Ok Ignored, p, c)"
  | (completed) rt t ch rest where "create_tag C (drop 4 d) = Some rt" "flow_take rt p = Some ((t, ch), rest)"
      "dispatch_command C chk (ReceiveMsg d) p c = (Ok (Completed ch (drop 4 d)), rest, c)"
  | (framed) f where
      "dispatch_command C chk (ReceiveMsg d) p c = (Ok (Framed f), p, snd (handle_request C c (drop 4 d)))"
  | (refused) e where
      "dispatch_command C chk (ReceiveMsg d) p c = (Ok (NotHandled e), p, snd (handle_request C c (drop 4 d)))"
  | (panics) x where "fst (handle_request C c (drop 4 d)) = Panic x"
      "dispatch_command C chk (ReceiveMsg d) p c = (Panic x, p, snd (handle_request C c (drop 4 d)))"
proof -
  obtain rt where rt: "create_tag C (drop 4 d) = Some rt" using create_tag_total by blast
  obtain r c' where h: "handle_request C c (drop 4 d) = (r, c')" by (metis surj_pair)
  show thesis
  proof (cases "4 \<le> length d \<and> d ! 1 = 0x0f \<and> flow_take rt p = None")
    case False
    then show thesis
      using ignored completed [OF rt] rt
      by (cases "flow_take rt p"; cases "4 \<le> length d \<and> d ! 1 = 0x0f")
        (auto simp: dispatch_command_def receive_msg_def Let_def)
  next
    case True
    show thesis
    proof (cases r)
      case (Ok resp)
      have "length resp < 255" using handle_request_length h Ok by force
      then obtain f where "bus_owner_frame C chk resp = Ok f" using bus_owner_frame_short by blast
      then show thesis
        using True rt h Ok framed [of f] by (simp add: dispatch_command_def receive_msg_def send_cmd_def Let_def)
    next
      case (Err e)
      then show thesis using True rt h refused [of e] by (simp add: dispatch_command_def receive_msg_def Let_def)
    next
      case (Panic x)
      then show thesis using True rt h panics [of x] by (simp add: dispatch_command_def receive_msg_def Let_def)
    qed
  qed
qed

lemma dispatch_send_cases:
  obtains (framed) t f where "create_tag C buf = Some t"
      "dispatch_command C chk (SendMsg mt buf resp) p c =
        (Ok (Framed f), case resp of None \<Rightarrow> p | Some ch \<Rightarrow> p @ [(t, ch)], c)"
  | (overflow) t x where "255 \<le> length buf" "create_tag C buf = Some t"
      "dispatch_command C chk (SendMsg mt buf resp) p c =
        (Panic x, case resp of None \<Rightarrow> p | Some ch \<Rightarrow> p @ [(t, ch)], c)"
proof -
  obtain t where t: "create_tag C buf = Some t" using create_tag_total by blast
  have d: "dispatch_command C chk (SendMsg mt buf resp) p c =
      (res_bind (bus_owner_frame C chk buf) (\<lambda>f. Ok (Framed f)), case resp of None \<Rightarrow> p | Some ch \<Rightarrow> p @ [(t, ch)], c)"
    using t by (cases resp) (simp_all add: dispatch_command_def send_cmd_def flow_push_def Let_def)
  show thesis
  proof (cases "bus_owner_frame C chk buf")
    case (Ok f)
    then show thesis using framed [OF t, of f] d by simp
  next
    case (Panic x)
    then have "255 \<le> length buf" using bus_owner_frame_short [of buf chk] by (cases "length buf < 255") auto
    then show thesis using overflow [OF _ t, of x] d Panic by simp
  next
    case (Err x)
    then show thesis by (auto simp: bus_owner_frame_def add_u_def Let_def split: if_splits)
  qed
qed

lemma main_dispatch_cases:
  assumes "main_dispatch C env chk m = Some m'"
  obtains (handled) d q c' out where "commands m = ReceiveMsg d # q"
      "c' = endpoint m \<or> c' = snd (handle_request C (endpoint m) (drop 4 d))"
      "m' = m\<lparr>commands := q, endpoint := c', frames_out := frames_out m @ out\<rparr>"
  | (completed) d q rt t ch rest where "commands m = ReceiveMsg d # q" "create_tag C (drop 4 d) = Some rt"
      "flow_take rt (pending_cmd m) = Some ((t, ch), rest)" "reply_chans m ch = ReplyOpen"
      "m' = m\<lparr>commands := q, pending_cmd := rest, reply_chans := (reply_chans m)(ch := ReplySent (drop 4 d))\<rparr>"
  | (unheard) d q rt t ch rest where "commands m = ReceiveMsg d # q"
      "flow_take rt (pending_cmd m) = Some ((t, ch), rest)" "reply_chans m ch \<noteq> ReplyOpen"
      "m' = dispatcher_dies (m\<lparr>commands := q, pending_cmd := rest\<rparr>)"
  | (sent) mt buf ch t q f where "commands m = SendMsg mt buf (Some ch) # q" "create_tag C buf = Some t"
      "m' = m\<lparr>commands := q, pending_cmd := pending_cmd m @ [(t, ch)], frames_out := frames_out m @ [f]\<rparr>"
  | (sent_only) mt buf q f where "commands m = SendMsg mt buf None # q"
      "m' = m\<lparr>commands := q, frames_out := frames_out m @ [f]\<rparr>"
  | (died_send) mt buf ch t q where "commands m = SendMsg mt buf (Some ch) # q" "create_tag C buf = Some t"
      "m' = dispatcher_dies (m\<lparr>commands := q, pending_cmd := pending_cmd m @ [(t, ch)]\<rparr>)"
      "255 \<le> length buf \<or> frame_refused C env chk m"
  | (died_only) mt buf q where "commands m = SendMsg mt buf None # q"
      "m' = dispatcher_dies (m\<lparr>commands := q\<rparr>)"
      "255 \<le> length buf \<or> frame_refused C env chk m"
  | (died) d q c' where "commands m = ReceiveMsg d # q"
      "c' = endpoint m \<or> c' = snd (handle_request C (endpoint m) (drop 4 d))"
      "m' = dispatcher_dies (m\<lparr>commands := q, endpoint := c'\<rparr>)"
      "(\<exists>x. fst (handle_request C (endpoint m) (drop 4 d)) = Panic x) \<or> frame_refused C env chk m"
proof -
  from assms obtain cmd q where q: "commands m = cmd # q" and up: "dispatcher_up m"
    by (auto simp: main_dispatch_def split: if_splits list.splits)
  note run = assms [unfolded main_dispatch_def]
  show thesis
  proof (cases cmd)
    case (ReceiveMsg d)
    show thesis
    proof (cases rule: dispatch_receive_cases [of chk d "pending_cmd m" "endpoint m"])
      case ignored
      then show thesis
        using run q up ReceiveMsg handled [of d q "endpoint m" "[]"] by (auto simp: lose_reply_def)
    next
      case (completed rt t ch rest)
      then show thesis
        using run q up ReceiveMsg that(2) [of d q rt t ch rest] unheard [of d q rt t ch rest]
        by (cases "reply_chans m ch") (simp_all add: reply_send_def)
    next
      case (framed f)
      then show thesis
        using run q up ReceiveMsg handled [of d q _ "[f]"] died [of d q]
        by (cases "env (frames_out m) f") (force simp: frame_refused_def)+
    next
      case (refused e)
      then show thesis using run q up ReceiveMsg handled [of d q _ "[]"] by auto
    next
      case (panics x)
      then show thesis using run q up ReceiveMsg died [of d q] by force
    qed
  next
    case (SendMsg mt buf resp)
    show thesis
    proof (cases rule: dispatch_send_cases [of buf chk mt resp "pending_cmd m" "endpoint m"])
      case (framed t f)
      then show thesis
        using run q up SendMsg sent [of mt buf _ q t f] sent_only [of mt buf q f]
          died_send [of mt buf _ q t] died_only [of mt buf q]
        by (cases resp; cases "env (frames_out m) f") (force simp: frame_refused_def)+
    next
      case (overflow t x)
      then show thesis
        using run q up SendMsg died_send [of mt buf _ q t] died_only [of mt buf q] by (cases resp) simp_all
    qed
  qed
qed

lemma main_inv_frame:
  assumes "main_inv C m" "loop_at m' = loop_at m" "reply_chans m' = reply_chans m" "pending_cmd m' = pending_cmd m"
    "queued m' = queued m" "next_reply m' = next_reply m" "exchanges m' = exchanges m"
    "\<And>mt buf. SendMsg mt buf None \<in> set (commands m') \<Longrightarrow> SendMsg mt buf None \<in> set (commands m)"
    "length (commands m') \<le> 32" "\<not> dispatcher_up m' \<Longrightarrow> commands m' = []"
  shows "main_inv C m'"
proof -
  have "loop_inv C m' = loop_inv C m" unfolding loop_inv_def assms(2-6) ..
  then show ?thesis using assms(1,8-) by (auto simp: main_inv_def assms(3,6,7))
qed

lemma main_inv_read:
  assumes "main_inv C m" "main_read r m = Some m'"
  shows "main_inv C m'"
proof -
  have "m' = m \<or> m' = m\<lparr>reader_up := False\<rparr> \<or>
      (\<exists>d. dispatcher_up m \<and> length (commands m) < 32 \<and> m' = m\<lparr>commands := commands m @ [ReceiveMsg d]\<rparr>)"
    using assms(2) by (cases r) (force simp: main_read_def split: if_splits)+
  then consider "m' = m" | "m' = m\<lparr>reader_up := False\<rparr>"
    | d where "dispatcher_up m" "length (commands m) < 32" "m' = m\<lparr>commands := commands m @ [ReceiveMsg d]\<rparr>"
    by blast
  then show ?thesis
  proof cases
    case (3 d)
    then show ?thesis by (intro main_inv_frame [OF assms(1)]) (simp_all add: queued_def)
  next
    case 2
    then show ?thesis
      using assms(1) by (intro main_inv_frame [OF assms(1)]) (simp_all add: queued_def main_inv_def)
  qed (use assms(1) in simp)
qed

lemma main_inv_loop:
  assumes "main_inv C m"
  shows "main_poll m = Some m' \<Longrightarrow> main_inv C m'" "main_put m = Some m' \<Longrightarrow> main_inv C m'"
    "main_receive m = Some m' \<Longrightarrow> main_inv C m'" "main_request C q m = Some m' \<Longrightarrow> main_inv C m'"
proof -
  show "main_poll m = Some m' \<Longrightarrow> main_inv C m'"
    using assms by (auto simp: main_poll_def main_inv_def loop_inv_def queued_def split: loop_state.splits)
  show "main_put m = Some m' \<Longrightarrow> main_inv C m'"
    using assms
    by (auto simp: main_put_def main_inv_def loop_inv_def queued_def
        split: loop_state.splits if_splits)
  show "main_receive m = Some m' \<Longrightarrow> main_inv C m'"
    using assms
    by (auto simp: main_receive_def main_inv_def loop_inv_def queued_def split: loop_state.splits reply_chan.splits)
  obtain buf s where b: "loop_request_bytes C q \<lparr>ctx = endpoint m, sent = []\<rparr> = (Ok buf, s)" "length buf \<le> 10"
    using loop_request_bytes_ok by blast
  show "main_request C q m = Some m' \<Longrightarrow> main_inv C m'"
    using assms b
    by (auto simp: main_request_def main_inv_def loop_inv_def queued_def split: loop_state.splits)
qed

lemma held_inv:
  assumes "loop_inv C m" "ch \<in> held m"
  shows "\<exists>buf. loop_at m = LoopWaiting ch buf \<and> reply_chans m ch = ReplyOpen"
  using assms by (auto simp: loop_inv_def held_def split: loop_state.splits reply_chan.splits)

lemma main_inv_dies:
  assumes inv: "main_inv C m" and same: "loop_at n = loop_at m" "reply_chans n = reply_chans m"
    "next_reply n = next_reply m" "exchanges n = exchanges m" "held n = held m"
  shows "main_inv C (dispatcher_dies n)"
proof -
  have li: "loop_inv C m" using inv by (simp add: main_inv_def)
  have "loop_inv C (dispatcher_dies n)"
  proof (cases "loop_at m")
    case (LoopWaiting ch buf)
    then have "ch \<in> held m \<longleftrightarrow> reply_chans m ch = ReplyOpen"
      using li by (auto simp: loop_inv_def held_def split: reply_chan.splits)
    then show ?thesis
      using li LoopWaiting same
      by (auto simp: loop_inv_def dispatcher_dies_def queued_def split: reply_chan.splits)
  next
    case (LoopPutting ch buf)
    then have "ch \<notin> held m" using held_inv [OF li, of ch] by auto
    then show ?thesis using li LoopPutting same by (simp add: loop_inv_def dispatcher_dies_def queued_def)
  qed (use li same in \<open>simp_all add: loop_inv_def dispatcher_dies_def queued_def\<close>)
  moreover have "ch < next_reply m" if "ch \<in> held m" for ch
    using held_inv [OF li that] li by (auto simp: loop_inv_def)
  ultimately show ?thesis using inv same by (fastforce simp: main_inv_def dispatcher_dies_def)
qed

lemma main_inv_dispatch:
  assumes inv: "main_inv C m" and ex: "main_dispatch C env chk m = Some m'"
  shows "main_inv C m'"
  using ex
proof (cases rule: main_dispatch_cases)
  case (handled d q c' out)
  then show ?thesis using inv by (intro main_inv_frame [OF inv]) (auto simp: queued_def main_inv_def)
next
  case (completed d q rt t ch rest)
  have li: "loop_inv C m" using inv by (simp add: main_inv_def)
  with completed(4) obtain buf where at: "loop_at m = LoopWaiting ch buf" "length buf \<le> 10" "queued m = []"
      "create_tag C buf = Some t" "ch < next_reply m" "rest = []"
    using flows.take_member [OF completed(3)] flows.take_length [OF completed(3)]
    by (auto simp: loop_inv_def split: loop_state.splits reply_chan.splits)
  moreover have "replies C buf (drop 4 d)"
    using at(4) completed(2) flows.take_matches [OF completed(3)] by (auto simp: replies_def)
  ultimately have "loop_inv C m'" using completed(1,5) by (simp add: loop_inv_def queued_def)
  then show ?thesis using inv at(5) completed by (auto simp: main_inv_def)
next
  case (unheard d q rt t ch rest)
  then have "ch \<in> held m" using flows.take_member [OF unheard(2)] by (force simp: held_def)
  then show ?thesis using held_inv inv unheard(3) by (auto simp: main_inv_def)
next
  case (sent mt buf ch t q f)
  have "loop_inv C m" using inv by (simp add: main_inv_def)
  then have "loop_inv C m'"
    using sent by (auto simp: loop_inv_def queued_def split: loop_state.splits reply_chan.splits)
  then show ?thesis using inv sent by (auto simp: main_inv_def)
next
  case (sent_only mt buf q f)
  then show ?thesis using inv by (auto simp: main_inv_def)
next
  case (died_send mt buf ch t q)
  then have "held (m\<lparr>commands := q, pending_cmd := pending_cmd m @ [(t, ch)]\<rparr>) = held m"
    by (auto simp: held_def queued_def)
  then show ?thesis unfolding died_send(3) by (intro main_inv_dies [OF inv]) simp_all
next
  case (died_only mt buf q)
  then show ?thesis using inv by (auto simp: main_inv_def)
next
  case (died d q c')
  then have "held (m\<lparr>commands := q, endpoint := c'\<rparr>) = held m" by (simp add: held_def queued_def)
  then show ?thesis unfolding died(3) by (intro main_inv_dies [OF inv]) simp_all
qed

lemma main_reachable_inv: "main_reachable C env chk m \<Longrightarrow> main_inv C m"
proof (induction rule: main_reachable.induct)
  case start
  show ?case by (simp add: main_inv_def loop_inv_def bus_main_init_def queued_def)
next
  case (step m e m')
  have inv: "main_inv C m" by (rule step.IH)
  show ?case
    using step.hyps(2) main_inv_read [OF inv, of _ m'] main_inv_loop(1-3) [OF inv, of m'] main_inv_loop(4) [OF inv, of _ m'] main_inv_dispatch [OF inv, of env chk m']
    by (cases e) (simp_all add: main_exec_def)
qed

end

section \<open>The loop's view of an exchange\<close>

text \<open>
  Until the loop has its reply, only the reader and the dispatcher step, and the command is put
  into the channel. The steps change the endpoint by
  handling requests that were received, in some order: what \<open>answer_others\<close> does.
\<close>

definition received :: "main_event list \<Rightarrow> bytes set" where
  "received es = {d. Datagram (Inr d) \<in> set es}"

definition in_channel :: "bus_main \<Rightarrow> bytes set" where
  "in_channel m = {d. ReceiveMsg d \<in> set (commands m)}"

definition is_background :: "main_event \<Rightarrow> bool" where
  "is_background e \<longleftrightarrow> e = Dispatch \<or> e = LoopPut \<or> (\<exists>r. e = Datagram r)"

fun loop_buf :: "loop_state \<Rightarrow> bytes option" where
  "loop_buf (LoopPutting ch buf) = Some buf"
| "loop_buf (LoopWaiting ch buf) = Some buf"
| "loop_buf _ = None"

abbreviation others_handled :: "crates \<Rightarrow> bytes list \<Rightarrow> mctp_endpoint_context \<Rightarrow> mctp_endpoint_context" where
  "others_handled C \<equiv> fold (\<lambda>bs c. snd (handle_request C c bs))"

context crates_spec
begin

lemma background_step:
  assumes "is_background e" "main_exec C env chk e m = Some m'"
  shows "\<exists>os. endpoint m' = others_handled C os (endpoint m) \<and> set os \<subseteq> drop 4 ` in_channel m \<and>
    in_channel m' \<subseteq> in_channel m \<union> received [e] \<and>
    (loop_at m' = LoopFailed \<or> loop_buf (loop_at m') = loop_buf (loop_at m)) \<and> exchanges m' = exchanges m"
proof (cases e)
  case (Datagram r)
  then have "main_read r m = Some m'" using assms(2) by (simp add: main_exec_def)
  then have "endpoint m' = endpoint m \<and> loop_at m' = loop_at m \<and> exchanges m' = exchanges m \<and>
      in_channel m' \<subseteq> in_channel m \<union> received [e]"
    by (cases r) (auto simp: main_read_def Datagram in_channel_def received_def split: if_splits)
  then show ?thesis by (intro exI [of _ "[]"]) simp
next
  case LoopPut
  then show ?thesis
    using assms(2) by (intro exI [of _ "[]"])
      (auto simp: main_exec_def main_put_def in_channel_def split: loop_state.splits if_splits)
next
  case Dispatch
  then have "main_dispatch C env chk m = Some m'" using assms(2) by (simp add: main_exec_def)
  then show ?thesis
  proof (cases rule: main_dispatch_cases)
    case (handled d q c' out)
    then show ?thesis
      by (intro exI [of _ "if c' = endpoint m then [] else [drop 4 d]"]) (auto simp: in_channel_def)
  next
    case (died d q c')
    then show ?thesis
      by (intro exI [of _ "if c' = endpoint m then [] else [drop 4 d]"])
        (auto simp: in_channel_def dispatcher_dies_def)
  qed (intro exI [of _ "[]"], force simp: in_channel_def dispatcher_dies_def)+
qed (use assms(1) in \<open>simp_all add: is_background_def\<close>)

lemma background_run:
  assumes "list_all is_background es" "main_run C env chk es m = Some m'"
  shows "\<exists>os. endpoint m' = others_handled C os (endpoint m) \<and>
    set os \<subseteq> drop 4 ` (in_channel m \<union> received es) \<and>
    (loop_buf (loop_at m') = None \<or> loop_buf (loop_at m') = loop_buf (loop_at m)) \<and> exchanges m' = exchanges m"
  using assms
proof (induction es arbitrary: m)
  case Nil
  then show ?case by (intro exI [of _ "[]"]) simp
next
  case (Cons e es)
  then obtain v where v: "main_exec C env chk e m = Some v" "main_run C env chk es v = Some m'"
    by (auto split: option.splits)
  from background_step [OF _ v(1)] Cons.prems(1) obtain os where os:
    "endpoint v = others_handled C os (endpoint m)" "set os \<subseteq> drop 4 ` in_channel m"
    "in_channel v \<subseteq> in_channel m \<union> received [e]" "exchanges v = exchanges m"
    "loop_buf (loop_at v) = None \<or> loop_buf (loop_at v) = loop_buf (loop_at m)"
    by auto
  from Cons.IH [OF _ v(2)] Cons.prems(1) obtain ps where ps:
    "endpoint m' = others_handled C ps (endpoint v)" "set ps \<subseteq> drop 4 ` (in_channel v \<union> received es)"
    "exchanges m' = exchanges v" "loop_buf (loop_at m') = None \<or> loop_buf (loop_at m') = loop_buf (loop_at v)"
    by auto
  have "in_channel v \<union> received es \<subseteq> in_channel m \<union> received (e # es)"
    using os(3) by (auto simp: received_def)
  then have "set ps \<subseteq> drop 4 ` (in_channel m \<union> received (e # es))"
    by (rule subset_trans [OF ps(2) image_mono])
  then have "set (os @ ps) \<subseteq> drop 4 ` (in_channel m \<union> received (e # es))" using os(2) by auto
  with os ps show ?case by (intro exI [of _ "os @ ps"]) auto
qed

text \<open>An exchange of the loop with the dispatcher is an exchange of \<open>send_and_decode\<close>.\<close>

lemma exchange_refines:
  assumes snd: "main_exec C env chk (LoopSend q) m = Some m0" and bg: "list_all is_background es"
    and run: "main_run C env chk es m0 = Some m1" and rcv: "main_exec C env chk LoopReceive m1 = Some m2"
    and ok: "loop_at m2 \<noteq> LoopFailed"
  shows "\<exists>os buf b. set os \<subseteq> drop 4 ` (in_channel m \<union> received es) \<and>
    exchanges m2 = exchanges m @ [(buf, b)] \<and>
    (\<forall>E conv s. ctx s = endpoint m \<and> before_env E (sent s) = [] \<and> exchange_env E (sent s) buf = (os, Replied (Inr b)) \<longrightarrow>
       perform C E (send_and_decode C conv q) s =
         (try_to_response C conv b, \<lparr>ctx = endpoint m2, sent = sent s @ [buf]\<rparr>))"
proof -
  obtain buf c where q: "\<And>s :: bus_owner. ctx s = endpoint m \<Longrightarrow> loop_request_bytes C q s = (Ok buf, s\<lparr>ctx := c\<rparr>)"
    using loop_request_bytes_ctx [of "endpoint m" C q] by blast
  have m0: "m0 = m\<lparr>endpoint := c, next_reply := Suc (next_reply m), loop_at := LoopPutting (next_reply m) buf\<rparr>"
    using snd q [of "\<lparr>ctx = endpoint m, sent = []\<rparr>"]
    by (auto simp: main_exec_def main_request_def split: loop_state.splits)
  have ch: "in_channel m0 = in_channel m" by (simp add: m0 in_channel_def)
  from background_run [OF bg run] obtain os where os:
    "endpoint m1 = others_handled C os c" "set os \<subseteq> drop 4 ` (in_channel m \<union> received es)"
    "loop_buf (loop_at m1) = None \<or> loop_buf (loop_at m1) = Some buf" "exchanges m1 = exchanges m"
    unfolding ch by (auto simp: m0)
  from rcv ok os(3) obtain b where b: "m2 = m1\<lparr>loop_at := LoopIdle, exchanges := exchanges m1 @ [(buf, b)]\<rparr>"
    by (auto simp: main_exec_def main_receive_def split: loop_state.splits reply_chan.splits)
  have "perform C E (send_and_decode C conv q) s =
      (try_to_response C conv b, \<lparr>ctx = endpoint m2, sent = sent s @ [buf]\<rparr>)"
    if "ctx s = endpoint m" "before_env E (sent s) = []" "exchange_env E (sent s) buf = (os, Replied (Inr b))"
    for E and conv :: "bytes \<Rightarrow> (mctp_base_lib_error, 'c) res" and s :: bus_owner
    using that q [OF that(1)] b os(1)
    by (cases s) (simp add: act_bind_def act_lift_def send_and_decode_def exchanged_def answer_others_def)
  with os(2,4) b show ?thesis by (intro exI [of _ os] exI [of _ buf] exI [of _ b] conjI) auto
qed

section \<open>Runs\<close>

text \<open>A request of the loop and a datagram that answers it.\<close>

lemma loop_exchange_run:
  assumes q: "loop_request_bytes C q \<lparr>ctx = main_context, sent = []\<rparr> = (Ok buf, s)" "create_tag C buf = Some t"
    and d: "4 \<le> length d" "d ! 1 = 0x0f" "create_tag C (drop 4 d) = Some rt" "flow_matches t rt"
    and env: "\<And>f. env [] f = Inr (length f)"
  shows "\<exists>m f. main_run C env chk [LoopSend q, LoopPut, Dispatch, Datagram (Inr d), Dispatch, LoopReceive] bus_main_init = Some m \<and>
    bus_owner_frame C chk buf = Ok f \<and> frames_out m = [f] \<and> exchanges m = [(buf, drop 4 d)] \<and> loop_at m = LoopIdle \<and>
    dispatcher_up m \<and> reader_up m \<and> endpoint m = ctx s"
proof -
  have "length buf < 255" using loop_request_bytes_ok [of q "\<lparr>ctx = main_context, sent = []\<rparr>"] q(1) by auto
  then obtain f where f: "bus_owner_frame C chk buf = Ok f" using bus_owner_frame_short by blast
  have tk: "flow_take rt [(t, 0 :: nat)] = Some ((t, 0), [])" by (rule flow_take_hd [OF d(4)])
  have "d \<noteq> []" using d(1) by auto
  with q d f tk env show ?thesis
    by (simp add: main_exec_def main_request_def main_put_def main_dispatch_def main_read_def main_receive_def
        dispatch_command_def send_cmd_def receive_msg_def flow_push_def reply_send_def bus_main_init_def Let_def)
qed

text \<open>A datagram with a request, on a bus owner that has just started.\<close>

lemma request_run:
  assumes d: "4 \<le> length d" "d ! 1 = 0x0f" and h: "handle_request C main_context (drop 4 d) = (Ok r, c')"
    and env: "\<And>f. env [] f = Inr (length f)"
  shows "\<exists>m f. main_run C env chk [Datagram (Inr d), Dispatch] bus_main_init = Some m \<and>
    bus_owner_frame C chk r = Ok f \<and> frames_out m = [f] \<and> endpoint m = c' \<and> dispatcher_up m \<and> reader_up m"
proof -
  obtain f where f: "bus_owner_frame C chk r = Ok f"
    using bus_owner_frame_short handle_request_length [OF h] by force
  obtain rt where rt: "create_tag C (drop 4 d) = Some rt" using create_tag_total by blast
  have "flow_take rt ([] :: nat mctp_flow_list) = None" using flows.take_None_iff by force
  moreover have "d \<noteq> []" using d(1) by auto
  ultimately show ?thesis
    using d h f rt env
    by (simp add: main_exec_def main_dispatch_def main_read_def dispatch_command_def send_cmd_def receive_msg_def
        bus_main_init_def Let_def)
qed

text \<open>Once the reader is gone it stays gone.\<close>

lemma reader_stays_dead:
  "\<not> reader_up m \<Longrightarrow> main_run C env chk es m = Some m' \<Longrightarrow> \<not> reader_up m'"
proof (induction es arbitrary: m)
  case (Cons e es)
  then obtain v where v: "main_exec C env chk e m = Some v" "main_run C env chk es v = Some m'"
    by (auto split: option.splits)
  have "\<not> reader_up v"
  proof (cases e)
    case Dispatch
    then have "main_dispatch C env chk m = Some v" using v(1) by (simp add: main_exec_def)
    then show ?thesis
      by (cases rule: main_dispatch_cases) (use Cons.prems(1) in \<open>auto simp: dispatcher_dies_def\<close>)
  qed (use v(1) Cons.prems(1) in \<open>auto simp: main_exec_def main_read_def main_poll_def main_request_def main_put_def
        main_receive_def split: loop_state.splits reply_chan.splits if_splits prod.splits res.splits\<close>)
  then show ?case using Cons.IH v(2) by blast
qed simp

lemma read_burst:
  assumes "reader_up m" "dispatcher_up m" "length (commands m) + n \<le> 32" "d \<noteq> []"
  shows "main_run C env chk (replicate n (Datagram (Inr d))) m =
    Some (m\<lparr>commands := commands m @ replicate n (ReceiveMsg d)\<rparr>)"
  using assms
proof (induction n arbitrary: m)
  case (Suc n)
  then have "main_exec C env chk (Datagram (Inr d)) m = Some (m\<lparr>commands := commands m @ [ReceiveMsg d]\<rparr>)"
    by (simp add: main_exec_def main_read_def)
  then show ?case using Suc by (simp add: replicate_app_Cons_same)
qed simp

text \<open>The bytes that decode to \<open>Unknown\<close>: its own, and those of no variant.\<close>

lemma command_code_unknown:
  "command_code_from_u8 C v = Unknown \<longleftrightarrow> v = 0xFF \<or> v \<notin> command_code_to_u8 ` set command_code_variants"
  using command_code_enum.from_dflt_iff [of v] by (simp add: command_code_default_def)

text \<open>What ends the dispatcher: an unknown command code, or the socket.\<close>

lemma dispatcher_death:
  assumes inv: "main_inv C m" and up: "dispatcher_up m" and ex: "main_dispatch C env chk m = Some m'"
    and down: "\<not> dispatcher_up m'"
  shows "(\<exists>d q. commands m = ReceiveMsg d # q \<and> 11 \<le> length d \<and> command_code_from_u8 C (d ! 10) = Unknown) \<or>
    frame_refused C env chk m"
  using ex
proof (cases rule: main_dispatch_cases)
  case (unheard d q rt t ch rest)
  then have "ch \<in> held m" using flows.take_member [OF unheard(2)] by (force simp: held_def)
  then show ?thesis using held_inv inv unheard(3) by (auto simp: main_inv_def)
next
  case (died_send mt buf ch t q)
  then have "ch \<in> held m" "(ch, buf) \<in> set (queued m)" by (auto simp: held_def queued_def)
  then have "length buf \<le> 10"
    using held_inv [of m ch] inv by (auto simp: main_inv_def loop_inv_def)
  then show ?thesis using died_send(4) by auto
next
  case (died_only mt buf q)
  then show ?thesis using inv by (auto simp: main_inv_def)
next
  case (died d q c')
  show ?thesis
  proof (cases "frame_refused C env chk m")
    case False
    then obtain x where "fst (handle_request C (endpoint m) (drop 4 d)) = Panic x" using died(4) by blast
    then have "7 \<le> length (drop 4 d)" "command_code_from_u8 C (drop 4 d ! 6) = Unknown"
      using handle_request_branches [of "endpoint m" "drop 4 d"] by auto
    then show ?thesis using died(1) by auto
  qed simp
qed (use up down in auto)

text \<open>Every request of the loop can be answered.\<close>

lemma loop_request_answerable:
  obtains buf s' t d rt where "loop_request_bytes C q s = (Ok buf, s')" "create_tag C buf = Some t"
    "4 \<le> length d" "d ! 1 = 0x0f" "create_tag C (drop 4 d) = Some rt" "flow_matches t rt"
proof -
  obtain h ch body s' where r: "loop_request_bytes C q s = (Ok (request_bytes C h ch body), s')" and h: "wf_transport_header h"
    by (cases q)
      (auto simp: loop_request_bytes_def act_bind_def act_lift_def new_transport_hdr_def next_ctrl_hdr_def Let_def
        intro!: that intro: new_wf)
  let ?h' = "create_response C h"
  let ?d = "[0x20, 0x0f, 5, 0x61] @ transport_header_ser C ?h' :: bytes"
  have "create_tag C (request_bytes C h ch body) = Some (header_tag C h)"
    using create_tag_ser [OF h] by (simp add: request_bytes_def control_payload_to_bytes_def control_payload_new_def)
  moreover have "create_tag C (drop 4 ?d) = Some (header_tag C ?h')"
    using create_tag_ser [OF response_fields(1) [OF h], of "[]"] by simp
  ultimately show thesis using that [OF r, of _ ?d] response_matches [OF h] by simp
qed

end

section \<open>Properties\<close>

text \<open>
  C10: however the reader, the dispatcher and the loop interleave, at most
  one request is pending, the command channel is never over its capacity, and every reply the
  loop has received answers the request it was received for.
\<close>

theorem loop_replies_answer:
  assumes "crates_spec C" "main_reachable C env chk m"
  shows "(\<forall>(q, r) \<in> set (exchanges m). \<exists>t rt. create_tag C q = Some t \<and> create_tag C r = Some rt \<and> flow_matches t rt) \<and>
    length (pending_cmd m) \<le> 1 \<and> length (commands m) \<le> 32"
  using crates_spec.main_reachable_inv [OF assms]
  by (auto simp: main_inv_def replies_def loop_inv_def split: loop_state.splits reply_chan.splits)

definition demo_socket :: send_env where
  "demo_socket log d = Inr (length d)"

lemma main_run_reachable:
  "main_reachable C env chk m \<Longrightarrow> main_run C env chk es m = Some m' \<Longrightarrow> main_reachable C env chk m'"
proof (induction es arbitrary: m)
  case (Cons e es)
  then obtain v where "main_exec C env chk e m = Some v" "main_run C env chk es v = Some m'"
    by (auto split: option.splits)
  with Cons show ?case using main_reachable.step by blast
qed simp

lemma demo_exchange:
  obtains buf d m where "main_run std_crates demo_socket True
      [LoopSend (LoopGetEid 9), LoopPut, Dispatch, Datagram (Inr d), Dispatch, LoopReceive] bus_main_init = Some m"
    "exchanges m = [(buf, drop 4 d)]" "loop_at m = LoopIdle"
proof -
  obtain buf s t d rt where r: "loop_request_bytes std_crates (LoopGetEid 9) \<lparr>ctx = main_context, sent = []\<rparr> = (Ok buf, s)"
    "create_tag std_crates buf = Some t" "4 \<le> length d" "d ! 1 = 0x0f"
    "create_tag std_crates (drop 4 d) = Some rt" "flow_matches t rt"
    using std.loop_request_answerable .
  from std.loop_exchange_run [OF r, of demo_socket True] that show thesis by (auto simp: demo_socket_def)
qed

theorem loop_replies_answer_witness:
  "\<exists>m q r t rt. main_reachable std_crates demo_socket True m \<and> (q, r) \<in> set (exchanges m) \<and>
     create_tag std_crates q = Some t \<and> create_tag std_crates r = Some rt \<and> flow_matches t rt"
proof -
  obtain buf d m where m: "main_run std_crates demo_socket True
      [LoopSend (LoopGetEid 9), LoopPut, Dispatch, Datagram (Inr d), Dispatch, LoopReceive] bus_main_init = Some m"
    "exchanges m = [(buf, drop 4 d)]" using demo_exchange by blast
  have reach: "main_reachable std_crates demo_socket True m"
    by (rule main_run_reachable [OF main_reachable.start m(1)])
  from loop_replies_answer [OF std_crates_spec reach] m(2) reach show ?thesis by auto
qed

text \<open>
  An exchange of the loop, from the request to its reply, with any
  steps of the reader and the dispatcher in between, is an exchange of \<open>send_and_decode\<close> in
  the sequential model of the loop, in a world that answers with the same reply after the
  endpoint has handled some of the requests that were received.
\<close>

theorem loop_exchange_refines:
  assumes "crates_spec C" "main_exec C env chk (LoopSend q) m = Some m0" "list_all is_background es"
    "main_run C env chk es m0 = Some m1" "main_exec C env chk LoopReceive m1 = Some m2" "loop_at m2 \<noteq> LoopFailed"
  shows "\<exists>os buf b. set os \<subseteq> drop 4 ` (in_channel m \<union> received es) \<and>
    exchanges m2 = exchanges m @ [(buf, b)] \<and>
    (\<forall>E conv s. ctx s = endpoint m \<and> before_env E (sent s) = [] \<and> exchange_env E (sent s) buf = (os, Replied (Inr b)) \<longrightarrow>
       perform C E (send_and_decode C conv q) s =
         (try_to_response C conv b, \<lparr>ctx = endpoint m2, sent = sent s @ [buf]\<rparr>))"
  by (rule crates_spec.exchange_refines [OF assms])

theorem loop_exchange_refines_witness:
  "\<exists>os buf b. \<exists>m2 :: bus_main. exchanges m2 = [(buf, b)] \<and>
    (\<forall>E conv s. ctx s = main_context \<and> before_env E (sent s) = [] \<and> exchange_env E (sent s) buf = (os, Replied (Inr b)) \<longrightarrow>
       perform std_crates E (send_and_decode std_crates conv (LoopGetEid 9)) s =
         (try_to_response std_crates (conv :: bytes \<Rightarrow> (mctp_base_lib_error, get_eid_response) res) b,
          \<lparr>ctx = endpoint m2, sent = sent s @ [buf]\<rparr>))"
proof -
  obtain d m where m: "main_run std_crates demo_socket True
      [LoopSend (LoopGetEid 9), LoopPut, Dispatch, Datagram (Inr d), Dispatch, LoopReceive] bus_main_init = Some m"
    "loop_at m = LoopIdle" using demo_exchange by blast
  let ?es = "[LoopPut, Dispatch, Datagram (Inr d), Dispatch]"
  from m(1) obtain m0 m1 where r: "main_exec std_crates demo_socket True (LoopSend (LoopGetEid 9)) bus_main_init = Some m0"
    "main_run std_crates demo_socket True ?es m0 = Some m1"
    "main_exec std_crates demo_socket True LoopReceive m1 = Some m"
    by (auto split: option.splits)
  have "list_all is_background ?es" by (simp add: is_background_def)
  from loop_exchange_refines [where ?'a = get_eid_response, OF std_crates_spec r(1) this r(2,3)] m(2)
  show ?thesis by (simp add: bus_main_init_def) blast
qed

text \<open>
  C21: a turn of the dispatcher ends it only when the datagram in front carries
  a command code that decodes to \<open>Unknown\<close>, which is a byte of no variant of the enumeration or
  0xFF, the byte of the variant \<open>Unknown\<close> itself, or when the socket refuses the frame.
  Neither the byte count of a frame nor a reply to the loop can.
\<close>

theorem dispatcher_ends:
  assumes "crates_spec C" "main_reachable C env chk m" "dispatcher_up m"
    "main_exec C env chk Dispatch m = Some m'" "\<not> dispatcher_up m'"
  shows "(\<exists>d q. commands m = ReceiveMsg d # q \<and> 11 \<le> length d \<and> command_code_from_u8 C (d ! 10) = Unknown \<and>
      (d ! 10 = 0xFF \<or> d ! 10 \<notin> command_code_to_u8 ` set command_code_variants)) \<or>
    frame_refused C env chk m"
  using crates_spec.dispatcher_death [OF assms(1) crates_spec.main_reachable_inv [OF assms(1,2)] assms(3)]
    crates_spec.command_code_unknown [OF assms(1)] assms(4,5) by (simp add: main_exec_def)

theorem dispatcher_ends_witness:
  "\<exists>m m'. main_exec std_crates demo_socket True Dispatch m = Some m' \<and> \<not> dispatcher_up m' \<and>
     (\<exists>d q. commands m = ReceiveMsg d # q \<and> command_code_from_u8 std_crates (d ! 10) = Unknown)"
proof -
  let ?d = "[0x20, 0x0f, 9, 0x61, 1, 0, 9, 0xc8, 0, 0x81, 0x77] :: bytes"
  let ?m = "bus_main_init\<lparr>commands := [ReceiveMsg ?d]\<rparr>"
  have "main_run std_crates demo_socket True [Datagram (Inr ?d)] bus_main_init = Some ?m"
    by (simp add: main_exec_def main_read_def bus_main_init_def)
  from main_run_reachable [OF main_reachable.start this]
  have reach: "main_reachable std_crates demo_socket True ?m" .
  obtain x c' where h: "handle_request std_crates main_context (drop 4 ?d) = (Panic x, c')"
    using std.handle_request_branches [of main_context "drop 4 ?d"] std_command_codes(3) by auto
  obtain rt where "create_tag std_crates (drop 4 ?d) = Some rt" using std.create_tag_total by blast
  moreover have "flow_take rt ([] :: nat mctp_flow_list) = None" using flows.take_None_iff by force
  ultimately have "\<exists>m'. main_exec std_crates demo_socket True Dispatch ?m = Some m' \<and> \<not> dispatcher_up m'"
    using h by (simp add: main_exec_def main_dispatch_def dispatch_command_def receive_msg_def bus_main_init_def
        dispatcher_dies_def Let_def)
  then obtain m' where m': "main_exec std_crates demo_socket True Dispatch ?m = Some m'" "\<not> dispatcher_up m'" by blast
  have up: "dispatcher_up ?m" by (simp add: bus_main_init_def)
  have "\<not> frame_refused std_crates demo_socket True ?m"
    by (auto simp: frame_refused_def demo_socket_def split: prod.splits res.splits dispatch.splits)
  with dispatcher_ends [OF std_crates_spec reach up m']
  obtain d q where "commands ?m = ReceiveMsg d # q" "command_code_from_u8 std_crates (d ! 10) = Unknown" by blast
  with m' show ?thesis by blast
qed

text \<open>
  C40: 33 datagrams without a turn of the dispatcher fill the command channel
  and end the reader; the bus owner never reads from its socket again.
\<close>

theorem reader_overrun:
  assumes "crates_spec C" "d \<noteq> []"
  shows "\<exists>m. main_run C env chk (replicate 33 (Datagram (Inr d))) bus_main_init = Some m \<and>
    commands m = replicate 32 (ReceiveMsg d) \<and> \<not> reader_up m \<and>
    (\<forall>es m'. main_run C env chk es m = Some m' \<longrightarrow> \<not> reader_up m')"
proof -
  have split: "replicate 33 (Datagram (Inr d)) = replicate 32 (Datagram (Inr d)) @ [Datagram (Inr d)]"
    by (simp add: replicate_append_same flip: replicate_Suc)
  let ?m = "bus_main_init\<lparr>commands := replicate 32 (ReceiveMsg d)\<rparr>"
  have "main_run C env chk (replicate 32 (Datagram (Inr d))) bus_main_init = Some ?m"
    using crates_spec.read_burst [OF assms(1), of bus_main_init 32 d] assms(2) by (simp add: bus_main_init_def)
  then have run: "main_run C env chk (replicate 33 (Datagram (Inr d))) bus_main_init = Some (?m\<lparr>reader_up := False\<rparr>)"
    unfolding split main_run_append using assms(2)
    by (simp add: main_exec_def main_read_def bus_main_init_def)
  show ?thesis
    using run crates_spec.reader_stays_dead [OF assms(1), of "?m\<lparr>reader_up := False\<rparr>"] by auto
qed

theorem reader_overrun_witness:
  "\<exists>m. main_run std_crates demo_socket True (replicate 33 (Datagram (Inr [7]))) bus_main_init = Some m \<and> \<not> reader_up m"
  using reader_overrun [OF std_crates_spec, of "[7]" demo_socket True] by auto

end
