(* ===== verification/Client.thy ===== *)
theory Client
  imports Service BusMain
begin

text \<open>
  The client of \<open>examples/example_simple_network.rs\<close>: it sets up an SMBus binding and a
  \<open>SimpleNetwork\<close>, sends one Get Endpoint ID request and waits for the response. Its peer is
  the bus owner of \<open>examples/basic_bus_owner_loop.rs\<close>, which listens on the socket the client
  sends to.
\<close>

section \<open>The program\<close>

definition client_request :: "crates \<Rightarrow> bytes" where
  "client_request C =
     (let transport_hdr = transport_header_new C 0 0 0 (Some True) (Some True) (Some True);
          ctrl_hdr = control_msg_header_new C GetEndpointID 0 False True False;
          req = \<lparr>get_eid_req_hdr = ctrl_hdr\<rparr>
      in control_payload_to_bytes C (control_payload_new transport_hdr ctrl_hdr (get_eid_request_ser C req)))"

definition client_dest :: socket_address where
  "client_dest = Extended 0 1 1 0x25"

text \<open>
  Up to \<open>bind\<close>; \<open>bound\<close> and \<open>connected\<close> are the results of the two socket calls. The
  network's handle of the binding is 0.
\<close>

definition client_setup ::
  "crates \<Rightarrow> send_env \<Rightarrow> bool \<Rightarrow> io_error + unit \<Rightarrow> io_error + unit
    \<Rightarrow> (mctp_emu_error, i32 \<times> smbus_net_dev_binding sn_world) res" where
  "client_setup C env chk bound connected =
     res_bind (smbus_binding_new bound connected 0x10) (\<lambda>smbus_binding.
       let w = sn_init (\<lambda>_. smbus_binding) 0
       in (case sn_add_physical_binding C (smbus_ops C env) (net w) (binding_of w 0) of
             (Err e, _) \<Rightarrow> Err e
           | (Panic m, _) \<Rightarrow> Panic m
           | (Ok _, n, b) \<Rightarrow>
               (let (sd, n) = sn_socket n
                in (case sn_bind chk n sd 0 0 0 of
                      (Err e, _) \<Rightarrow> Err e
                    | (Panic m, _) \<Rightarrow> Panic m
                    | (Ok _, n) \<Rightarrow> Ok (sd, w\<lparr>net := n, binding_of := (binding_of w)(0 := b)\<rparr>)))))"

text \<open>
  The whole program over the events that follow the call of \<open>sendto\<close>: \<open>None\<close> while it
  waits, and otherwise how it ends, with the response it logs.
\<close>

definition client_main ::
  "crates \<Rightarrow> send_env \<Rightarrow> bool \<Rightarrow> io_error + unit \<Rightarrow> io_error + unit \<Rightarrow> sn_event list
    \<Rightarrow> (mctp_emu_error, bytes) res option" where
  "client_main C env chk bound connected es =
     (case client_setup C env chk bound connected of
        Err e \<Rightarrow> Some (Err e)
      | Panic m \<Rightarrow> Some (Panic m)
      | Ok (sd, w) \<Rightarrow>
          (case slice_from 4 (client_request C) of
             Err e \<Rightarrow> Some (Err e)
           | Panic m \<Rightarrow> Some (Panic m)
           | Ok payload' \<Rightarrow>
               (case sn_run C (smbus_ops C env) chk (Sendto sd payload' client_dest # es) w of
                  None \<Rightarrow> None
                | Some w' \<Rightarrow>
                    (case calls w' ! 0 of
                       Returned _ (Ok (_, result)) \<Rightarrow> Some (Ok result)
                     | Returned _ (Err e) \<Rightarrow> Some (Err e)
                     | Returned _ (Panic m) \<Rightarrow> Some (Panic m)
                     | _ \<Rightarrow> None))))"

lemma sn_run_append:
  "sn_run C ops chk (es @ fs) w = (case sn_run C ops chk es w of None \<Rightarrow> None | Some w' \<Rightarrow> sn_run C ops chk fs w')"
  by (induction es arbitrary: w) (auto split: option.splits)

section \<open>The packet on the wire\<close>

text \<open>The packet \<open>sendto\<close> sends is the request, and the datagram is its SMBus frame.\<close>

definition client_datagram :: "crates \<Rightarrow> bytes" where
  "client_datagram C = smbus_frame C 0x10 (client_request C) 0x25"

text \<open>The client's datagram, taken by the socket.\<close>

abbreviation client_sent :: "crates \<Rightarrow> bytes \<times> (io_error + nat)" where
  "client_sent D \<equiv> (client_datagram D, Inr (length (client_datagram D)))"

context crates_spec
begin

lemma client_request_layout:
  "client_request C = transport_header_ser C (transport_header_new C 0 0 0 (Some True) (Some True) (Some True)) @
     drop 4 (client_request C)"
  "length (client_request C) = 7" "command_code_from_u8 C (client_request C ! 6) = GetEndpointID"
proof -
  let ?h = "transport_header_new C 0 0 0 (Some True) (Some True) (Some True)"
  let ?ch = "control_msg_header_new C GetEndpointID 0 False True False"
  have eq: "client_request C = request_bytes C ?h ?ch (control_msg_header_ser C ?ch @ [])"
    by (simp add: client_request_def request_bytes_def get_eid_request_ser_def Let_def)
  note lay = request_bytes_layout [OF new_wf control_new_wf refl, where tail = "[]"]
  show "length (client_request C) = 7" unfolding eq lay(1) by simp
  show "command_code_from_u8 C (client_request C ! 6) = GetEndpointID"
    unfolding eq lay(2) using command_code_enum.from_to [of GetEndpointID] by (simp add: header_simps)
  have "length (transport_header_ser C ?h) = 4"
    using th.enc_length [OF new_wf] by (simp add: transport_header_size_def)
  then show "client_request C = transport_header_ser C ?h @ drop 4 (client_request C)"
    by (simp add: eq request_bytes_def control_payload_to_bytes_def control_payload_new_def)
qed

lemma client_datagram_layout:
  "4 \<le> length (client_datagram C)" "client_datagram C ! 1 = 0x0f"
  "drop 4 (client_datagram C) = client_request C @ [pec C (client_request C)]"
  using smbus_frame_parse [of "0x10" "client_request C" "0x25"]
  by (simp_all add: client_datagram_def smbus_frame_parts)

section \<open>The exchange\<close>

text \<open>The two datagrams \<open>transmit\<close> sends are answered with two frames.\<close>

lemma bus_owner_answers_twice:
  assumes d: "4 \<le> length d" "d ! 1 = 0x0f" and h: "handle_request C main_context (drop 4 d) = (Ok r, main_context)"
    and env: "\<And>log f. env log f = Inr (length f)"
  shows "\<exists>m f. main_run C env chk [Datagram (Inr d), Datagram (Inr d), Dispatch, Dispatch] bus_main_init = Some m \<and>
    bus_owner_frame C chk r = Ok f \<and> frames_out m = [f, f] \<and> endpoint m = main_context"
proof -
  obtain f where f: "bus_owner_frame C chk r = Ok f"
    using bus_owner_frame_short handle_request_length [OF h] by force
  obtain rt where rt: "create_tag C (drop 4 d) = Some rt" using create_tag_total by blast
  have "flow_take rt ([] :: nat mctp_flow_list) = None" using flows.take_None_iff by force
  moreover have "d \<noteq> []" using d(1) by auto
  ultimately show ?thesis
    using d h f rt env
    by (simp add: main_exec_def main_dispatch_def main_read_def dispatch_command_def send_cmd_def receive_msg_def
        bus_main_init_def Let_def)
qed

lemma client_setup_ok:
  "client_setup C env chk (Inr ()) (Inr ()) =
     Ok (0, (sn_init (\<lambda>_. smbus_binding_default) 0)
       \<lparr>net := (simple_network_new 0)\<lparr>callback_handles := [CallbackHandler, PollSocket 1], num_clients := 1,
                 clients := [0 \<mapsto> client_new 0 0 0]\<rparr>,
        binding_of := (\<lambda>_. \<lparr>address = 0x10, network_id = 0, socket = Some \<lparr>tx_log = []\<rparr>\<rparr>)
          (0 := \<lparr>address = 0x10, network_id = 1, socket = Some \<lparr>tx_log = []\<rparr>\<rparr>)\<rparr>)"
proof -
  have "smbus_binding_new (Inr ()) (Inr ()) 0x10 = Ok \<lparr>address = 0x10, network_id = 0, socket = Some \<lparr>tx_log = []\<rparr>\<rparr>"
    by (simp add: smbus_binding_new_def set_address_spec smbus_binding_default_def)
  then show ?thesis
    by (simp add: client_setup_def sn_init_def sn_add_physical_binding_def smbus_ops_def smbus_bind_def
        sn_socket_def sn_bind_def sub_i_def simple_network_new_def)
qed

lemma client_transmit:
  assumes "\<And>log f. env log f = Inr (length f)"
  shows "smbus_transmit C env \<lparr>address = 0x10, network_id = 1, socket = Some \<lparr>tx_log = []\<rparr>\<rparr> (client_request C) 0x25 =
    (Ok (), \<lparr>address = 0x10, network_id = 1,
       socket = Some \<lparr>tx_log = [client_sent C, client_sent C]\<rparr>\<rparr>)"
proof -
  have "validate_smbus_address 0x25 = Ok ()" by (simp add: validate_iff)
  then show ?thesis
    using assms by (simp add: smbus_transmit_def client_request_layout(2) try_send_def client_datagram_def Let_def)
qed

text \<open>The call of \<open>sendto\<close>, up to its wait for the response.\<close>

lemma client_sends:
  fixes w0
  assumes env: "\<And>log f. env log f = Inr (length f)" and w0: "client_setup C env chk (Inr ()) (Inr ()) = Ok (0, w0)"
  defines "t \<equiv> header_tag C (transport_header_new C 0 0 0 (Some True) (Some True) (Some True))"
  shows "sn_run C (smbus_ops C env) chk [Sendto 0 (drop 4 (client_request C)) client_dest, Transmit 0] w0 =
    Some (w0\<lparr>net := (net w0)\<lparr>flows := [(t, 0)]\<rparr>, next_chan := 1, lock_holder := [0 \<mapsto> 0],
      binding_of := (binding_of w0)(0 := \<lparr>address = 0x10, network_id = 1,
        socket = Some \<lparr>tx_log = [client_sent C, client_sent C]\<rparr>\<rparr>),
      calls := [WaitResponse 0 (client_request C) 0]\<rparr>)"
proof -
  have w: "net w0 = (simple_network_new 0)\<lparr>callback_handles := [CallbackHandler, PollSocket 1], num_clients := 1,
                 clients := [0 \<mapsto> client_new 0 0 0]\<rparr>" "next_chan w0 = 0" "calls w0 = []" "lock_holder w0 = Map.empty"
      "binding_of w0 0 = \<lparr>address = 0x10, network_id = 1, socket = Some \<lparr>tx_log = []\<rparr>\<rparr>"
    using w0 unfolding client_setup_ok by (auto simp: sn_init_def)
  have "sendto_start C (net w0) 0 (drop 4 (client_request C)) client_dest 0 =
      (Ok (0, client_request C, 0x25, t), (net w0)\<lparr>flows := [(t, 0)]\<rparr>)"
    using sendto_start_ok [of "net w0" 0 "client_new 0 0 0" "client_request C" 0 "drop 4 (client_request C)" t]
      client_request_layout(1)
    by (simp add: w client_dest_def client_new_def simple_network_new_def t_def)
  then show ?thesis
    using client_transmit [OF env]
    by (simp add: sn_exec_def sn_transmit_def smbus_ops_def w)
qed

text \<open>With the response delivered twice, the first copy is the result and the second is ignored.\<close>

lemma client_receives:
  assumes env: "\<And>log f. env log f = Inr (length f)"
    and f: "4 \<le> length f" "create_tag C (drop 4 f) = Some rt"
      "flow_matches (header_tag C (transport_header_new C 0 0 0 (Some True) (Some True) (Some True))) rt"
  shows "client_main C env chk (Inr ()) (Inr ())
      [Transmit 0, Deliver 1 f, Deliver 1 f, Handle, Handle, Receive 0] = Some (Ok (drop 4 f))"
proof -
  let ?t = "header_tag C (transport_header_new C 0 0 0 (Some True) (Some True) (Some True))"
  obtain w0 where w0: "client_setup C env chk (Inr ()) (Inr ()) = Ok (0, w0)"
    using client_setup_ok by blast
  obtain w1 where w1: "sn_run C (smbus_ops C env) chk
      [Sendto 0 (drop 4 (client_request C)) client_dest, Transmit 0] w0 = Some w1"
    "flows (net w1) = [(?t, 0)]" "calls w1 = [WaitResponse 0 (client_request C) 0]"
    "chans w1 = (\<lambda>_. Open)" "rx_queue w1 = []" "handler_up w1" "\<not> flows_poisoned (net w1)"
    using client_sends [OF env w0] w0 unfolding client_setup_ok by (auto simp: sn_init_def simple_network_new_def)
  have "flow_take rt (flows (net w1)) = Some ((?t, 0), [])"
    using flow_take_hd [OF f(3), of 0 "[]"] by (simp add: w1(2))
  from sn_callback_answer [OF f(1) w1(7) f(2) this, of 1]
  have cb: "sn_callback C (net w1) (BindingReceive 1 f) =
      (Ok (Some (0, ClientReceive (Extended 0 1 1 0) (drop 4 f))), (net w1)\<lparr>flows := []\<rparr>)" .
  have cb2: "sn_callback C ((net w1)\<lparr>flows := []\<rparr>) (BindingReceive 1 f) = (Ok None, (net w1)\<lparr>flows := []\<rparr>)"
  proof -
    have "flow_take rt ([] :: chan mctp_flow_list) = None" using flows.take_None_iff by force
    then show ?thesis
      by (cases rule: sn_callback_cases [of "(net w1)\<lparr>flows := []\<rparr>" 1 f]) (use w1 f in auto)
  qed
  have ne: "f \<noteq> []" using f(1) by auto
  have run: "\<exists>w2. sn_run C (smbus_ops C env) chk [Deliver 1 f, Deliver 1 f, Handle, Handle, Receive 0] w1 = Some w2 \<and>
      calls w2 = [Returned (Some (client_request C)) (Ok (Extended 0 1 1 0, drop 4 f))]"
    using cb cb2 ne w1(3-6)
    by (simp add: sn_exec_def sn_handle_def sn_receive_def sendto_finish_def chan_send_def)
  have "slice_from 4 (client_request C) = (Ok (drop 4 (client_request C)) :: (mctp_emu_error, bytes) res)"
    by (simp add: slice_from_def client_request_layout(2))
  with run sn_run_append [of C "smbus_ops C env" chk "[Sendto 0 (drop 4 (client_request C)) client_dest, Transmit 0]"
      "[Deliver 1 f, Deliver 1 f, Handle, Handle, Receive 0]" w0] w1(1)
  show ?thesis by (auto simp: client_main_def w0 simp del: sn_run.simps)
qed

lemma client_exchange:
  assumes env: "\<And>log f. env log f = Inr (length f)" "\<And>log f. env' log f = Inr (length f)"
  shows "\<exists>w0 w m f result p x. client_setup C env chk (Inr ()) (Inr ()) = Ok (0, w0) \<and>
    sn_run C (smbus_ops C env) chk [Sendto 0 (drop 4 (client_request C)) client_dest, Transmit 0] w0 = Some w \<and>
    smbus_wire (binding_of w 0) = [client_datagram C, client_datagram C] \<and>
    main_run C env' chk' [Datagram (Inr (client_datagram C)), Datagram (Inr (client_datagram C)), Dispatch, Dispatch]
      bus_main_init = Some m \<and> frames_out m = [f, f] \<and> endpoint m = main_context \<and>
    client_main C env chk (Inr ()) (Inr ())
      [Transmit 0, Deliver 1 f, Deliver 1 f, Handle, Handle, Receive 0] = Some (Ok result) \<and>
    try_to_response C (get_eid_response_try_from C) result = Ok (p, x) \<and>
    response_is_success C (get_eid_resp_completion_code x) = Ok () \<and> get_eid_resp_eid x = 0"
proof -
  let ?d = "client_datagram C" and ?h = "transport_header_new C 0 0 0 (Some True) (Some True) (Some True)"
  obtain w0 where w0: "client_setup C env chk (Inr ()) (Inr ()) = Ok (0, w0)" using client_setup_ok by blast
  have req: "7 \<le> length (drop 4 ?d)" "command_code_from_u8 C (drop 4 ?d ! 6) = GetEndpointID"
    using client_request_layout(2,3) by (simp_all add: client_datagram_layout nth_append)
  from get_endpoint_id_answer [OF req, of main_context] obtain r p x where
    r: "handle_request C main_context (drop 4 ?d) = (Ok r, main_context)"
    and x: "try_to_response C (get_eid_response_try_from C) r = Ok (p, x)"
      "response_is_success C (get_eid_resp_completion_code x) = Ok ()" "get_eid_resp_eid x = 0"
    by (cases "handle_request C main_context (drop 4 ?d)") auto
  from bus_owner_answers_twice [OF client_datagram_layout(1,2) r, of env' chk'] env(2) obtain m f where
    m: "main_run C env' chk' [Datagram (Inr ?d), Datagram (Inr ?d), Dispatch, Dispatch] bus_main_init = Some m"
      "bus_owner_frame C chk' r = Ok f" "frames_out m = [f, f]" "endpoint m = main_context" by blast
  from handle_request_answer [OF r] obtain q t rt where
    q: "control_payload_try_from C r = Ok q" "create_tag C (drop 4 ?d) = Some t" "create_tag C r = Some rt"
      "flow_matches t rt" by blast
  have len: "7 \<le> length r" using payload_code [OF q(1)] by simp
  have t: "t = header_tag C ?h"
    using q(2) create_tag_ser [OF new_wf] client_request_layout(1)
    by (metis append.assoc client_datagram_layout(3) option.inject)
  obtain y where y: "drop 4 f = r @ [y]" using bus_owner_frame_drop [OF m(2)] by blast
  have f: "4 \<le> length f" "create_tag C (drop 4 f) = Some rt"
    using arg_cong [OF y, of length] bus_owner_frame_tag [OF m(2) q(3)] len by simp_all
  from padded_get_eid_response [OF x(1), of "[y]"] obtain p' where
    p': "try_to_response C (get_eid_response_try_from C) (drop 4 f) = Ok (p', x)" unfolding y by blast
  have "client_main C env chk (Inr ()) (Inr ())
      [Transmit 0, Deliver 1 f, Deliver 1 f, Handle, Handle, Receive 0] = Some (Ok (drop 4 f))"
    using client_receives [OF env(1) f] q(4) by (simp add: t)
  moreover note client_sends [OF env(1) w0]
  ultimately show ?thesis using w0 m x p' by (fastforce simp: smbus_wire_def)
qed

end

end
