(* ===== verification/BusRun.thy ===== *)
theory BusRun
  imports BusMain
begin

text \<open>
  The whole of \<open>main\<close> in \<open>examples/basic_bus_owner_loop.rs\<close>: the reader and the dispatcher of
  \<open>BusMain\<close> beside the code of the discovery loop, the tasks of \<open>BusLoop\<close>, which takes its turns
  in between. \<open>main\<close> returns when the loop does, and the other tasks end with it.
\<close>

section \<open>The program\<close>

text \<open>
  Where the loop is: about to take the discovery flag, asleep, in the code of a turn, waiting
  in \<open>send_and_decode\<close>, or returned. The number is \<open>next_eid\<close>.
\<close>

datatype loop_phase =
    AtTop u8
  | Asleep u8
  | Running "u8 loop_task"
  | Waiting "exchange \<Rightarrow> u8 loop_task"
  | Ended "(anyhow, unit) res"

record bus_run =
  machine :: bus_main
  phase :: loop_phase

definition bus_run_init :: bus_run where
  "bus_run_init = \<lparr>machine = bus_main_init, phase = AtTop (min_eid_in_pool (endpoint bus_main_init))\<rparr>"

datatype run_event =
    ReadDatagram "io_error + bytes"
  | Dispatcher
  | Swap
  | Wake
  | Advance
  | PutRequest
  | TakeReply

definition loop_swap :: "crates \<Rightarrow> loop_texts \<Rightarrow> bool \<Rightarrow> bus_run \<Rightarrow> bus_run option" where
  "loop_swap C D chk w =
     (case phase w of
        AtTop n \<Rightarrow>
          (case main_poll (machine w) of
             None \<Rightarrow> None
           | Some m \<Rightarrow>
               Some \<lparr>machine = m,
                     phase = if perform_discovery (endpoint (machine w)) then Running (discover C D chk n) else Asleep n\<rparr>)
      | _ \<Rightarrow> None)"

definition loop_wake :: "crates \<Rightarrow> u8 \<Rightarrow> bus_run \<Rightarrow> bus_run option" where
  "loop_wake C ping_eid w =
     (case phase w of
        Asleep n \<Rightarrow> Some (w\<lparr>phase := Running (idle_turn C ping_eid n)\<rparr>)
      | _ \<Rightarrow> None)"

text \<open>The code of a turn runs to its next request, or to its end: the next turn, or \<open>main\<close> returns.\<close>

definition loop_advance :: "crates \<Rightarrow> bus_run \<Rightarrow> bus_run option" where
  "loop_advance C w =
     (case phase w of
        Running (Ask q k) \<Rightarrow>
          (case main_request C q (machine w) of
             None \<Rightarrow> None
           | Some m \<Rightarrow> Some \<lparr>machine = m, phase = Waiting k\<rparr>)
      | Running (Done (Ok n)) \<Rightarrow> Some (w\<lparr>phase := AtTop n\<rparr>)
      | Running (Done (Err e)) \<Rightarrow> Some (w\<lparr>phase := Ended (Err e)\<rparr>)
      | Running (Done (Panic p)) \<Rightarrow> Some (w\<lparr>phase := Ended (Panic p)\<rparr>)
      | _ \<Rightarrow> None)"

definition loop_put :: "loop_texts \<Rightarrow> bus_run \<Rightarrow> bus_run option" where
  "loop_put D w =
     (case phase w of
        Waiting k \<Rightarrow>
          (case main_put (machine w) of
             None \<Rightarrow> None
           | Some m \<Rightarrow>
               Some \<lparr>machine = m,
                     phase = if loop_at m = LoopFailed then Running (k (SendFailed (send_error D))) else Waiting k\<rparr>)
      | _ \<Rightarrow> None)"

definition loop_take :: "loop_texts \<Rightarrow> bus_run \<Rightarrow> bus_run option" where
  "loop_take D w =
     (case phase w of
        Waiting k \<Rightarrow>
          (case main_receive (machine w) of
             None \<Rightarrow> None
           | Some m \<Rightarrow>
               Some \<lparr>machine = m,
                     phase = Running (k (if loop_at m = LoopFailed then RecvFailed (recv_error D)
                                         else Replied (Inr (snd (last (exchanges m))))))\<rparr>)
      | _ \<Rightarrow> None)"

fun is_ended :: "loop_phase \<Rightarrow> bool" where
  "is_ended (Ended r) = True"
| "is_ended _ = False"

definition run_background :: "crates \<Rightarrow> send_env \<Rightarrow> bool \<Rightarrow> main_event \<Rightarrow> bus_run \<Rightarrow> bus_run option" where
  "run_background C env chk e w =
     (case main_exec C env chk e (machine w) of None \<Rightarrow> None | Some m \<Rightarrow> Some (w\<lparr>machine := m\<rparr>))"

definition run_exec ::
  "crates \<Rightarrow> send_env \<Rightarrow> loop_texts \<Rightarrow> bool \<Rightarrow> u8 \<Rightarrow> run_event \<Rightarrow> bus_run \<Rightarrow> bus_run option" where
  "run_exec C env D chk ping_eid e w =
     (if is_ended (phase w) then None
      else
        (case e of
           ReadDatagram r \<Rightarrow> run_background C env chk (Datagram r) w
         | Dispatcher \<Rightarrow> run_background C env chk Dispatch w
         | Swap \<Rightarrow> loop_swap C D chk w
         | Wake \<Rightarrow> loop_wake C ping_eid w
         | Advance \<Rightarrow> loop_advance C w
         | PutRequest \<Rightarrow> loop_put D w
         | TakeReply \<Rightarrow> loop_take D w))"

fun run_run ::
  "crates \<Rightarrow> send_env \<Rightarrow> loop_texts \<Rightarrow> bool \<Rightarrow> u8 \<Rightarrow> run_event list \<Rightarrow> bus_run \<Rightarrow> bus_run option" where
  "run_run C env D chk ping_eid [] w = Some w"
| "run_run C env D chk ping_eid (e # es) w =
     (case run_exec C env D chk ping_eid e w of None \<Rightarrow> None | Some w' \<Rightarrow> run_run C env D chk ping_eid es w')"

inductive run_reachable :: "crates \<Rightarrow> send_env \<Rightarrow> loop_texts \<Rightarrow> bool \<Rightarrow> u8 \<Rightarrow> bus_run \<Rightarrow> bool"
  for C env D chk ping_eid where
  start: "run_reachable C env D chk ping_eid bus_run_init"
| step: "run_reachable C env D chk ping_eid w \<Longrightarrow> run_exec C env D chk ping_eid e w = Some w' \<Longrightarrow>
    run_reachable C env D chk ping_eid w'"

lemma run_run_append:
  "run_run C env D chk p (es @ fs) w =
     (case run_run C env D chk p es w of None \<Rightarrow> None | Some w' \<Rightarrow> run_run C env D chk p fs w')"
  by (induction es arbitrary: w) (auto split: option.splits)

lemma run_run_reachable:
  "run_reachable C env D chk p w \<Longrightarrow> run_run C env D chk p es w = Some w' \<Longrightarrow> run_reachable C env D chk p w'"
proof (induction es arbitrary: w)
  case (Cons e es)
  then obtain v where "run_exec C env D chk p e w = Some v" "run_run C env D chk p es v = Some w'"
    by (auto split: option.splits)
  with Cons show ?case using run_reachable.step by blast
qed simp

text \<open>One step, taken apart once and for all.\<close>

lemma run_exec_cases:
  assumes "run_exec C env D chk p e w = Some w'"
  obtains (background) m e' where "e' = Dispatch \<or> (\<exists>r. e' = Datagram r)"
      "main_exec C env chk e' (machine w) = Some m" "w' = w\<lparr>machine := m\<rparr>"
  | (swap) n m where "phase w = AtTop n" "main_poll (machine w) = Some m"
      "w' = \<lparr>machine = m,
             phase = if perform_discovery (endpoint (machine w)) then Running (discover C D chk n) else Asleep n\<rparr>"
  | (wake) n where "phase w = Asleep n" "w' = w\<lparr>phase := Running (idle_turn C p n)\<rparr>"
  | (ask) q k m where "phase w = Running (Ask q k)" "main_request C q (machine w) = Some m"
      "w' = \<lparr>machine = m, phase = Waiting k\<rparr>"
  | (next_turn) n where "phase w = Running (Done (Ok n))" "w' = w\<lparr>phase := AtTop n\<rparr>"
  | (ended) r r' where "phase w = Running (Done r)" "w' = w\<lparr>phase := Ended r'\<rparr>"
      "(\<exists>x. r = Err x \<and> r' = Err x) \<or> (\<exists>x. r = Panic x \<and> r' = Panic x)"
  | (put) k m where "phase w = Waiting k" "main_put (machine w) = Some m" "loop_at m \<noteq> LoopFailed" "w' = w\<lparr>machine := m\<rparr>"
  | (put_failed) k m where "phase w = Waiting k" "main_put (machine w) = Some m" "loop_at m = LoopFailed"
      "w' = \<lparr>machine = m, phase = Running (k (SendFailed (send_error D)))\<rparr>"
  | (take) k m where "phase w = Waiting k" "main_receive (machine w) = Some m" "loop_at m \<noteq> LoopFailed"
      "w' = \<lparr>machine = m, phase = Running (k (Replied (Inr (snd (last (exchanges m))))))\<rparr>"
  | (take_failed) k m where "phase w = Waiting k" "main_receive (machine w) = Some m" "loop_at m = LoopFailed"
      "w' = \<lparr>machine = m, phase = Running (k (RecvFailed (recv_error D)))\<rparr>"
proof (cases e)
  case (ReadDatagram r)
  then show thesis
    using assms background [of "Datagram r"] by (auto simp: run_exec_def run_background_def split: if_splits option.splits)
next
  case Dispatcher
  then show thesis
    using assms background [of Dispatch] by (auto simp: run_exec_def run_background_def split: if_splits option.splits)
next
  case Swap
  then show thesis
    using assms swap by (auto simp: run_exec_def loop_swap_def split: if_splits option.splits loop_phase.splits)
next
  case Wake
  then show thesis
    using assms wake by (auto simp: run_exec_def loop_wake_def split: if_splits loop_phase.splits)
next
  case Advance
  then show thesis
    using assms ask next_turn ended
    by (auto simp: run_exec_def loop_advance_def split: if_splits loop_phase.splits loop_task.splits res.splits option.splits)
next
  case PutRequest
  then show thesis
    using assms put put_failed
    by (cases w) (auto simp: run_exec_def loop_put_def split: if_splits option.splits loop_phase.splits)
next
  case TakeReply
  then show thesis
    using assms take take_failed
    by (auto simp: run_exec_def loop_take_def split: if_splits option.splits loop_phase.splits)
qed

section \<open>The loop and the machine agree\<close>

text \<open>A task that returns an error as soon as an exchange fails.\<close>

fun failed_exchange :: "exchange \<Rightarrow> bool" where
  "failed_exchange (Replied r) = False"
| "failed_exchange _ = True"

primrec fails_fast :: "'a loop_task \<Rightarrow> bool" where
  "fails_fast (Done r) = True"
| "fails_fast (Ask q k) =
     (\<forall>x. fails_fast (k x) \<and> (failed_exchange x \<longrightarrow> (\<exists>r. k x = Done r \<and> \<not> is_ok r)))"

lemma fails_fast_bind: "fails_fast t \<Longrightarrow> (\<And>x. fails_fast (f x)) \<Longrightarrow> fails_fast (task_bind t f)"
proof (induction t)
  case (Ask q k)
  have "\<exists>r. task_bind (k x) f = Done r \<and> \<not> is_ok r" if "failed_exchange x" for x
  proof -
    from Ask.prems(1) that obtain r where "k x = Done r" "\<not> is_ok r" by auto
    then show ?thesis by (cases r) auto
  qed
  then show ?case using Ask by auto
qed (auto split: res.splits)

lemma fails_fast_result: "fails_fast t \<Longrightarrow> (\<And>r. \<not> is_ok r \<Longrightarrow> \<not> is_ok (g r)) \<Longrightarrow> fails_fast (task_result g t)"
  by (induction t) fastforce+

lemma fails_fast_context: "fails_fast t \<Longrightarrow> fails_fast (task_context msg t)"
  unfolding task_context_def by (rule fails_fast_result) (auto simp: is_ok_iff)

lemma fails_fast_unwrap: "fails_fast t \<Longrightarrow> fails_fast (task_unwrap t)"
  unfolding task_unwrap_def by (rule fails_fast_result) (auto simp: res_unwrap_def split: res.splits)

lemma fails_fast_exchange: "fails_fast (send_and_decode C conv q)"
  by (auto simp: send_and_decode_def elim: failed_exchange.elims)

lemmas fails_fast_intros = fails_fast_bind fails_fast_context fails_fast_unwrap fails_fast_exchange

lemma fails_fast_requests:
  "fails_fast (send_get_eid_request C d)" "fails_fast (send_set_eid_request C e)"
  "fails_fast (send_allocate_eids_request C s n)"
  by (auto simp: send_get_eid_request_def send_set_eid_request_def send_allocate_eids_request_def
      intro!: fails_fast_intros)

lemma fails_fast_turn: "fails_fast (discover C D chk n)" "fails_fast (idle_turn C p n)"
  by (auto simp: discover_def idle_turn_def assign_eid_def allocate_pool_def Let_def
      simp del: task_bind.simps intro!: fails_fast_intros fails_fast_requests)

text \<open>
  The phase of the loop and the machine's view of it. A failed exchange leaves the loop with
  an error to return.
\<close>

definition agrees :: "bus_run \<Rightarrow> bool" where
  "agrees w \<longleftrightarrow>
     (case phase w of
        AtTop n \<Rightarrow> loop_at (machine w) = LoopIdle
      | Asleep n \<Rightarrow> loop_at (machine w) = LoopIdle
      | Running t \<Rightarrow>
          fails_fast t \<and>
          (loop_at (machine w) = LoopIdle \<or> loop_at (machine w) = LoopFailed \<and> (\<exists>r. t = Done r \<and> \<not> is_ok r))
      | Waiting k \<Rightarrow> fails_fast (Ask (LoopGetEid 0) k) \<and> loop_buf (loop_at (machine w)) \<noteq> None
      | Ended r \<Rightarrow> \<not> is_ok r)"

context crates_spec
begin

lemma background_same:
  assumes "main_exec C env chk e m = Some m'" "e = Dispatch \<or> (\<exists>r. e = Datagram r)"
  shows "loop_at m' = loop_at m \<and> exchanges m' = exchanges m"
proof (cases "e = Dispatch")
  case True
  then have "main_dispatch C env chk m = Some m'" using assms(1) by (simp add: main_exec_def)
  then show ?thesis by (cases rule: main_dispatch_cases) (simp_all add: dispatcher_dies_def)
next
  case False
  then obtain r where "main_read r m = Some m'" using assms by (auto simp: main_exec_def)
  then show ?thesis by (cases r) (auto simp: main_read_def split: if_splits)
qed

lemma main_request_cases:
  assumes "main_request C q m = Some m'"
  obtains buf s where "loop_at m = LoopIdle" "loop_request_bytes C q \<lparr>ctx = endpoint m, sent = []\<rparr> = (Ok buf, s)"
    "m' = m\<lparr>endpoint := ctx s, next_reply := Suc (next_reply m), loop_at := LoopPutting (next_reply m) buf\<rparr>"
  using assms loop_request_bytes_ok [of q "\<lparr>ctx = endpoint m, sent = []\<rparr>"]
  by (auto simp: main_request_def split: loop_state.splits)

lemma main_put_cases:
  assumes "main_put m = Some m'"
  obtains ch buf where "loop_at m = LoopPutting ch buf" "\<not> dispatcher_up m" "m' = m\<lparr>loop_at := LoopFailed\<rparr>"
  | ch buf where "loop_at m = LoopPutting ch buf" "dispatcher_up m" "length (commands m) < 32"
      "m' = m\<lparr>loop_at := LoopWaiting ch buf, commands := commands m @ [SendMsg Control buf (Some ch)]\<rparr>"
  using assms by (auto simp: main_put_def split: loop_state.splits if_splits)

lemma main_receive_cases:
  assumes "main_receive m = Some m'"
  obtains ch buf b where "loop_at m = LoopWaiting ch buf" "reply_chans m ch = ReplySent b"
      "m' = m\<lparr>loop_at := LoopIdle, exchanges := exchanges m @ [(buf, b)]\<rparr>"
  | ch buf where "loop_at m = LoopWaiting ch buf" "reply_chans m ch = ReplyLost" "m' = m\<lparr>loop_at := LoopFailed\<rparr>"
  using assms by (auto simp: main_receive_def split: loop_state.splits reply_chan.splits)

lemma run_step_main:
  assumes "run_exec C env D chk p e w = Some w'"
  shows "machine w' = machine w \<or> (\<exists>e'. main_exec C env chk e' (machine w) = Some (machine w'))"
  using assms
proof (cases rule: run_exec_cases)
  case (swap n m)
  then show ?thesis by (auto simp: main_exec_def intro: exI [of _ LoopPoll])
next
  case (ask q k m)
  then show ?thesis by (auto simp: main_exec_def intro: exI [of _ "LoopSend q"])
next
  case (put k m)
  then show ?thesis by (auto simp: main_exec_def intro: exI [of _ LoopPut])
next
  case (put_failed k m)
  then show ?thesis by (auto simp: main_exec_def intro: exI [of _ LoopPut])
next
  case (take k m)
  then show ?thesis by (auto simp: main_exec_def intro: exI [of _ LoopReceive])
next
  case (take_failed k m)
  then show ?thesis by (auto simp: main_exec_def intro: exI [of _ LoopReceive])
qed auto

text \<open>What \<open>BusMain\<close> shows of its reachable states holds in every run of the program.\<close>

lemma run_reachable_main: "run_reachable C env D chk p w \<Longrightarrow> main_reachable C env chk (machine w)"
proof (induction rule: run_reachable.induct)
  case start
  show ?case by (simp add: bus_run_init_def main_reachable.start)
next
  case (step w e w')
  with run_step_main [OF step.hyps(2)] show ?case by (auto intro: main_reachable.step)
qed

lemma agrees_step:
  assumes "agrees w" "run_exec C env D chk p e w = Some w'"
  shows "agrees w'"
  using assms(2)
proof (cases rule: run_exec_cases)
  case (background m e')
  then show ?thesis using assms(1) background_same [OF background(2,1)] by (cases "phase w") (simp_all add: agrees_def)
next
  case (swap n m)
  then show ?thesis
    using assms(1) fails_fast_turn by (auto simp: agrees_def main_poll_def split: loop_state.splits)
next
  case (wake n)
  then show ?thesis using assms(1) fails_fast_turn by (simp add: agrees_def)
next
  case (ask q k m)
  from ask(2) obtain buf and s :: bus_owner where "m = (machine w)\<lparr>endpoint := ctx s, next_reply := Suc (next_reply (machine w)),
      loop_at := LoopPutting (next_reply (machine w)) buf\<rparr>" by (rule main_request_cases)
  then show ?thesis using assms(1) ask by (simp add: agrees_def)
next
  case (next_turn n)
  then show ?thesis using assms(1) by (simp add: agrees_def)
next
  case (ended r r')
  then show ?thesis by (auto simp: agrees_def)
next
  case (put k m)
  from put(2) show ?thesis by (rule main_put_cases) (use put assms(1) in \<open>auto simp: agrees_def\<close>)
next
  case (put_failed k m)
  then show ?thesis using assms(1) by (auto simp: agrees_def)
next
  case (take k m)
  from take(2) show ?thesis by (rule main_receive_cases) (use take assms(1) in \<open>auto simp: agrees_def\<close>)
next
  case (take_failed k m)
  then show ?thesis using assms(1) by (auto simp: agrees_def)
qed

lemma run_reachable_agrees: "run_reachable C env D chk p w \<Longrightarrow> agrees w"
proof (induction rule: run_reachable.induct)
  case start
  show ?case by (simp add: agrees_def bus_run_init_def bus_main_init_def)
qed (rule agrees_step)

end

section \<open>The identifiers the program hands out\<close>

text \<open>The requests the loop has made: those answered, and the one it waits for.\<close>

definition loop_requests :: "bus_main \<Rightarrow> bytes list" where
  "loop_requests m =
     map fst (exchanges m) @ (case loop_buf (loop_at m) of Some buf \<Rightarrow> [buf] | None \<Rightarrow> [])"

text \<open>
  \<open>lo\<close> identifiers are handed out; what is left of the turn hands out increasing ranges from
  there, up to the \<open>next_eid\<close> it returns.
\<close>

definition hands_on :: "nat \<Rightarrow> loop_phase \<Rightarrow> bool" where
  "hands_on lo ph \<longleftrightarrow>
     (case ph of
        AtTop n \<Rightarrow> lo \<le> unat n
      | Asleep n \<Rightarrow> lo \<le> unat n
      | Running t \<Rightarrow> hands_out t lo (\<lambda>n h. h \<le> unat n)
      | Waiting k \<Rightarrow> \<forall>x. hands_out (k x) lo (\<lambda>n h. h \<le> unat n)
      | Ended r \<Rightarrow> True)"

definition eids_ok :: "crates \<Rightarrow> bus_run \<Rightarrow> bool" where
  "eids_ok C w \<longleftrightarrow>
     (\<exists>lo \<le> 255. increasing (unat (min_eid_in_pool main_context)) (ranges C (loop_requests (machine w))) lo \<and>
        hands_on lo (phase w))"

lemma increasing_front: "increasing lo (xs @ ys) hi \<Longrightarrow> increasing lo xs hi"
proof (induction lo xs hi rule: increasing.induct)
  case (1 lo hi)
  then show ?case by (simp add: increasing_le)
qed auto

lemma hands_out_lo: "hands_out t lo Q \<Longrightarrow> lo \<le> 255"
  by (induction t arbitrary: lo) (force split: option.splits)+

lemma eids_okI:
  assumes "increasing (unat (min_eid_in_pool main_context)) (ranges C (loop_requests (machine w))) lo" "lo \<le> 255"
    "hands_on lo (phase w)"
  shows "eids_ok C w"
  using assms unfolding eids_ok_def by blast

context crates_spec
begin

lemma eids_ask:
  assumes lo: "increasing (unat (min_eid_in_pool main_context)) (ranges C (loop_requests (machine w))) lo" "lo \<le> 255"
      "hands_on lo (phase w)"
    and ask: "phase w = Running (Ask q k)" "main_request C q (machine w) = Some m" "w' = \<lparr>machine = m, phase = Waiting k\<rparr>"
  shows "eids_ok C w'"
proof -
  from ask(2) obtain buf and s :: bus_owner where b: "loop_at (machine w) = LoopIdle"
    "loop_request_bytes C q \<lparr>ctx = endpoint (machine w), sent = []\<rparr> = (Ok buf, s)"
    "m = (machine w)\<lparr>endpoint := ctx s, next_reply := Suc (next_reply (machine w)),
        loop_at := LoopPutting (next_reply (machine w)) buf\<rparr>"
    by (rule main_request_cases)
  have reqs: "loop_requests m = loop_requests (machine w) @ [buf]" using b(1,3) by (simp add: loop_requests_def)
  note r = loop_request_ranges [OF b(2)]
  show ?thesis
  proof (cases "request_range q")
    case None
    then show ?thesis using lo ask reqs r by (intro eids_okI [of _ _ lo]) (simp_all add: hands_on_def)
  next
    case (Some ab)
    obtain x y where ab: "ab = (x, y)" by fastforce
    have le: "lo \<le> x" "x \<le> y" "y \<le> 255" "\<forall>e. hands_out (k e) y (\<lambda>n h. h \<le> unat n)"
      using lo(3) ask(1) Some by (simp_all add: hands_on_def ab)
    then have "increasing lo (ranges C [buf]) y" using r Some by (simp add: ab)
    from increasing_append [OF lo(1) this] le ask reqs show ?thesis
      by (intro eids_okI [of _ _ y]) (simp_all add: hands_on_def)
  qed
qed

lemma eids_step:
  assumes ok: "eids_ok C w" and ag: "agrees w" and ex: "run_exec C env D True p e w = Some w'"
  shows "eids_ok C w'"
proof -
  let ?base = "unat (min_eid_in_pool main_context)"
  from ok obtain lo where lo: "increasing ?base (ranges C (loop_requests (machine w))) lo" "lo \<le> 255"
    "hands_on lo (phase w)" unfolding eids_ok_def by blast
  have raise: "increasing ?base (ranges C (loop_requests (machine w))) (unat n)" if "lo \<le> unat n" for n :: u8
    by (rule increasing_mono [OF lo(1) that])
  have front: "increasing ?base (ranges C (map fst (exchanges (machine w)))) lo"
    using lo(1) by (auto simp: loop_requests_def dest: increasing_front)
  from ex show ?thesis
  proof (cases rule: run_exec_cases)
    case (background m e')
    then show ?thesis
      using lo background_same [OF background(2,1)] by (intro eids_okI [of _ _ lo]) (simp_all add: loop_requests_def)
  next
    case (swap n m)
    have "loop_requests m = loop_requests (machine w)"
      using swap(2) by (auto simp: main_poll_def loop_requests_def split: loop_state.splits)
    moreover have "hands_on (unat n) (phase w')" using hands_out_discover by (simp add: hands_on_def swap(3))
    ultimately show ?thesis
      using raise [of n] swap lo(3) by (intro eids_okI [of _ _ "unat n"]) (simp_all add: hands_on_def)
  next
    case (wake n)
    then show ?thesis
      using raise [of n] lo(3) hands_out_idle by (intro eids_okI [of _ _ "unat n"]) (simp_all add: hands_on_def)
  next
    case (ask q k m)
    from eids_ask [OF lo ask] show ?thesis .
  next
    case (next_turn n)
    then show ?thesis using lo by (intro eids_okI [of _ _ lo]) (simp_all add: hands_on_def)
  next
    case (ended r r')
    then show ?thesis using lo by (intro eids_okI [of _ _ lo]) (simp_all add: hands_on_def)
  next
    case (put k m)
    from put(2) have "loop_requests m = loop_requests (machine w)"
      by (rule main_put_cases) (use put(3) in \<open>auto simp: loop_requests_def\<close>)
    then show ?thesis using put lo by (intro eids_okI [of _ _ lo]) (simp_all add: hands_on_def)
  next
    case (put_failed k m)
    from put_failed(2) have "loop_requests m = map fst (exchanges (machine w))"
      by (rule main_put_cases) (use put_failed(3) in \<open>auto simp: loop_requests_def\<close>)
    then show ?thesis using put_failed lo front by (intro eids_okI [of _ _ lo]) (simp_all add: hands_on_def)
  next
    case (take k m)
    from take(2) have "loop_requests m = loop_requests (machine w)"
      by (rule main_receive_cases) (use take(3) in \<open>auto simp: loop_requests_def\<close>)
    then show ?thesis using take lo by (intro eids_okI [of _ _ lo]) (simp_all add: hands_on_def)
  next
    case (take_failed k m)
    from take_failed(2) have "loop_requests m = map fst (exchanges (machine w))"
      by (rule main_receive_cases) (use take_failed(3) in \<open>auto simp: loop_requests_def\<close>)
    then show ?thesis using take_failed lo front by (intro eids_okI [of _ _ lo]) (simp_all add: hands_on_def)
  qed
qed

lemma run_reachable_eids: "run_reachable C env D True p w \<Longrightarrow> eids_ok C w"
proof (induction rule: run_reachable.induct)
  case start
  show ?case
    by (rule eids_okI [of _ _ "unat (min_eid_in_pool main_context)"])
      (simp_all add: bus_run_init_def bus_main_init_def loop_requests_def hands_on_def)
next
  case (step w e w')
  show ?case by (rule eids_step [OF step.IH run_reachable_agrees [OF step.hyps(1)] step.hyps(2)])
qed

section \<open>The program is never stuck\<close>

lemma dispatcher_gone:
  "main_reachable C env chk m \<Longrightarrow> \<not> dispatcher_up m \<Longrightarrow> pending_cmd m = []"
proof (induction rule: main_reachable.induct)
  case (step m e m')
  show ?case
  proof (cases "e = Dispatch")
    case True
    then have "main_dispatch C env chk m = Some m'" using step.hyps(2) by (simp add: main_exec_def)
    moreover from this have "dispatcher_up m" by (simp add: main_dispatch_def split: if_splits)
    ultimately show ?thesis
      by (cases rule: main_dispatch_cases) (use step.prems in \<open>auto simp: dispatcher_dies_def\<close>)
  next
    case False
    with step show ?thesis
      by (cases e) (auto simp: main_exec_def main_read_def main_poll_def main_put_def main_receive_def main_request_def
          split: loop_state.splits reply_chan.splits if_splits prod.splits res.splits sum.splits)
  qed
qed (simp add: bus_main_init_def)

lemma main_dispatch_enabled:
  assumes "dispatcher_up m" "commands m \<noteq> []"
  shows "\<exists>m'. main_dispatch C env chk m = Some m'"
proof -
  obtain cmd q where q: "commands m = cmd # q" using assms(2) by (cases "commands m") auto
  obtain r p c where r: "dispatch_command C chk cmd (pending_cmd m) (endpoint m) = (r, p, c)" by (metis surj_pair)
  show ?thesis
    using assms(1) q r
    by (cases r) (auto simp: main_dispatch_def Let_def split: dispatch.splits option.splits sum.splits)
qed

lemma dispatcher_enabled:
  assumes "dispatcher_up (machine w)" "commands (machine w) \<noteq> []" "\<not> is_ended (phase w)"
  shows "run_exec C env D chk p Dispatcher w \<noteq> None"
  using main_dispatch_enabled [OF assms(1,2), of env chk] assms(3)
  by (auto simp: run_exec_def run_background_def main_exec_def)

text \<open>The request is with a live dispatcher as long as its reply channel is open.\<close>

lemma reply_open:
  assumes "run_reachable C env D chk p w" "loop_at (machine w) = LoopWaiting ch buf" "reply_chans (machine w) ch = ReplyOpen"
  shows "dispatcher_up (machine w)"
    "commands (machine w) = [] \<Longrightarrow> \<exists>t. create_tag C buf = Some t \<and> pending_cmd (machine w) = [(t, ch)]"
proof -
  have inv: "main_inv C (machine w)" by (rule main_reachable_inv [OF run_reachable_main [OF assms(1)]])
  then have at: "pending_cmd (machine w) = [] \<and> queued (machine w) = [(ch, buf)] \<or>
      queued (machine w) = [] \<and> (\<exists>t. create_tag C buf = Some t \<and> pending_cmd (machine w) = [(t, ch)])"
    using assms(2,3) by (simp add: main_inv_def loop_inv_def)
  show "dispatcher_up (machine w)"
  proof (rule ccontr)
    assume down: "\<not> dispatcher_up (machine w)"
    with inv have "queued (machine w) = []" by (simp add: main_inv_def queued_def)
    with at dispatcher_gone [OF run_reachable_main [OF assms(1)] down] show False by auto
  qed
  show "\<exists>t. create_tag C buf = Some t \<and> pending_cmd (machine w) = [(t, ch)]" if "commands (machine w) = []"
    using at that by (auto simp: queued_def)
qed

lemma waiting_enabled:
  assumes reach: "run_reachable C env D chk p w" and ph: "phase w = Waiting k"
  shows "(\<exists>e \<in> {Dispatcher, PutRequest, TakeReply}. run_exec C env D chk p e w \<noteq> None) \<or>
    (\<exists>ch buf t. loop_at (machine w) = LoopWaiting ch buf \<and> pending_cmd (machine w) = [(t, ch)] \<and>
       create_tag C buf = Some t \<and> dispatcher_up (machine w) \<and> commands (machine w) = [])"
proof -
  have "loop_buf (loop_at (machine w)) \<noteq> None"
    using run_reachable_agrees [OF reach] ph by (simp add: agrees_def)
  then consider ch buf where "loop_at (machine w) = LoopPutting ch buf" | ch buf where "loop_at (machine w) = LoopWaiting ch buf"
    by (cases "loop_at (machine w)") auto
  then show ?thesis
  proof cases
    case (1 ch buf)
    show ?thesis
    proof (cases "dispatcher_up (machine w) \<and> 32 \<le> length (commands (machine w))")
      case True
      then have "run_exec C env D chk p Dispatcher w \<noteq> None" by (intro dispatcher_enabled) (auto simp: ph)
      then show ?thesis by blast
    next
      case False
      with 1 ph have "run_exec C env D chk p PutRequest w \<noteq> None" by (auto simp: run_exec_def loop_put_def main_put_def)
      then show ?thesis by blast
    qed
  next
    case (2 ch buf)
    show ?thesis
    proof (cases "reply_chans (machine w) ch")
      case ReplyOpen
      note up = reply_open [OF reach 2 ReplyOpen]
      show ?thesis
      proof (cases "commands (machine w) = []")
        case True
        then show ?thesis using up 2 by blast
      next
        case False
        then have "run_exec C env D chk p Dispatcher w \<noteq> None" using up(1) by (intro dispatcher_enabled) (auto simp: ph)
        then show ?thesis by blast
      qed
    qed (use 2 ph in \<open>auto simp: run_exec_def loop_take_def main_receive_def\<close>)
  qed
qed

lemma run_enabled:
  assumes "run_reachable C env D chk p w" "\<not> is_ended (phase w)"
  shows "(\<exists>e \<in> {Dispatcher, Swap, Wake, Advance, PutRequest, TakeReply}. run_exec C env D chk p e w \<noteq> None) \<or>
    (\<exists>ch buf t. loop_at (machine w) = LoopWaiting ch buf \<and> pending_cmd (machine w) = [(t, ch)] \<and>
       create_tag C buf = Some t \<and> dispatcher_up (machine w) \<and> commands (machine w) = [])"
proof -
  have ag: "agrees w" using run_reachable_agrees [OF assms(1)] .
  show ?thesis
  proof (cases "phase w")
    case (AtTop n)
    then have "run_exec C env D chk p Swap w \<noteq> None"
      using ag by (simp add: agrees_def run_exec_def loop_swap_def main_poll_def)
    then show ?thesis by blast
  next
    case (Asleep n)
    then have "run_exec C env D chk p Wake w \<noteq> None" by (simp add: run_exec_def loop_wake_def)
    then show ?thesis by blast
  next
    case (Running t)
    have "run_exec C env D chk p Advance w \<noteq> None"
    proof (cases t)
      case (Done r)
      then show ?thesis using Running by (cases r) (simp_all add: run_exec_def loop_advance_def)
    next
      case (Ask q k)
      obtain buf s' where "loop_request_bytes C q \<lparr>ctx = endpoint (machine w), sent = []\<rparr> = (Ok buf, s')"
        using loop_request_bytes_ok [of q "\<lparr>ctx = endpoint (machine w), sent = []\<rparr>"] by blast
      moreover have "loop_at (machine w) = LoopIdle" using ag Running Ask by (simp add: agrees_def)
      ultimately show ?thesis
        using Running Ask by (simp add: run_exec_def loop_advance_def main_request_def)
    qed
    then show ?thesis by blast
  next
    case (Waiting k)
    with waiting_enabled [OF assms(1)] show ?thesis by blast
  qed (use assms(2) in simp)
qed

end

end
