(* ===== verification/BusPeer.thy ===== *)
theory BusPeer
  imports BusRun
begin

text \<open>
  Two instances of \<open>examples/basic_bus_owner_loop.rs\<close> on one bus: the first is notified of a
  device, discovers the second and gives it an identifier. Both run the whole program.
\<close>

section \<open>An exchange of the program, up to the wire and back\<close>

text \<open>Nothing is in flight.\<close>

definition calm :: "bus_main \<Rightarrow> bool" where
  "calm m \<longleftrightarrow>
     loop_at m = LoopIdle \<and> commands m = [] \<and> pending_cmd m = [] \<and> dispatcher_up m \<and> reader_up m \<and>
     (\<forall>ch \<ge> next_reply m. reply_chans m ch = ReplyOpen)"

text \<open>A datagram with the MCTP command.\<close>

definition mctp_datagram :: "bytes \<Rightarrow> bool" where
  "mctp_datagram d \<longleftrightarrow> 4 \<le> length d \<and> d ! 1 = 0x0f"

text \<open>The frame with the request is on the wire, and the loop waits.\<close>

definition asked :: "crates \<Rightarrow> bytes \<Rightarrow> msg_flow_tag \<Rightarrow> bus_main \<Rightarrow> bytes \<Rightarrow> mctp_endpoint_context \<Rightarrow> bus_main" where
  "asked C buf t m f c =
     m\<lparr>endpoint := c, next_reply := Suc (next_reply m), loop_at := LoopWaiting (next_reply m) buf,
       pending_cmd := [(t, next_reply m)], frames_out := frames_out m @ [f]\<rparr>"

definition answered :: "bytes \<Rightarrow> bytes \<Rightarrow> bus_main \<Rightarrow> bus_main" where
  "answered buf b m =
     (case pending_cmd m of
        (t, ch) # _ \<Rightarrow>
          m\<lparr>loop_at := LoopIdle, pending_cmd := [], reply_chans := (reply_chans m)(ch := ReplySent b),
            exchanges := exchanges m @ [(buf, b)]\<rparr>
      | [] \<Rightarrow> m)"

context crates_spec
begin

lemma ask_run:
  assumes calm: "calm (machine w)" and w: "phase w = Running (Ask q k)"
    and buf: "loop_request_bytes C q \<lparr>ctx = endpoint (machine w), sent = []\<rparr> = (Ok buf, s)"
    and env: "\<And>log f. env log f = Inr (length f)"
  obtains f t where "bus_owner_frame C chk buf = Ok f" "create_tag C buf = Some t"
    "run_run C env D chk p [Advance, PutRequest, Dispatcher] w =
      Some \<lparr>machine = asked C buf t (machine w) f (ctx s), phase = Waiting k\<rparr>"
proof -
  have "length buf < 255" using loop_request_bytes_ok [of q "\<lparr>ctx = endpoint (machine w), sent = []\<rparr>"] buf by auto
  then obtain f where f: "bus_owner_frame C chk buf = Ok f" using bus_owner_frame_short by blast
  obtain t where t: "create_tag C buf = Some t" using create_tag_total by blast
  show thesis
    by (rule that [OF f t], insert calm w buf env f t)
      (cases w, simp add: calm_def asked_def run_exec_def loop_advance_def loop_put_def run_background_def main_exec_def
        main_request_def main_put_def main_dispatch_def dispatch_command_def send_cmd_def flow_push_def Let_def)
qed

lemma answer_run:
  assumes calm: "calm m" and d: "mctp_datagram d" "create_tag C (drop 4 d) = Some rt" "flow_matches t rt"
  shows "run_run C env D chk p [ReadDatagram (Inr d), Dispatcher, TakeReply] \<lparr>machine = asked C buf t m f c, phase = Waiting k\<rparr> =
    Some \<lparr>machine = answered buf (drop 4 d) (asked C buf t m f c), phase = Running (k (Replied (Inr (drop 4 d))))\<rparr>"
proof -
  have tk: "flow_take rt [(t, next_reply m)] = Some ((t, next_reply m), [])" by (rule flow_take_hd [OF d(3)])
  have "d \<noteq> []" using d(1) by (auto simp: mctp_datagram_def)
  with calm d tk show ?thesis
    by (simp add: calm_def asked_def answered_def mctp_datagram_def run_exec_def loop_take_def run_background_def main_exec_def
        main_read_def main_receive_def main_dispatch_def dispatch_command_def receive_msg_def reply_send_def Let_def)
qed

lemma calm_answered: "calm m \<Longrightarrow> calm (answered buf b (asked C buf t m f c))"
  by (simp add: calm_def answered_def asked_def)

lemma answered_fields [simp]:
  "frames_out (answered buf b (asked C buf t m f c)) = frames_out m @ [f]"
  "endpoint (answered buf b (asked C buf t m f c)) = c"
  by (simp_all add: answered_def asked_def)

lemma answered_requests:
  "calm m \<Longrightarrow> loop_requests (answered buf b (asked C buf t m f c)) = loop_requests m @ [buf]"
  by (simp add: loop_requests_def answered_def asked_def calm_def)

section \<open>A request on the other side\<close>

lemma bus_owner_frame_parts:
  assumes "bus_owner_frame C chk r = Ok f" "7 \<le> length r"
  shows "mctp_datagram f" "\<exists>x. drop 4 f = r @ [x]" "create_tag C (drop 4 f) = create_tag C r"
proof -
  show "mctp_datagram f" using assms by (auto simp: mctp_datagram_def bus_owner_frame_def res_bind_eq_Ok Let_def)
  show "\<exists>x. drop 4 f = r @ [x]" by (rule bus_owner_frame_drop [OF assms(1)])
  obtain rt where "create_tag C r = Some rt" using create_tag_total by blast
  with bus_owner_frame_tag [OF assms(1) this] assms(2) show "create_tag C (drop 4 f) = create_tag C r" by simp
qed

text \<open>A program with nothing in flight answers a request it can handle with one frame.\<close>

lemma serve_run:
  assumes calm: "calm m" and d: "mctp_datagram d" and h: "handle_request C (endpoint m) (drop 4 d) = (Ok r, c)"
    and env: "\<And>log f. env log f = Inr (length f)"
  obtains f where "bus_owner_frame C chk r = Ok f"
    "main_run C env chk [Datagram (Inr d), Dispatch] m = Some (m\<lparr>endpoint := c, frames_out := frames_out m @ [f]\<rparr>)"
proof -
  obtain f where f: "bus_owner_frame C chk r = Ok f"
    using bus_owner_frame_short handle_request_length [OF h] by force
  obtain rt where rt: "create_tag C (drop 4 d) = Some rt" using create_tag_total by blast
  have "flow_take rt ([] :: nat mctp_flow_list) = None" using flows.take_None_iff by force
  moreover have "d \<noteq> []" using d(1) by (auto simp: mctp_datagram_def)
  ultimately show thesis
    using calm d h f rt env
    by (intro that [OF f]) (simp add: calm_def mctp_datagram_def main_exec_def main_dispatch_def main_read_def
        dispatch_command_def send_cmd_def receive_msg_def Let_def)
qed

text \<open>
  The other side of an exchange: the frame of a request \<open>buf\<close> is answered with a frame that
  answers its flow and carries the response.
\<close>

lemma peer_serves:
  assumes buf: "bus_owner_frame C chk buf = Ok f" "7 \<le> length buf" "create_tag C buf = Some t"
    and h: "\<And>x. \<exists>b. handle_request C (endpoint m) (buf @ [x]) = (Ok b, c) \<and> good b"
    and good: "\<And>b x. good b \<Longrightarrow> good (b @ [x])"
    and calm: "calm m" and env: "\<And>log f. env log f = Inr (length f)"
  obtains g rt where "main_run C env chk' [Datagram (Inr f), Dispatch] m =
      Some (m\<lparr>endpoint := c, frames_out := frames_out m @ [g]\<rparr>)"
    "mctp_datagram g" "create_tag C (drop 4 g) = Some rt" "flow_matches t rt" "good (drop 4 g)"
proof -
  note parts = bus_owner_frame_parts [OF buf(1,2)]
  obtain x where x: "drop 4 f = buf @ [x]" using parts(2) by blast
  from h [of x] obtain b where b: "handle_request C (endpoint m) (drop 4 f) = (Ok b, c)" "good b"
    unfolding x by blast
  from handle_request_answer [OF b(1)] obtain q t' rt where
    q: "control_payload_try_from C b = Ok q" "create_tag C (drop 4 f) = Some t'" "create_tag C b = Some rt"
      "flow_matches t' rt" by blast
  have t: "t' = t" using q(2) buf(3) parts(3) by simp
  have len: "7 \<le> length b" using payload_code [OF q(1)] by simp
  obtain g where g: "bus_owner_frame C chk' b = Ok g"
    "main_run C env chk' [Datagram (Inr f), Dispatch] m = Some (m\<lparr>endpoint := c, frames_out := frames_out m @ [g]\<rparr>)"
    by (rule serve_run [OF calm parts(1) b(1) env])
  note gp = bus_owner_frame_parts [OF g(1) len]
  obtain y where y: "drop 4 g = b @ [y]" using gp(2) by blast
  show thesis
    by (rule that [OF g(2) gp(1)]) (use gp(3) q(3,4) t b(2) good y in auto)
qed

section \<open>The discovery\<close>

text \<open>One exchange of the program with its twin.\<close>

lemma exchange_run:
  assumes calm: "calm (machine w)" "calm v" and w: "phase w = Running (Ask q k)"
    and buf: "loop_request_bytes C q \<lparr>ctx = endpoint (machine w), sent = []\<rparr> = (Ok buf, s)" "7 \<le> length buf"
    and h: "\<And>x. \<exists>b. handle_request C (endpoint v) (buf @ [x]) = (Ok b, c) \<and> good b"
    and good: "\<And>b x. good b \<Longrightarrow> good (b @ [x])"
    and env: "\<And>log f. env log f = Inr (length f)" "\<And>log f. env' log f = Inr (length f)"
  obtains w' f g where
    "run_run C env D chk p [Advance, PutRequest, Dispatcher, ReadDatagram (Inr g), Dispatcher, TakeReply] w = Some w'"
    "main_run C env' chk' [Datagram (Inr f), Dispatch] v = Some (v\<lparr>endpoint := c, frames_out := frames_out v @ [g]\<rparr>)"
    "calm (machine w')" "frames_out (machine w') = frames_out (machine w) @ [f]"
    "phase w' = Running (k (Replied (Inr (drop 4 g))))" "good (drop 4 g)"
    "loop_requests (machine w') = loop_requests (machine w) @ [buf]"
proof -
  obtain f t where f: "bus_owner_frame C chk buf = Ok f" "create_tag C buf = Some t"
    "run_run C env D chk p [Advance, PutRequest, Dispatcher] w =
      Some \<lparr>machine = asked C buf t (machine w) f (ctx s), phase = Waiting k\<rparr>"
    by (rule ask_run [OF calm(1) w buf(1) env(1)])
  obtain g rt where g: "main_run C env' chk' [Datagram (Inr f), Dispatch] v =
      Some (v\<lparr>endpoint := c, frames_out := frames_out v @ [g]\<rparr>)"
    "mctp_datagram g" "create_tag C (drop 4 g) = Some rt" "flow_matches t rt" "good (drop 4 g)"
    by (rule peer_serves [where good = good, OF f(1) buf(2) f(2) h good calm(2) env(2)])
  let ?w = "\<lparr>machine = answered buf (drop 4 g) (asked C buf t (machine w) f (ctx s)),
    phase = Running (k (Replied (Inr (drop 4 g))))\<rparr>"
  have "run_run C env D chk p ([Advance, PutRequest, Dispatcher] @ [ReadDatagram (Inr g), Dispatcher, TakeReply]) w = Some ?w"
    unfolding run_run_append f(3) using answer_run [OF calm(1) g(2-4)] by simp
  then show thesis
    by (intro that [of g ?w f]) (use g calm_answered [OF calm(1)] answered_requests [OF calm(1)] in simp_all)
qed

lemma run_run_background:
  assumes "main_run C env chk [Datagram r, Dispatch] (machine w) = Some m" "\<not> is_ended (phase w)"
  shows "run_run C env D chk p [ReadDatagram r, Dispatcher] w = Some (w\<lparr>machine := m\<rparr>)"
  using assms by (auto simp: run_exec_def run_background_def split: option.splits)

lemma notified:
  assumes d: "11 \<le> length d" "d ! 1 = 0x0f" "command_code_from_u8 C (d ! 10) = DiscoveryNotify"
    and env: "\<And>log f. env log f = Inr (length f)"
  obtains f m where "run_run C env D chk p [ReadDatagram (Inr d), Dispatcher, Swap] bus_run_init =
      Some \<lparr>machine = m, phase = Running (discover C D chk 0x80)\<rparr>"
    "calm m" "frames_out m = [f]" "loop_requests m = []"
proof -
  have "7 \<le> length (drop 4 d)" "drop 4 d ! 6 = d ! 10" using d(1) by simp_all
  with handle_request_branches [of main_context "drop 4 d"] d(3) obtain r where
    "handle_request C main_context (drop 4 d) = (Ok r, main_context\<lparr>perform_discovery := True\<rparr>)"
    by (auto simp: is_ok_iff)
  then have h: "handle_request C (endpoint bus_main_init) (drop 4 d) = (Ok r, main_context\<lparr>perform_discovery := True\<rparr>)"
    by (simp add: bus_main_init_def)
  have calm: "calm bus_main_init" by (simp add: calm_def bus_main_init_def)
  have dg: "mctp_datagram d" using d by (simp add: mctp_datagram_def)
  let ?m = "\<lambda>f. bus_main_init\<lparr>endpoint := main_context\<lparr>perform_discovery := True\<rparr>, frames_out := frames_out bus_main_init @ [f]\<rparr>"
  obtain f where f: "main_run C env chk [Datagram (Inr d), Dispatch] bus_main_init = Some (?m f)"
    by (rule serve_run [OF calm dg h env])
  have run: "run_run C env D chk p [ReadDatagram (Inr d), Dispatcher] bus_run_init = Some (bus_run_init\<lparr>machine := ?m f\<rparr>)"
    by (rule run_run_background) (use f in \<open>simp_all add: bus_run_init_def\<close>)
  have "run_run C env D chk p ([ReadDatagram (Inr d), Dispatcher] @ [Swap]) bus_run_init =
      Some \<lparr>machine = (?m f)\<lparr>endpoint := main_context\<lparr>perform_discovery := False\<rparr>\<rparr>, phase = Running (discover C D chk 0x80)\<rparr>"
    unfolding run_run_append run
    by (simp add: run_exec_def loop_swap_def main_poll_def bus_run_init_def bus_main_init_def main_context_def)
  then show thesis
    by (intro that [of "(?m f)\<lparr>endpoint := main_context\<lparr>perform_discovery := False\<rparr>\<rparr>" f])
      (simp_all add: calm_def bus_main_init_def loop_requests_def)
qed

lemma discovery_run:
  assumes d: "11 \<le> length d" "d ! 1 = 0x0f" "command_code_from_u8 C (d ! 10) = DiscoveryNotify"
    and env: "\<And>log f. env log f = Inr (length f)" "\<And>log f. env' log f = Inr (length f)"
  shows "\<exists>w v f0 f1 f2 g1 g2.
    run_run C env D chk p
      [ReadDatagram (Inr d), Dispatcher, Swap,
       Advance, PutRequest, Dispatcher, ReadDatagram (Inr g1), Dispatcher, TakeReply,
       Advance, PutRequest, Dispatcher, ReadDatagram (Inr g2), Dispatcher, TakeReply, Advance] bus_run_init = Some w \<and>
    main_run C env' chk' [Datagram (Inr f1), Dispatch, Datagram (Inr f2), Dispatch] bus_main_init = Some v \<and>
    frames_out (machine w) = [f0, f1, f2] \<and> frames_out v = [g1, g2] \<and>
    assigned_eid (endpoint v) = 0x80 \<and> phase w = AtTop 0x81 \<and>
    ranges C (loop_requests (machine w)) = [(0x80, 0x81)]"
proof -
  obtain f0 m where w0: "run_run C env D chk p [ReadDatagram (Inr d), Dispatcher, Swap] bus_run_init =
      Some \<lparr>machine = m, phase = Running (discover C D chk 0x80)\<rparr>" "calm m" "frames_out m = [f0]" "loop_requests m = []"
    by (rule notified [OF d env(1)])
  have "unat (0x80 :: u8) < 255" by simp
  from discover_simple_endpoint [OF this, of C D chk] obtain k1 where
    k1: "discover C D chk 0x80 = Ask (LoopGetEid 0) k1"
      "\<And>b1. simple_answer C b1 \<Longrightarrow> \<exists>k2. k1 (Replied (Inr b1)) = Ask (LoopSetEid 0x80) k2 \<and>
        (\<forall>b2. accepted_answer C b2 \<longrightarrow> k2 (Replied (Inr b2)) = task_return (0x80 + 1))" by blast
  let ?w0 = "\<lparr>machine = m, phase = Running (discover C D chk 0x80)\<rparr>"
  have v0: "calm bus_main_init" by (simp add: calm_def bus_main_init_def)
  obtain buf1 s1 where b1: "loop_request_bytes C (LoopGetEid 0) \<lparr>ctx = endpoint (machine ?w0), sent = []\<rparr> = (Ok buf1, s1)"
    using loop_request_bytes_ok by blast
  have len1: "7 \<le> length buf1" using discovery_requests(1) [OF b1] by simp
  have h1: "\<exists>b. handle_request C (endpoint bus_main_init) (buf1 @ [x]) = (Ok b, main_context) \<and> simple_answer C b" for x
    using peer_answers(1) [OF b1, of main_context "[x]"] by (simp add: bus_main_init_def)
  have ph0: "phase ?w0 = Running (Ask (LoopGetEid 0) k1)" "calm (machine ?w0)" using k1(1) w0(2) by simp_all
  obtain w1 f1 g1 where w1:
    "run_run C env D chk p [Advance, PutRequest, Dispatcher, ReadDatagram (Inr g1), Dispatcher, TakeReply] ?w0 = Some w1"
    "main_run C env' chk' [Datagram (Inr f1), Dispatch] bus_main_init =
      Some (bus_main_init\<lparr>endpoint := main_context, frames_out := frames_out bus_main_init @ [g1]\<rparr>)"
    "calm (machine w1)" "frames_out (machine w1) = frames_out (machine ?w0) @ [f1]"
    "phase w1 = Running (k1 (Replied (Inr (drop 4 g1))))" "simple_answer C (drop 4 g1)"
    "loop_requests (machine w1) = loop_requests (machine ?w0) @ [buf1]"
    by (rule exchange_run [where good = "simple_answer C", OF ph0(2) v0 ph0(1) b1 len1 h1 padded_answers(1) env])
  obtain k2 where k2: "k1 (Replied (Inr (drop 4 g1))) = Ask (LoopSetEid 0x80) k2"
    "\<And>b2. accepted_answer C b2 \<Longrightarrow> k2 (Replied (Inr b2)) = task_return (0x80 + 1)" using k1(2) [OF w1(6)] by blast
  let ?v1 = "bus_main_init\<lparr>endpoint := main_context, frames_out := frames_out bus_main_init @ [g1]\<rparr>"
  have v1: "calm ?v1" by (simp add: calm_def bus_main_init_def)
  obtain buf2 s2 where b2: "loop_request_bytes C (LoopSetEid 0x80) \<lparr>ctx = endpoint (machine w1), sent = []\<rparr> = (Ok buf2, s2)"
    using loop_request_bytes_ok by blast
  have len2: "7 \<le> length buf2" using discovery_requests(2) [OF b2, of "[]"] by linarith
  have h2: "\<exists>b. handle_request C (endpoint ?v1) (buf2 @ [x]) = (Ok b, main_context\<lparr>assigned_eid := 0x80\<rparr>) \<and> accepted_answer C b" for x
    using peer_answers(2) [OF b2, of main_context "[x]"] by simp
  obtain w2 f2 g2 where w2:
    "run_run C env D chk p [Advance, PutRequest, Dispatcher, ReadDatagram (Inr g2), Dispatcher, TakeReply] w1 = Some w2"
    "main_run C env' chk' [Datagram (Inr f2), Dispatch] ?v1 =
      Some (?v1\<lparr>endpoint := main_context\<lparr>assigned_eid := 0x80\<rparr>, frames_out := frames_out ?v1 @ [g2]\<rparr>)"
    "frames_out (machine w2) = frames_out (machine w1) @ [f2]"
    "phase w2 = Running (k2 (Replied (Inr (drop 4 g2))))" "accepted_answer C (drop 4 g2)"
    "loop_requests (machine w2) = loop_requests (machine w1) @ [buf2]"
    by (rule exchange_run [where good = "accepted_answer C",
        OF w1(3) v1 w1(5) [unfolded k2(1)] b2 len2 h2 padded_answers(2) env])
  let ?w3 = "w2\<lparr>phase := AtTop 0x81\<rparr>"
  have "run_run C env D chk p [Advance] w2 = Some ?w3"
    using w2(4) k2(2) [OF w2(5)] by (simp add: run_exec_def loop_advance_def)
  then have run: "run_run C env D chk p ([ReadDatagram (Inr d), Dispatcher, Swap] @
      ([Advance, PutRequest, Dispatcher, ReadDatagram (Inr g1), Dispatcher, TakeReply] @
       ([Advance, PutRequest, Dispatcher, ReadDatagram (Inr g2), Dispatcher, TakeReply] @ [Advance]))) bus_run_init = Some ?w3"
    using w0(1) w1(1) w2(1) unfolding run_run_append by (simp del: run_run.simps)
  have peer: "main_run C env' chk' ([Datagram (Inr f1), Dispatch] @ [Datagram (Inr f2), Dispatch]) bus_main_init =
      Some (?v1\<lparr>endpoint := main_context\<lparr>assigned_eid := 0x80\<rparr>, frames_out := frames_out ?v1 @ [g2]\<rparr>)"
    using w1(2) w2(2) unfolding main_run_append by (simp del: main_run.simps)
  let ?v2 = "?v1\<lparr>endpoint := main_context\<lparr>assigned_eid := 0x80\<rparr>, frames_out := frames_out ?v1 @ [g2]\<rparr>"
  have "frames_out ?v2 = [g1, g2]" "assigned_eid (endpoint ?v2) = 0x80" by (simp_all add: bus_main_init_def)
  moreover have "frames_out (machine ?w3) = [f0, f1, f2]" "phase ?w3 = AtTop 0x81"
    using w0(3) w1(4) w2(3) by simp_all
  moreover have "ranges C (loop_requests (machine ?w3)) = [(0x80, 0x81)]"
    using w0(4) w1(7) w2(6) ranges_append [of C "[buf1]" "[buf2]"] loop_request_ranges [OF b1] loop_request_ranges [OF b2]
    by simp
  ultimately show ?thesis
    using run [unfolded append.simps] peer [unfolded append.simps] by blast
qed

text \<open>
  The second instance is the same program: before the first datagram reaches it, its loop finds
  no notification and goes to sleep.
\<close>

lemma twin_run:
  assumes "main_run C env chk [Datagram (Inr d1), Dispatch, Datagram (Inr d2), Dispatch] bus_main_init = Some m"
  shows "run_run C env D chk p [Swap, ReadDatagram (Inr d1), Dispatcher, ReadDatagram (Inr d2), Dispatcher] bus_run_init =
    Some \<lparr>machine = m, phase = Asleep 0x80\<rparr>"
proof -
  have "main_run C env chk ([Datagram (Inr d1), Dispatch] @ [Datagram (Inr d2), Dispatch]) bus_main_init = Some m"
    using assms by simp
  then obtain v where v: "main_run C env chk [Datagram (Inr d1), Dispatch] bus_main_init = Some v"
    "main_run C env chk [Datagram (Inr d2), Dispatch] v = Some m"
    unfolding main_run_append by (auto simp del: main_run.simps split: option.splits)
  have swap: "run_run C env D chk p [Swap] bus_run_init = Some \<lparr>machine = bus_main_init, phase = Asleep 0x80\<rparr>"
    by (simp add: run_exec_def loop_swap_def main_poll_def bus_run_init_def bus_main_init_def main_context_def)
  have r1: "run_run C env D chk p [ReadDatagram (Inr d1), Dispatcher] \<lparr>machine = bus_main_init, phase = Asleep 0x80\<rparr> =
      Some \<lparr>machine = v, phase = Asleep 0x80\<rparr>"
    using run_run_background [of env chk "Inr d1" "\<lparr>machine = bus_main_init, phase = Asleep 0x80\<rparr>" v D p] v(1)
    by (simp del: main_run.simps run_run.simps)
  have r2: "run_run C env D chk p [ReadDatagram (Inr d2), Dispatcher] \<lparr>machine = v, phase = Asleep 0x80\<rparr> =
      Some \<lparr>machine = m, phase = Asleep 0x80\<rparr>"
    using run_run_background [of env chk "Inr d2" "\<lparr>machine = v, phase = Asleep 0x80\<rparr>" m D p] v(2)
    by (simp del: main_run.simps run_run.simps)
  have "run_run C env D chk p ([Swap] @ [ReadDatagram (Inr d1), Dispatcher] @ [ReadDatagram (Inr d2), Dispatcher]) bus_run_init =
      Some \<lparr>machine = m, phase = Asleep 0x80\<rparr>"
    unfolding run_run_append swap using r1 r2 by (simp del: run_run.simps)
  then show ?thesis by (simp only: append.simps)
qed

end

section \<open>Properties\<close>


definition demo_notify :: bytes where
  "demo_notify = [0x20, 0x0f, 9, 0x61, 1, 0, 9, 0xc8, 0, 0x81, 0x0D]"

lemma demo_notify:
  "11 \<le> length demo_notify" "demo_notify ! 1 = 0x0f"
  "command_code_from_u8 std_crates (demo_notify ! 10) = DiscoveryNotify"
  using std.command_code_enum.from_to [of DiscoveryNotify] by (simp_all add: demo_notify_def)

lemma demo_socket_sends: "demo_socket log f = Inr (length f)"
  by (simp add: demo_socket_def)


text \<open>
  C6: in a build with overflow checks, take the ranges of endpoint
  identifiers in the requests the discovery loop has made, in order, in any run of the whole
  program. None starts below 0x80, the first identifier of the pool, a later one never starts
  before an earlier one ends, and none contains the broadcast identifier 255. The size of the
  pool, 32, is not a bound: see C18.
\<close>

theorem run_eids_disjoint:
  assumes "crates_spec C" "run_reachable C env D True ping w"
  shows "let rs = ranges C (loop_requests (machine w)) in
    (\<forall>i < length rs. 0x80 \<le> fst (rs ! i) \<and> fst (rs ! i) \<le> snd (rs ! i) \<and> snd (rs ! i) \<le> 255) \<and>
    (\<forall>i j. i < j \<and> j < length rs \<longrightarrow> snd (rs ! i) \<le> fst (rs ! j))"
proof -
  obtain lo where "lo \<le> 255" "increasing 0x80 (ranges C (loop_requests (machine w))) lo"
    using crates_spec.run_reachable_eids [OF assms] by (auto simp: eids_ok_def main_context_def)
  then have "increasing 0x80 (ranges C (loop_requests (machine w))) 255" using increasing_mono by blast
  then show ?thesis using increasing_nth increasing_disjoint unfolding Let_def by blast
qed

theorem run_eids_disjoint_witness:
  "\<exists>w. run_reachable std_crates demo_socket plain_texts True 0 w \<and>
     ranges std_crates (loop_requests (machine w)) = [(0x80, 0x81)] \<and>
     0x80 \<le> fst (ranges std_crates (loop_requests (machine w)) ! 0)"
proof -
  from std.discovery_run [where env = demo_socket and env' = demo_socket and D = plain_texts and chk = True and p = 0
      and chk' = True, OF demo_notify demo_socket_sends demo_socket_sends] obtain es w where
    w: "run_run std_crates demo_socket plain_texts True 0 es bus_run_init = Some w"
      "ranges std_crates (loop_requests (machine w)) = [(0x80, 0x81)]" by blast
  have reach: "run_reachable std_crates demo_socket plain_texts True 0 w"
    by (rule run_run_reachable [OF run_reachable.start w(1)])
  from run_eids_disjoint [OF std_crates_spec reach] w(2) reach show ?thesis by (auto simp: Let_def)
qed

text \<open>
  C14: in every reachable state of the program, \<open>main\<close> has returned, always
  with an error; or one of the tasks can step without anything new from the socket; or the loop
  waits for a reply, its request has left the command channel, and the live dispatcher holds it
  in its table.
\<close>

theorem run_never_stuck:
  assumes "crates_spec C" "run_reachable C env D chk ping w"
  shows "(\<exists>r. phase w = Ended r \<and> \<not> is_ok r) \<or>
    (\<exists>e \<in> {Dispatcher, Swap, Wake, Advance, PutRequest, TakeReply}. run_exec C env D chk ping e w \<noteq> None) \<or>
    (\<exists>ch buf t. loop_at (machine w) = LoopWaiting ch buf \<and> pending_cmd (machine w) = [(t, ch)] \<and>
       create_tag C buf = Some t \<and> dispatcher_up (machine w) \<and> commands (machine w) = [])"
proof (cases "is_ended (phase w)")
  case True
  then obtain r where "phase w = Ended r" by (cases "phase w") auto
  then show ?thesis using crates_spec.run_reachable_agrees [OF assms] by (simp add: agrees_def)
next
  case False
  then show ?thesis using crates_spec.run_enabled [OF assms] by blast
qed

theorem run_never_stuck_witness:
  "\<exists>w k. run_reachable std_crates demo_socket plain_texts True 0 w \<and> phase w = Waiting k \<and>
    ((\<exists>e \<in> {Dispatcher, Swap, Wake, Advance, PutRequest, TakeReply}.
        run_exec std_crates demo_socket plain_texts True 0 e w \<noteq> None) \<or>
     (\<exists>ch buf t. loop_at (machine w) = LoopWaiting ch buf \<and> pending_cmd (machine w) = [(t, ch)]))"
proof -
  obtain f0 :: bytes and m where w0: "run_run std_crates demo_socket plain_texts True 0 [ReadDatagram (Inr demo_notify), Dispatcher, Swap]
      bus_run_init = Some \<lparr>machine = m, phase = Running (discover std_crates plain_texts True 0x80)\<rparr>" "calm m"
    by (rule std.notified [OF demo_notify demo_socket_sends])
  have "unat (0x80 :: u8) < 255" by simp
  from discover_simple_endpoint [OF this, of std_crates plain_texts True] obtain k where
    k: "discover std_crates plain_texts True 0x80 = Ask (LoopGetEid 0) k" by blast
  let ?w = "\<lparr>machine = m, phase = Running (discover std_crates plain_texts True 0x80)\<rparr>"
  obtain buf and s :: bus_owner where b: "loop_request_bytes std_crates (LoopGetEid 0) \<lparr>ctx = endpoint (machine ?w), sent = []\<rparr> = (Ok buf, s)"
    using std.loop_request_bytes_ok by blast
  have ph: "phase ?w = Running (Ask (LoopGetEid 0) k)" "calm (machine ?w)" using k w0(2) by simp_all
  obtain f t where w1: "run_run std_crates demo_socket plain_texts True 0 [Advance, PutRequest, Dispatcher] ?w =
      Some \<lparr>machine = asked std_crates buf t (machine ?w) f (ctx s), phase = Waiting k\<rparr>"
    by (rule std.ask_run [OF ph(2,1) b demo_socket_sends])
  have reach: "run_reachable std_crates demo_socket plain_texts True 0
      \<lparr>machine = asked std_crates buf t (machine ?w) f (ctx s), phase = Waiting k\<rparr>"
    by (rule run_run_reachable [OF run_run_reachable [OF run_reachable.start w0(1)] w1])
  from run_never_stuck [OF std_crates_spec reach]
  have "(\<exists>e \<in> {Dispatcher, Swap, Wake, Advance, PutRequest, TakeReply}.
        run_exec std_crates demo_socket plain_texts True 0 e
          \<lparr>machine = asked std_crates buf t (machine ?w) f (ctx s), phase = Waiting k\<rparr> \<noteq> None) \<or>
     (\<exists>ch buf' t'. loop_at (asked std_crates buf t (machine ?w) f (ctx s)) = LoopWaiting ch buf' \<and>
        pending_cmd (asked std_crates buf t (machine ?w) f (ctx s)) = [(t', ch)])"
    by (elim disjE) auto
  with reach show ?thesis by (intro exI conjI) (rule reach, simp, simp)
qed

end
