(* ===== verification/Medium.thy ===== *)
theory Medium
  imports Client BusPeer
begin

text \<open>
  The two example programs and the datagrams between them, interleaved in every way: the medium
  may lose, repeat, reorder and delay what was sent, but it invents nothing. Whatever it does,
  the client only ever returns what the bus owner answered to a request of the client.
\<close>

section \<open>The system\<close>

record system =
  client_side :: "smbus_net_dev_binding sn_world"
  owner_side :: bus_run

datatype system_event = ClientDoes sn_event | OwnerDoes run_event

text \<open>The datagrams each side has handed to its socket.\<close>

definition client_wire :: "system \<Rightarrow> bytes list" where
  "client_wire S = smbus_wire (binding_of (client_side S) (phys_bindings (net (client_side S))))"

definition owner_wire :: "system \<Rightarrow> bytes list" where
  "owner_wire S = frames_out (machine (owner_side S))"

text \<open>A side receives only what the other has sent, any number of times and in any order.\<close>

fun carried :: "system \<Rightarrow> system_event \<Rightarrow> bool" where
  "carried S (ClientDoes (Deliver i d)) = (d \<in> set (owner_wire S))"
| "carried S (OwnerDoes (ReadDatagram (Inr d))) = (d \<in> set (client_wire S))"
| "carried S e = True"

definition system_exec ::
  "crates \<Rightarrow> send_env \<Rightarrow> bool \<Rightarrow> send_env \<Rightarrow> loop_texts \<Rightarrow> bool \<Rightarrow> u8 \<Rightarrow> system_event \<Rightarrow> system \<Rightarrow> system option" where
  "system_exec C env chk env' D chk' ping e S =
     (if \<not> carried S e then None
      else
        (case e of
           ClientDoes e \<Rightarrow>
             (case sn_exec C (smbus_ops C env) chk e (client_side S) of
                None \<Rightarrow> None
              | Some w \<Rightarrow> Some (S\<lparr>client_side := w\<rparr>))
         | OwnerDoes e \<Rightarrow>
             (case run_exec C env' D chk' ping e (owner_side S) of
                None \<Rightarrow> None
              | Some w \<Rightarrow> Some (S\<lparr>owner_side := w\<rparr>))))"

fun system_run ::
  "crates \<Rightarrow> send_env \<Rightarrow> bool \<Rightarrow> send_env \<Rightarrow> loop_texts \<Rightarrow> bool \<Rightarrow> u8 \<Rightarrow> system_event list \<Rightarrow> system \<Rightarrow> system option" where
  "system_run C env chk env' D chk' ping [] S = Some S"
| "system_run C env chk env' D chk' ping (e # es) S =
     (case system_exec C env chk env' D chk' ping e S of
        None \<Rightarrow> None
      | Some S' \<Rightarrow> system_run C env chk env' D chk' ping es S')"

inductive system_reachable ::
  "crates \<Rightarrow> send_env \<Rightarrow> bool \<Rightarrow> send_env \<Rightarrow> loop_texts \<Rightarrow> bool \<Rightarrow> u8 \<Rightarrow> system \<Rightarrow> bool"
  for C env chk env' D chk' ping where
  start: "system_reachable C env chk env' D chk' ping \<lparr>client_side = sn_init bs b, owner_side = bus_run_init\<rparr>"
| step: "system_reachable C env chk env' D chk' ping S \<Longrightarrow> system_exec C env chk env' D chk' ping e S = Some S' \<Longrightarrow>
    system_reachable C env chk env' D chk' ping S'"

text \<open>An event is a step of one side, the other standing still.\<close>

lemma system_exec_cases:
  assumes "system_exec C env chk env' D chk' ping e S = Some S'"
  obtains (client) e' w where "e = ClientDoes e'" "carried S (ClientDoes e')"
      "sn_exec C (smbus_ops C env) chk e' (client_side S) = Some w" "S' = S\<lparr>client_side := w\<rparr>"
  | (owner) e' w where "e = OwnerDoes e'" "carried S (OwnerDoes e')"
      "run_exec C env' D chk' ping e' (owner_side S) = Some w" "S' = S\<lparr>owner_side := w\<rparr>"
  using assms by (cases e) (auto simp: system_exec_def split: if_splits option.splits)

lemma system_run_append:
  "system_run C env chk env' D chk' ping (es @ fs) S =
     (case system_run C env chk env' D chk' ping es S of
        None \<Rightarrow> None | Some S' \<Rightarrow> system_run C env chk env' D chk' ping fs S')"
  by (induction es arbitrary: S) (auto split: option.splits)

lemma system_run_reachable:
  "system_reachable C env chk env' D chk' ping S \<Longrightarrow> system_run C env chk env' D chk' ping es S = Some S' \<Longrightarrow>
    system_reachable C env chk env' D chk' ping S'"
proof (induction es arbitrary: S)
  case (Cons e es)
  then obtain T where "system_exec C env chk env' D chk' ping e S = Some T"
    "system_run C env chk env' D chk' ping es T = Some S'"
    by (auto split: option.splits)
  with Cons show ?case using system_reachable.step by blast
qed simp

text \<open>Each side by itself is in a reachable state.\<close>

lemma system_sides:
  "system_reachable C env chk env' D chk' ping S \<Longrightarrow>
    sn_reachable C (smbus_ops C env) chk (client_side S) \<and> run_reachable C env' D chk' ping (owner_side S)"
proof (induction rule: system_reachable.induct)
  case (start bs b)
  show ?case by (simp add: sn_reachable.start run_reachable.start)
next
  case (step S e S')
  from step.hyps(2) show ?case
    by (cases rule: system_exec_cases) (use step.IH in \<open>auto intro: sn_reachable.step run_reachable.step\<close>)
qed

section \<open>What the bus owner sends\<close>

text \<open>A packet whose sender owns the message tag: a request.\<close>

definition asks :: "crates \<Rightarrow> bytes \<Rightarrow> bool" where
  "asks C buf \<longleftrightarrow> 4 \<le> length buf \<and> (\<exists>t. create_tag C buf = Some t \<and> flow_tag_owner t)"

text \<open>The frame \<open>f\<close> is the answer of the endpoint, in some state, to the datagram \<open>d\<close>.\<close>

definition answers_datagram :: "crates \<Rightarrow> bool \<Rightarrow> bytes \<Rightarrow> bytes \<Rightarrow> bool" where
  "answers_datagram C chk d f \<longleftrightarrow>
     (\<exists>c c' r. handle_request C c (drop 4 d) = (Ok r, c') \<and> bus_owner_frame C chk r = Ok f)"

definition owner_inv :: "crates \<Rightarrow> bool \<Rightarrow> bytes set \<Rightarrow> bus_main \<Rightarrow> bool" where
  "owner_inv C chk ds m \<longleftrightarrow>
     (\<forall>d. ReceiveMsg d \<in> set (commands m) \<longrightarrow> d \<in> ds) \<and>
     (\<forall>mt buf r. SendMsg mt buf r \<in> set (commands m) \<longrightarrow> asks C buf) \<and>
     (\<forall>buf. loop_buf (loop_at m) = Some buf \<longrightarrow> asks C buf) \<and>
     (\<forall>f \<in> set (frames_out m).
        (\<exists>d \<in> ds. answers_datagram C chk d f) \<or> (\<exists>buf. asks C buf \<and> bus_owner_frame C chk buf = Ok f))"

lemma owner_inv_mono: "owner_inv C chk ds m \<Longrightarrow> ds \<subseteq> ds' \<Longrightarrow> owner_inv C chk ds' m"
  by (fastforce simp: owner_inv_def)

context crates_spec
begin

lemma asks_ser: "tag_owner C h \<noteq> 0 \<Longrightarrow> wf_transport_header h \<Longrightarrow> asks C (transport_header_ser C h @ p)"
  using th.enc_length [of h] by (simp add: asks_def create_tag_ser header_tag_def transport_header_size_def)

lemma loop_request_asks: "loop_request_bytes C q s = (Ok buf, s') \<Longrightarrow> asks C buf"
  by (cases q)
    (auto simp: loop_request_bytes_def act_bind_def act_lift_def new_transport_hdr_def next_ctrl_hdr_def Let_def
      request_bytes_def control_payload_to_bytes_def control_payload_new_def header_simps unwrap_or_default_def
      intro!: asks_ser)

lemma dispatch_frames:
  assumes "main_dispatch C env chk m = Some m'"
  shows "set (commands m') \<subseteq> set (commands m) \<and> loop_at m' = loop_at m \<and>
    (frames_out m' = frames_out m \<or>
     (\<exists>f. frames_out m' = frames_out m @ [f] \<and>
        ((\<exists>d. ReceiveMsg d \<in> set (commands m) \<and> answers_datagram C chk d f) \<or>
         (\<exists>mt buf r. SendMsg mt buf r \<in> set (commands m) \<and> bus_owner_frame C chk buf = Ok f))))"
proof -
  from assms obtain cmd q where q: "commands m = cmd # q" and up: "dispatcher_up m"
    by (auto simp: main_dispatch_def split: if_splits list.splits)
  obtain r p c where r: "dispatch_command C chk cmd (pending_cmd m) (endpoint m) = (r, p, c)" by (metis surj_pair)
  have "(\<exists>d. cmd = ReceiveMsg d \<and> answers_datagram C chk d f) \<or>
      (\<exists>mt buf x. cmd = SendMsg mt buf x \<and> bus_owner_frame C chk buf = Ok f)" if "r = Ok (Framed f)" for f
  proof (cases cmd)
    case (ReceiveMsg d)
    then show ?thesis using r that receive_msg_framed [of chk d "pending_cmd m" "endpoint m" f p c]
      by (auto simp: dispatch_command_def answers_datagram_def)
  next
    case (SendMsg mt buf x)
    then show ?thesis using r that
      by (auto simp: dispatch_command_def send_cmd_def res_bind_eq_Ok Let_def split: option.splits prod.splits)
  qed
  then show ?thesis
    using assms q up r
    by (auto simp: main_dispatch_def Let_def lose_reply_def dispatcher_dies_def
        split: res.splits dispatch.splits option.splits sum.splits; blast)
qed

lemma owner_inv_main:
  assumes inv: "owner_inv C chk ds m" and ex: "main_exec C env chk e m = Some m'"
    and d: "\<And>d. e = Datagram (Inr d) \<Longrightarrow> d \<in> ds"
  shows "owner_inv C chk ds m'"
proof (cases e)
  case (Datagram r)
  then have "\<forall>d. r = Inr d \<longrightarrow> d \<in> ds" using d by simp
  with Datagram show ?thesis
    using ex inv by (cases r) (auto 4 4 simp: main_exec_def main_read_def owner_inv_def split: if_splits)
next
  case LoopPoll
  then show ?thesis
    using ex inv by (auto 4 4 simp: main_exec_def main_poll_def owner_inv_def split: loop_state.splits)
next
  case (LoopSend q)
  with ex have "main_request C q m = Some m'" by (simp add: main_exec_def)
  then obtain buf s where b: "loop_at m = LoopIdle" "loop_request_bytes C q \<lparr>ctx = endpoint m, sent = []\<rparr> = (Ok buf, s)"
    "m' = m\<lparr>endpoint := ctx s, next_reply := Suc (next_reply m), loop_at := LoopPutting (next_reply m) buf\<rparr>"
    by (rule main_request_cases)
  show ?thesis using inv loop_request_asks [OF b(2)] by (simp add: b(3) owner_inv_def)
next
  case LoopPut
  then have "main_put m = Some m'" using ex by (simp add: main_exec_def)
  then show ?thesis by (rule main_put_cases) (use inv in \<open>auto 4 4 simp: owner_inv_def\<close>)
next
  case LoopReceive
  then have "main_receive m = Some m'" using ex by (simp add: main_exec_def)
  then show ?thesis by (rule main_receive_cases) (use inv in \<open>auto 4 4 simp: owner_inv_def\<close>)
next
  case Dispatch
  then have "main_dispatch C env chk m = Some m'" using ex by (simp add: main_exec_def)
  from dispatch_frames [OF this] inv show ?thesis by (fastforce simp: owner_inv_def)
qed

text \<open>A step of the program reads a datagram only in the event that says so.\<close>

lemma run_step_read:
  assumes "run_exec C env D chk p e w = Some w'"
  shows "machine w' = machine w \<or>
    (\<exists>e'. main_exec C env chk e' (machine w) = Some (machine w') \<and> (\<forall>r. e' = Datagram r \<longrightarrow> e = ReadDatagram r))"
proof (cases e)
  case (ReadDatagram r)
  then show ?thesis
    using assms by (auto simp: run_exec_def run_background_def split: if_splits option.splits intro!: exI [of _ "Datagram r"])
next
  case Dispatcher
  then show ?thesis
    using assms by (auto simp: run_exec_def run_background_def split: if_splits option.splits intro!: exI [of _ Dispatch])
next
  case Swap
  then show ?thesis
    using assms by (auto simp: run_exec_def loop_swap_def main_exec_def split: if_splits option.splits loop_phase.splits
        intro!: exI [of _ LoopPoll])
next
  case Wake
  then show ?thesis using assms by (auto simp: run_exec_def loop_wake_def split: if_splits loop_phase.splits)
next
  case Advance
  then show ?thesis
    using assms
    by (auto simp: run_exec_def loop_advance_def main_exec_def
        split: if_splits loop_phase.splits loop_task.splits res.splits option.splits intro!: exI [of _ "LoopSend q" for q])
next
  case PutRequest
  then show ?thesis
    using assms by (auto simp: run_exec_def loop_put_def main_exec_def split: if_splits option.splits loop_phase.splits
        intro!: exI [of _ LoopPut])
next
  case TakeReply
  then show ?thesis
    using assms by (auto simp: run_exec_def loop_take_def main_exec_def split: if_splits option.splits loop_phase.splits
        intro!: exI [of _ LoopReceive])
qed

lemma owner_inv_run:
  assumes "owner_inv C chk ds (machine w)" "run_exec C env D chk p e w = Some w'"
    "\<And>d. e = ReadDatagram (Inr d) \<Longrightarrow> d \<in> ds"
  shows "owner_inv C chk ds (machine w')"
  using run_step_read [OF assms(2)] owner_inv_main [OF assms(1)] assms by auto

end

section \<open>What the client has received\<close>

fun packet_of :: "sendto_call \<Rightarrow> bytes option" where
  "packet_of (WaitLock h buf a ch) = Some buf"
| "packet_of (WaitResponse h buf ch) = Some buf"
| "packet_of (Returned b r) = b"
| "packet_of Cancelled = None"

text \<open>Everything the client got came out of a frame in \<open>fs\<close>, and everything it sends is a request.\<close>

definition client_inv :: "crates \<Rightarrow> bytes set \<Rightarrow> 'b sn_world \<Rightarrow> bool" where
  "client_inv C fs w \<longleftrightarrow>
     (\<forall>i d. BindingReceive i d \<in> set (rx_queue w) \<longrightarrow> d \<in> fs) \<and>
     (\<forall>ch a b. chans w ch = Sent (ClientReceive a b) \<longrightarrow> b \<in> drop 4 ` fs) \<and>
     (\<forall>p a b. Returned p (Ok (a, b)) \<in> set (calls w) \<longrightarrow> b \<in> drop 4 ` fs) \<and>
     (\<forall>c buf. c \<in> set (calls w) \<and> packet_of c = Some buf \<longrightarrow> asks C buf)"

lemma client_inv_mono: "client_inv C fs w \<Longrightarrow> fs \<subseteq> fs' \<Longrightarrow> client_inv C fs' w"
  unfolding client_inv_def by blast

text \<open>The invariant of the system.\<close>

definition system_inv :: "crates \<Rightarrow> bool \<Rightarrow> system \<Rightarrow> bool" where
  "system_inv C chk' S \<longleftrightarrow>
     client_inv C (set (owner_wire S)) (client_side S) \<and>
     owner_inv C chk' (set (client_wire S)) (machine (owner_side S))"

lemma rx_queue_step:
  assumes "sn_exec C ops chk e w = Some w'"
  shows "set (rx_queue w') \<subseteq> set (rx_queue w) \<union> {BindingReceive i d |i d. e = Deliver i d}"
  using assms
  by (cases e)
    (auto simp: sn_exec_def sn_transmit_def sn_receive_def sn_cancel_def sn_handle_def sn_handler_dies_def Let_def
      split: if_splits sendto_call.splits option.splits prod.splits list.splits res.splits)

lemma in_set_update: "c \<in> set (cs[k := x]) \<Longrightarrow> c = x \<or> c \<in> set cs"
  using set_update_subset_insert [of cs k x] by blast

context crates_spec
begin

lemma sendto_asks:
  assumes "sendto_prepare C n sd p a = Ok (h, buf, f, t)"
  shows "asks C buf"
  using assms
  by (auto simp: sendto_prepare_def res_bind_eq_Ok sn_get_binding_def Let_def header_simps unwrap_or_default_def
      split: socket_address.splits option.splits if_splits intro!: asks_ser)

lemma pushed_asks:
  assumes "sn_exec C ops chk e w = Some w'" "calls w' = calls w @ [WaitLock h buf a ch]"
  shows "asks C buf"
proof (cases e)
  case (Sendto sd p b)
  with assms show ?thesis
    using sendto_asks [of "net w" sd p b] by (auto simp: sn_exec_def sendto_start_def Let_def split: res.splits prod.splits)
qed (use assms in \<open>auto simp: sn_exec_def sn_transmit_def sn_receive_def sn_cancel_def sn_handle_def sn_handler_dies_def Let_def
    dest: arg_cong [of _ _ length] split: if_splits sendto_call.splits option.splits prod.splits list.splits res.splits\<close>)

lemma client_inv_step:
  assumes inv: "client_inv C fs w" and ex: "sn_exec C ops chk e w = Some w'"
    and d: "\<And>i d. e = Deliver i d \<Longrightarrow> d \<in> fs"
  shows "client_inv C fs w'"
proof -
  have q: "\<forall>i d. BindingReceive i d \<in> set (rx_queue w') \<longrightarrow> d \<in> fs"
    using inv rx_queue_step [OF ex] d by (fastforce simp: client_inv_def)
  have upd: "client_inv C fs w'"
    if "calls w' = (calls w)[k := c]" "k < length (calls w)"
      "\<forall>ch a b. chans w' ch = Sent (ClientReceive a b) \<longrightarrow> b \<in> drop 4 ` fs"
      "\<forall>p a b. c = Returned p (Ok (a, b)) \<longrightarrow> b \<in> drop 4 ` fs"
      "packet_of c = None \<or> packet_of c = packet_of (calls w ! k)" for k c
  proof -
    have "calls w ! k \<in> set (calls w)" using that(2) by simp
    then show ?thesis
      using inv q that(1,3,4,5) by (auto simp: client_inv_def dest!: in_set_update)
  qed
  have old: "\<forall>ch a b. chans w ch = Sent (ClientReceive a b) \<longrightarrow> b \<in> drop 4 ` fs"
    using inv by (simp add: client_inv_def)
  from ex show ?thesis
  proof (cases rule: sn_exec_cases)
    case (pushed h buf a t)
    then show ?thesis using inv q pushed_asks [OF ex pushed(4)] by (auto simp: client_inv_def)
  next
    case (sent k h buf a ch b')
    then show ?thesis using old by (intro upd [of k]) auto
  next
    case (unsent k h buf a ch b' r m)
    then show ?thesis using old by (intro upd [of k]) auto
  next
    case (received k h buf ch r)
    then show ?thesis using old by (intro upd [of k]) (auto simp: sendto_finish_Ok)
  next
    case (cancelled k buf ch)
    then show ?thesis using old by (intro upd [of k]) auto
  next
    case (answer i d q' rt t ch rest)
    then have "d \<in> fs" using inv by (auto simp: client_inv_def)
    with answer show ?thesis using inv q by (auto simp: client_inv_def)
  qed (use inv q in \<open>auto simp: client_inv_def sn_handler_dies_def\<close>)
qed

section \<open>The invariant of the system\<close>

text \<open>What a side has sent, it has sent for good.\<close>

lemma client_wire_grows:
  assumes "sn_exec C (smbus_ops C env) chk e w = Some w'"
  shows "\<exists>fs. smbus_wire (binding_of w' (phys_bindings (net w'))) = smbus_wire (binding_of w (phys_bindings (net w))) @ fs"
proof -
  have "phys_bindings (net w') = phys_bindings (net w)"
    using assms by (cases rule: sn_exec_cases) (simp_all add: sn_handler_dies_def)
  then show ?thesis using smbus_net.wire_grows [OF assms] by metis
qed

lemma owner_wire_grows:
  assumes "run_exec C env D chk p e w = Some w'"
  shows "\<exists>fs. frames_out (machine w') = frames_out (machine w) @ fs"
proof -
  have "\<exists>fs. frames_out m' = frames_out m @ fs" if "main_exec C env chk e m = Some m'" for e m m'
  proof (cases "e = Dispatch")
    case True
    with that have "main_dispatch C env chk m = Some m'" by (simp add: main_exec_def)
    from dispatch_frames [OF this] show ?thesis by auto
  next
    case False
    with that show ?thesis
      by (cases e) (auto simp: main_exec_def main_read_def main_poll_def main_put_def main_receive_def main_request_def
          split: sum.splits if_splits loop_state.splits reply_chan.splits res.splits prod.splits)
  qed
  with run_step_read [OF assms] show ?thesis by auto
qed

lemma system_inv_step:
  assumes inv: "system_inv C chk' S" and ex: "system_exec C env chk env' D chk' ping e S = Some S'"
  shows "system_inv C chk' S'"
  using ex
proof (cases rule: system_exec_cases)
  case (client e' w)
  have d: "d \<in> set (owner_wire S)" if "e' = Deliver i d" for i d
    using client(2) that by simp
  have "client_inv C (set (owner_wire S)) w"
    by (rule client_inv_step [OF _ client(3) d]) (use inv in \<open>simp_all add: system_inv_def\<close>)
  moreover have "set (client_wire S) \<subseteq> set (client_wire S')"
    using client_wire_grows [OF client(3)] by (auto simp: client_wire_def client(4))
  ultimately show ?thesis
    using inv owner_inv_mono by (auto simp: system_inv_def owner_wire_def client(4))
next
  case (owner e' w)
  have d: "d \<in> set (client_wire S)" if "e' = ReadDatagram (Inr d)" for d
    using owner(2) that by simp
  have "owner_inv C chk' (set (client_wire S)) (machine w)"
    by (rule owner_inv_run [OF _ owner(3) d]) (use inv in \<open>simp_all add: system_inv_def\<close>)
  moreover have "set (owner_wire S) \<subseteq> set (owner_wire S')"
    using owner_wire_grows [OF owner(3)] by (auto simp: owner_wire_def owner(4))
  ultimately show ?thesis
    using inv client_inv_mono by (auto simp: system_inv_def client_wire_def owner(4))
qed

lemma system_inv_start:
  "calls w = [] \<Longrightarrow> rx_queue w = [] \<Longrightarrow> (\<forall>ch. chans w ch = Open) \<Longrightarrow>
    system_inv C chk' \<lparr>client_side = w, owner_side = bus_run_init\<rparr>"
  by (simp add: system_inv_def client_inv_def owner_inv_def bus_run_init_def bus_main_init_def)

lemma system_reachable_inv: "system_reachable C env chk env' D chk' ping S \<Longrightarrow> system_inv C chk' S"
proof (induction rule: system_reachable.induct)
  case (start bs b)
  show ?case by (rule system_inv_start) (simp_all add: sn_init_def)
qed (rule system_inv_step)

text \<open>A response that answers a request of the client answers a datagram of the client.\<close>

lemma genuine_response:
  assumes inv: "system_inv C chk' S" "result_inv C (client_side S)"
    and k: "k < length (calls (client_side S))" "calls (client_side S) ! k = Returned p (Ok (a, b))"
  obtains buf d c r c' x t td where "p = Some buf" "d \<in> set (client_wire S)"
    "handle_request C c (drop 4 d) = (Ok r, c')" "b = r @ [x]"
    "create_tag C buf = Some t" "create_tag C (drop 4 d) = Some td"
    "flow_msg_tag td = flow_msg_tag t" "flow_dest_eid td = flow_dest_eid t"
proof -
  obtain buf where buf: "p = Some buf" "answers C buf (ClientReceive a b)"
    using inv(2) k unfolding result_inv_def by blast
  have mem: "Returned (Some buf) (Ok (a, b)) \<in> set (calls (client_side S))" using k buf(1) by (metis nth_mem)
  have "asks C buf"
    using inv(1) mem unfolding system_inv_def client_inv_def by (metis packet_of.simps(3))
  then obtain t where t: "create_tag C buf = Some t" "flow_tag_owner t" by (auto simp: asks_def)
  obtain rt where rt: "create_tag C b = Some rt" "flow_matches t rt"
    using buf(2) t(1) by (auto simp: answers_def split: option.splits)
  obtain f where f: "f \<in> set (owner_wire S)" "b = drop 4 f"
    using inv(1) mem unfolding system_inv_def client_inv_def by blast
  have "(\<exists>d \<in> set (client_wire S). answers_datagram C chk' d f) \<or> (\<exists>q. asks C q \<and> bus_owner_frame C chk' q = Ok f)"
    using inv(1) f(1) by (simp add: system_inv_def owner_inv_def owner_wire_def)
  then show thesis
  proof (elim disjE bexE exE conjE)
    fix q assume q: "asks C q" "bus_owner_frame C chk' q = Ok f"
    then obtain tq where "create_tag C q = Some tq" "flow_tag_owner tq" "4 \<le> length q" by (auto simp: asks_def)
    with bus_owner_frame_tag [OF q(2)] have "create_tag C b = Some tq" by (simp add: f(2))
    then show thesis using rt t(2) \<open>flow_tag_owner tq\<close> by (simp add: flow_matches_def)
  next
    fix d assume d: "d \<in> set (client_wire S)" "answers_datagram C chk' d f"
    then obtain c c' r where r: "handle_request C c (drop 4 d) = (Ok r, c')" "bus_owner_frame C chk' r = Ok f"
      by (auto simp: answers_datagram_def)
    obtain x where x: "drop 4 f = r @ [x]" using bus_owner_frame_drop [OF r(2)] by blast
    from handle_request_answer [OF r(1)] obtain q td rd where
      td: "control_payload_try_from C r = Ok q" "create_tag C (drop 4 d) = Some td" "create_tag C r = Some rd"
        "flow_matches td rd" by blast
    have "7 \<le> length r" using payload_code [OF td(1)] by simp
    with bus_owner_frame_tag [OF r(2) td(3)] have "rd = rt" using rt(1) f(2) by simp
    then show thesis
      using that [OF buf(1) d(1) r(1) _ t(1) td(2)] x f(2) rt(2) td(4) by (simp add: flow_matches_def)
  qed
qed

end

section \<open>The client program on any medium\<close>

text \<open>The events of the client after it has called \<open>sendto\<close>, the only call it makes.\<close>

fun program_event :: "system_event \<Rightarrow> bool" where
  "program_event (ClientDoes (Transmit k)) = True"
| "program_event (ClientDoes (Receive k)) = True"
| "program_event (ClientDoes (Deliver i d)) = True"
| "program_event (ClientDoes Handle) = True"
| "program_event (ClientDoes e) = False"
| "program_event (OwnerDoes e) = True"

fun client_event :: "system_event \<Rightarrow> sn_event option" where
  "client_event (ClientDoes e) = Some e"
| "client_event (OwnerDoes e) = None"

definition client_events :: "system_event list \<Rightarrow> sn_event list" where
  "client_events = List.map_filter client_event"

lemma client_run:
  "system_run C env chk env' D chk' ping es S = Some S' \<Longrightarrow>
    sn_run C (smbus_ops C env) chk (client_events es) (client_side S) = Some (client_side S')"
proof (induction es arbitrary: S)
  case (Cons e es)
  then obtain T where T: "system_exec C env chk env' D chk' ping e S = Some T"
    "system_run C env chk env' D chk' ping es T = Some S'"
    by (auto split: option.splits)
  from T(1) show ?case
    by (cases rule: system_exec_cases) (use Cons.IH [OF T(2)] in \<open>simp_all add: client_events_def\<close>)
qed (simp add: client_events_def)

definition program_inv :: "crates \<Rightarrow> smbus_net_dev_binding sn_world \<Rightarrow> bool" where
  "program_inv C w \<longleftrightarrow>
     phys_bindings (net w) = 0 \<and> address (binding_of w 0) = 0x10 \<and>
     (\<exists>s. socket (binding_of w 0) = Some s \<and> set (tx_log s) \<subseteq> {client_sent C}) \<and>
     (calls w = [WaitLock 0 (client_request C) 0x25 0] \<or> calls w = [WaitResponse 0 (client_request C) 0] \<or>
      (\<exists>x. calls w = [Returned (Some (client_request C)) (Ok x)]))"

text \<open>In every run: the client's state, and a dispatcher that stays up when the socket takes its frames.\<close>

definition program_ok :: "crates \<Rightarrow> send_env \<Rightarrow> bool \<Rightarrow> send_env \<Rightarrow> loop_texts \<Rightarrow> bool \<Rightarrow> u8 \<Rightarrow> system \<Rightarrow> bool" where
  "program_ok C env chk env' D chk' ping S \<longleftrightarrow>
     sn_reachable C (smbus_ops C env) chk (client_side S) \<and> run_reachable C env' D chk' ping (owner_side S) \<and>
     system_inv C chk' S \<and> program_inv C (client_side S) \<and> dispatcher_up (machine (owner_side S))"

context crates_spec
begin

lemma program_transmit:
  assumes "\<And>log f. env log f = Inr (length f)" "address b = 0x10" "socket b = Some s"
  shows "smbus_transmit C env b (client_request C) 0x25 =
    (Ok (), b\<lparr>socket := Some \<lparr>tx_log = tx_log s @ [client_sent C, client_sent C]\<rparr>\<rparr>)"
proof -
  have "validate_smbus_address 0x25 = Ok ()" by (simp add: validate_iff)
  then show ?thesis
    using assms by (simp add: smbus_transmit_def client_request_layout(2) try_send_def client_datagram_def Let_def)
qed

lemma program_inv_step:
  assumes inv: "program_inv C w" "fault_inv w" and ex: "sn_exec C (smbus_ops C env) chk e w = Some w'"
    and e: "program_event (ClientDoes e)" and env: "\<And>log f. env log f = Inr (length f)"
  shows "program_inv C w'"
proof (cases e)
  case (Transmit k)
  obtain s where b: "address (binding_of w 0) = 0x10" "socket (binding_of w 0) = Some s" "set (tx_log s) \<subseteq> {client_sent C}"
    using inv(1) by (auto simp: program_inv_def)
  from ex Transmit have k: "k < length (calls w)" "sn_transmit (smbus_ops C env) k w = Some w'"
    by (auto simp: sn_exec_def split: if_splits)
  from k(2) obtain c where "calls w ! k = c" "\<exists>h buf a ch. c = WaitLock h buf a ch"
    by (cases rule: sn_transmit_cases) auto
  with inv(1) k(1) have c: "calls w = [WaitLock 0 (client_request C) 0x25 0]" "k = 0"
    by (auto simp: program_inv_def)
  show ?thesis
    using k(2) program_transmit [OF env b(1,2)] inv(1) b
    by (auto simp: sn_transmit_def c smbus_ops_def program_inv_def split: if_splits)
next
  case (Receive k)
  with ex have k: "k < length (calls w)" "sn_receive C k w = Some w'" by (auto simp: sn_exec_def split: if_splits)
  from k(2) show ?thesis
  proof (cases rule: sn_receive_cases)
    case (1 h buf ch r)
    with inv(1) k(1) have c: "calls w = [WaitResponse 0 (client_request C) 0]" "k = 0" by (auto simp: program_inv_def)
    have "chans w ch \<noteq> SenderGone" using inv(2) by (simp add: fault_inv_def)
    with 1(2) obtain x where "r = Ok x"
      by (auto simp: sendto_finish_def split: chan_state.splits client_callback_msg.splits)
    with 1 c inv(1) show ?thesis by (auto simp: program_inv_def)
  qed
next
  case (Deliver i d)
  with ex inv(1) show ?thesis by (auto simp: sn_exec_def program_inv_def split: if_splits)
next
  case Handle
  with ex have "sn_handle C w = Some w'" by (simp add: sn_exec_def)
  then show ?thesis
    by (cases rule: sn_handle_cases) (use inv(1) in \<open>simp_all add: program_inv_def sn_handler_dies_def\<close>)
qed (use e in simp_all)

lemma program_inv_sendto:
  assumes "client_setup C env chk (Inr ()) (Inr ()) = Ok (sd, w0)"
    and "sn_exec C (smbus_ops C env) chk (Sendto sd (drop 4 (client_request C)) client_dest) w0 = Some w"
  shows "program_inv C w"
proof -
  let ?t = "header_tag C (transport_header_new C 0 0 0 (Some True) (Some True) (Some True))"
  have sd: "sd = 0" and w: "net w0 = (simple_network_new 0)\<lparr>callback_handles := [CallbackHandler, PollSocket 1],
        num_clients := 1, clients := [0 \<mapsto> client_new 0 0 0]\<rparr>" "next_chan w0 = 0" "calls w0 = []"
      "binding_of w0 0 = \<lparr>address = 0x10, network_id = 1, socket = Some \<lparr>tx_log = []\<rparr>\<rparr>"
    using assms(1) unfolding client_setup_ok by (auto simp: sn_init_def)
  have "sendto_start C (net w0) 0 (drop 4 (client_request C)) client_dest 0 =
      (Ok (0, client_request C, 0x25, ?t), (net w0)\<lparr>flows := [(?t, 0)]\<rparr>)"
    using sendto_start_ok [of "net w0" 0 "client_new 0 0 0" "client_request C" 0 "drop 4 (client_request C)" ?t]
      client_request_layout(1)
    by (simp add: w client_dest_def client_new_def simple_network_new_def)
  with assms(2) show ?thesis
    by (auto simp: sn_exec_def sd w program_inv_def simple_network_new_def)
qed

lemma client_setup_run:
  assumes "client_setup C env chk (Inr ()) (Inr ()) = Ok (sd, w0)"
  shows "sn_run C (smbus_ops C env) chk [AddBinding 0, Socket, Bind 0 0 0 0]
      (sn_init (\<lambda>_. \<lparr>address = 0x10, network_id = 0, socket = Some \<lparr>tx_log = []\<rparr>\<rparr>) 0) = Some w0"
  using assms unfolding client_setup_ok
  by (auto simp: sn_exec_def sn_init_def sn_add_physical_binding_def smbus_ops_def smbus_bind_def sn_socket_def sn_bind_def
      sub_i_def simple_network_new_def)

lemma program_wire: "program_inv C (client_side S) \<Longrightarrow> set (client_wire S) \<subseteq> {client_datagram C}"
proof
  fix f
  assume inv: "program_inv C (client_side S)" and f: "f \<in> set (client_wire S)"
  from inv obtain s where s: "phys_bindings (net (client_side S)) = 0" "socket (binding_of (client_side S) 0) = Some s"
    "set (tx_log s) \<subseteq> {client_sent C}"
    unfolding program_inv_def by blast
  from f s(1,2) obtain x where "x \<in> set (tx_log s)" "f \<in> set (socket_sent x)"
    by (auto simp: client_wire_def smbus_wire_def)
  with s(3) have "f \<in> set (socket_sent (client_sent C))" by blast
  then show "f \<in> {client_datagram C}" by simp
qed

lemma owner_stays_up:
  assumes ok: "program_ok C env chk env' D chk' ping S" and ex: "run_exec C env' D chk' ping e (owner_side S) = Some w"
    and env': "\<And>log f. env' log f = Inr (length f)"
  shows "dispatcher_up (machine w)"
proof -
  let ?m = "machine (owner_side S)"
  have up: "dispatcher_up ?m" and inv: "main_inv C ?m"
    using ok main_reachable_inv [OF run_reachable_main] by (auto simp: program_ok_def)
  have "dispatcher_up m'" if m': "main_exec C env' chk' e' ?m = Some m'" for e' m'
  proof (cases "e' = Dispatch")
    case True
    with m' have d: "main_dispatch C env' chk' ?m = Some m'" by (simp add: main_exec_def)
    show ?thesis
    proof (rule ccontr)
      assume "\<not> dispatcher_up m'"
      from dispatcher_death [OF inv up d this] obtain d q where d: "commands ?m = ReceiveMsg d # q"
        "command_code_from_u8 C (d ! 10) = Unknown"
        using env' by (auto simp: frame_refused_def split: list.splits prod.splits res.splits dispatch.splits)
      have "d \<in> set (client_wire S)" using ok d(1) by (auto simp: program_ok_def system_inv_def owner_inv_def)
      then have "d = client_datagram C" using ok program_wire by (auto simp: program_ok_def)
      then have "command_code_from_u8 C (drop 4 (client_datagram C) ! 6) = Unknown"
        using d(2) client_datagram_layout(1) by simp
      then show False
        using client_request_layout(2,3) by (simp add: client_datagram_layout(3) nth_append)
    qed
  next
    case False
    with m' up show ?thesis
      by (cases e') (auto simp: main_exec_def main_read_def main_poll_def main_put_def main_receive_def main_request_def
          split: sum.splits if_splits loop_state.splits reply_chan.splits res.splits prod.splits)
  qed
  with run_step_read [OF ex] up show ?thesis by auto
qed

lemma program_ok_step:
  assumes ok: "program_ok C env chk env' D chk' ping S" and e: "program_event e"
    and ex: "system_exec C env chk env' D chk' ping e S = Some S'"
    and env: "\<And>log f. env log f = Inr (length f)" "\<And>log f. env' log f = Inr (length f)"
  shows "program_ok C env chk env' D chk' ping S'"
proof -
  have inv: "system_inv C chk' S'" using system_inv_step [OF _ ex] ok by (simp add: program_ok_def)
  from ex show ?thesis
  proof (cases rule: system_exec_cases)
    case (client e' w)
    have "fault_inv (client_side S)" using ok reachable_inv by (auto simp: program_ok_def)
    then have "program_inv C w"
      using program_inv_step [OF _ _ client(3) _ env(1)] ok e client(1) by (simp add: program_ok_def)
    then show ?thesis
      using ok inv client(3) sn_reachable.step by (auto simp: program_ok_def client(4))
  next
    case (owner e' w)
    then show ?thesis
      using ok inv run_reachable.step owner_stays_up [OF ok owner(3) env(2)] by (auto simp: program_ok_def)
  qed
qed

lemma program_ok_run:
  assumes "program_ok C env chk env' D chk' ping S" "list_all program_event es"
    "system_run C env chk env' D chk' ping es S = Some S'"
    and env: "\<And>log f. env log f = Inr (length f)" "\<And>log f. env' log f = Inr (length f)"
  shows "program_ok C env chk env' D chk' ping S'"
  using assms(1-3)
proof (induction es arbitrary: S)
  case (Cons e es)
  then obtain T where "system_exec C env chk env' D chk' ping e S = Some T" "system_run C env chk env' D chk' ping es T = Some S'"
    by (auto split: option.splits)
  with Cons program_ok_step [OF Cons.prems(1) _ _ env] show ?case by auto
qed simp

lemma program_result:
  assumes ok: "program_ok C env chk env' D chk' ping S" and r: "calls (client_side S) ! 0 = Returned q (Ok (a, b))"
  shows "\<exists>p x. try_to_response C (get_eid_response_try_from C) b = Ok (p, x) \<and>
    response_is_success C (get_eid_resp_completion_code x) = Ok () \<and> get_eid_resp_eid x = 0"
proof -
  have inv: "system_inv C chk' S" "result_inv C (client_side S)" "0 < length (calls (client_side S))"
    using ok reachable_inv by (auto simp: program_ok_def program_inv_def)
  obtain d c r' c' y where d: "d \<in> set (client_wire S)" "handle_request C c (drop 4 d) = (Ok r', c')" "b = r' @ [y]"
    by (rule genuine_response [OF inv(1-3) r])
  have dd: "d = client_datagram C" using ok d(1) program_wire by (auto simp: program_ok_def)
  have req: "7 \<le> length (drop 4 d)" "command_code_from_u8 C (drop 4 d ! 6) = GetEndpointID"
    using client_request_layout(2,3) by (simp_all add: dd client_datagram_layout nth_append)
  from get_endpoint_id_answer [OF req d(2)] obtain p x where
    x: "try_to_response C (get_eid_response_try_from C) r' = Ok (p, x)"
      "response_is_success C (get_eid_resp_completion_code x) = Ok ()" "get_eid_resp_eid x = 0" by auto
  from padded_get_eid_response [OF x(1), of "[y]"] x(2,3) show ?thesis unfolding d(3) by blast
qed

lemma program_run_ok:
  assumes env: "\<And>log f. env log f = Inr (length f)" "\<And>log f. env' log f = Inr (length f)"
    and w0: "client_setup C env chk (Inr ()) (Inr ()) = Ok (sd, w0)"
    and run: "system_run C env chk env' D chk' ping (ClientDoes (Sendto sd (drop 4 (client_request C)) client_dest) # es)
      \<lparr>client_side = w0, owner_side = bus_run_init\<rparr> = Some S"
    and es: "list_all program_event es"
  shows "program_ok C env chk env' D chk' ping S"
proof -
  let ?e = "Sendto sd (drop 4 (client_request C)) client_dest"
  let ?S0 = "\<lparr>client_side = w0, owner_side = bus_run_init\<rparr>"
  from run obtain w where w: "sn_exec C (smbus_ops C env) chk ?e w0 = Some w"
    "system_run C env chk env' D chk' ping es (?S0\<lparr>client_side := w\<rparr>) = Some S"
    by (auto simp: system_exec_def split: option.splits)
  have reach: "sn_reachable C (smbus_ops C env) chk w0"
    by (rule sn_run_reachable [OF sn_reachable.start client_setup_run [OF w0]])
  have "system_inv C chk' ?S0"
    using w0 unfolding client_setup_ok by (intro system_inv_start) (auto simp: sn_init_def)
  moreover have "system_exec C env chk env' D chk' ping (ClientDoes ?e) ?S0 = Some (?S0\<lparr>client_side := w\<rparr>)"
    using w(1) by (simp add: system_exec_def)
  ultimately have inv: "system_inv C chk' (?S0\<lparr>client_side := w\<rparr>)" by (rule system_inv_step)
  have "program_ok C env chk env' D chk' ping (?S0\<lparr>client_side := w\<rparr>)"
    using sn_reachable.step [OF reach w(1)] program_inv_sendto [OF w0 w(1)] inv run_reachable.start
    by (simp add: program_ok_def) (simp add: bus_run_init_def bus_main_init_def)
  from program_ok_run [OF this es w(2) env] show ?thesis .
qed

lemma client_any_medium:
  assumes env: "\<And>log f. env log f = Inr (length f)" "\<And>log f. env' log f = Inr (length f)"
    and w0: "client_setup C env chk (Inr ()) (Inr ()) = Ok (sd, w0)"
    and run: "system_run C env chk env' D chk' ping (ClientDoes (Sendto sd (drop 4 (client_request C)) client_dest) # es)
      \<lparr>client_side = w0, owner_side = bus_run_init\<rparr> = Some S"
    and es: "list_all program_event es"
  shows "dispatcher_up (machine (owner_side S)) \<and>
    (case client_main C env chk (Inr ()) (Inr ()) (client_events es) of
       None \<Rightarrow> call_wait (calls (client_side S) ! 0) \<noteq> None
     | Some r \<Rightarrow> \<exists>result p x. r = Ok result \<and>
         try_to_response C (get_eid_response_try_from C) result = Ok (p, x) \<and>
         response_is_success C (get_eid_resp_completion_code x) = Ok () \<and> get_eid_resp_eid x = 0)"
proof -
  note ok = program_run_ok [OF assms]
  have "slice_from 4 (client_request C) = (Ok (drop 4 (client_request C)) :: (mctp_emu_error, bytes) res)"
    by (simp add: slice_from_def client_request_layout(2))
  then have main: "client_main C env chk (Inr ()) (Inr ()) (client_events es) =
      (case calls (client_side S) ! 0 of
         Returned _ (Ok (_, result)) \<Rightarrow> Some (Ok result)
       | Returned _ (Err e) \<Rightarrow> Some (Err e)
       | Returned _ (Panic m) \<Rightarrow> Some (Panic m)
       | _ \<Rightarrow> None)"
    using client_run [OF run] by (simp add: client_main_def w0 client_events_def)
  have "program_inv C (client_side S)" using ok by (simp add: program_ok_def)
  then consider "call_wait (calls (client_side S) ! 0) \<noteq> None"
    | a b where "calls (client_side S) ! 0 = Returned (Some (client_request C)) (Ok (a, b))"
    by (auto simp: program_inv_def)
  then show ?thesis
  proof cases
    case 1
    then show ?thesis using ok main by (cases "calls (client_side S) ! 0") (simp_all add: program_ok_def)
  next
    case (2 a b)
    then show ?thesis using ok main program_result [OF ok 2] by (simp add: program_ok_def)
  qed
qed

text \<open>Events of one side only.\<close>

lemma client_part:
  assumes "sn_run C (smbus_ops C env) chk es (client_side S) = Some w"
    and "\<And>i d. Deliver i d \<in> set es \<Longrightarrow> d \<in> set (owner_wire S)"
  shows "system_run C env chk env' D chk' ping (map ClientDoes es) S = Some (S\<lparr>client_side := w\<rparr>)"
  using assms
proof (induction es arbitrary: S)
  case (Cons e es)
  then obtain v where v: "sn_exec C (smbus_ops C env) chk e (client_side S) = Some v"
    "sn_run C (smbus_ops C env) chk es v = Some w"
    by (auto split: option.splits)
  have "carried S (ClientDoes e)" using Cons.prems(2) by (cases e) auto
  moreover have "system_run C env chk env' D chk' ping (map ClientDoes es) (S\<lparr>client_side := v\<rparr>) =
      Some (S\<lparr>client_side := v, client_side := w\<rparr>)"
    by (rule Cons.IH) (use v(2) Cons.prems(2) in \<open>auto simp: owner_wire_def\<close>)
  ultimately show ?case using v(1) by (simp add: system_exec_def)
qed simp

lemma owner_part:
  assumes "run_run C env' D chk' ping es (owner_side S) = Some w"
    and "\<And>d. ReadDatagram (Inr d) \<in> set es \<Longrightarrow> d \<in> set (client_wire S)"
  shows "system_run C env chk env' D chk' ping (map OwnerDoes es) S = Some (S\<lparr>owner_side := w\<rparr>)"
  using assms
proof (induction es arbitrary: S)
  case (Cons e es)
  then obtain v where v: "run_exec C env' D chk' ping e (owner_side S) = Some v" "run_run C env' D chk' ping es v = Some w"
    by (auto split: option.splits)
  have "carried S (OwnerDoes e)"
  proof (cases e)
    case (ReadDatagram r)
    then show ?thesis using Cons.prems(2) by (cases r) auto
  qed simp_all
  moreover have "system_run C env chk env' D chk' ping (map OwnerDoes es) (S\<lparr>owner_side := v\<rparr>) =
      Some (S\<lparr>owner_side := v, owner_side := w\<rparr>)"
    by (rule Cons.IH) (use v(2) Cons.prems(2) in \<open>auto simp: client_wire_def\<close>)
  ultimately show ?case using v(1) by (simp add: system_exec_def)
qed simp

lemma client_setup_reachable:
  assumes "client_setup C env chk (Inr ()) (Inr ()) = Ok (sd, w0)"
  shows "system_reachable C env chk env' D chk' ping \<lparr>client_side = w0, owner_side = bus_run_init\<rparr>"
proof -
  let ?w = "sn_init (\<lambda>_. \<lparr>address = 0x10, network_id = 0, socket = Some \<lparr>tx_log = []\<rparr>\<rparr>) 0"
  from client_part [of env chk "[AddBinding 0, Socket, Bind 0 0 0 0]" "\<lparr>client_side = ?w, owner_side = bus_run_init\<rparr>" w0]
    client_setup_run [OF assms]
  have "system_run C env chk env' D chk' ping (map ClientDoes [AddBinding 0, Socket, Bind 0 0 0 0])
      \<lparr>client_side = ?w, owner_side = bus_run_init\<rparr> = Some \<lparr>client_side = w0, owner_side = bus_run_init\<rparr>" by simp
  then show ?thesis by (rule system_run_reachable [OF system_reachable.start])
qed

text \<open>The medium loses a copy of the request and doubles the response: the client returns.\<close>

lemma medium_exchange:
  assumes env: "\<And>log f. env log f = Inr (length f)" "\<And>log f. env' log f = Inr (length f)"
    and w0: "client_setup C env chk (Inr ()) (Inr ()) = Ok (0, w0)"
  shows "\<exists>f S. system_run C env chk env' D chk' ping
      (map ClientDoes [Sendto 0 (drop 4 (client_request C)) client_dest, Transmit 0] @
       map OwnerDoes [ReadDatagram (Inr (client_datagram C)), Dispatcher] @
       map ClientDoes [Deliver 1 f, Deliver 1 f, Handle, Handle, Receive 0])
      \<lparr>client_side = w0, owner_side = bus_run_init\<rparr> = Some S \<and>
    client_main C env chk (Inr ()) (Inr ()) [Transmit 0, Deliver 1 f, Deliver 1 f, Handle, Handle, Receive 0] = Some (Ok (drop 4 f)) \<and>
    (\<exists>b a. calls (client_side S) ! 0 = Returned b (Ok (a, drop 4 f)))"
proof -
  let ?d = "client_datagram C" and ?h = "transport_header_new C 0 0 0 (Some True) (Some True) (Some True)"
  let ?es = "[Sendto 0 (drop 4 (client_request C)) client_dest, Transmit 0]"
  obtain w1 where w1: "sn_run C (smbus_ops C env) chk ?es w0 = Some w1" "calls w1 = [WaitResponse 0 (client_request C) 0]"
    "smbus_wire (binding_of w1 (phys_bindings (net w1))) = [?d, ?d]"
    using client_sends [OF env(1) w0] w0 unfolding client_setup_ok by (auto simp: simple_network_new_def smbus_wire_def)
  have dg: "mctp_datagram ?d" using client_datagram_layout(1,2) by (simp add: mctp_datagram_def)
  have req: "7 \<le> length (drop 4 ?d)" "command_code_from_u8 C (drop 4 ?d ! 6) = GetEndpointID"
    using client_request_layout(2,3) by (simp_all add: client_datagram_layout nth_append)
  obtain r where r: "handle_request C (endpoint bus_main_init) (drop 4 ?d) = (Ok r, main_context)"
    using get_endpoint_id_answer [OF req, of main_context]
    by (cases "handle_request C main_context (drop 4 ?d)") (auto simp: bus_main_init_def)
  have calm: "calm bus_main_init" by (simp add: calm_def bus_main_init_def)
  obtain f where f: "bus_owner_frame C chk' r = Ok f" "main_run C env' chk' [Datagram (Inr ?d), Dispatch] bus_main_init =
      Some (bus_main_init\<lparr>endpoint := main_context, frames_out := frames_out bus_main_init @ [f]\<rparr>)"
    by (rule serve_run [OF calm dg r env(2)])
  let ?o = "bus_run_init\<lparr>machine := bus_main_init\<lparr>endpoint := main_context, frames_out := frames_out bus_main_init @ [f]\<rparr>\<rparr>"
  have o: "run_run C env' D chk' ping [ReadDatagram (Inr ?d), Dispatcher] bus_run_init = Some ?o"
    by (rule run_run_background) (use f(2) in \<open>simp_all add: bus_run_init_def\<close>)
  from handle_request_answer [OF r] obtain q t rt where q: "control_payload_try_from C r = Ok q"
    "create_tag C (drop 4 ?d) = Some t" "create_tag C r = Some rt" "flow_matches t rt" by blast
  have len: "7 \<le> length r" using payload_code [OF q(1)] by simp
  have t: "t = header_tag C ?h"
    using q(2) create_tag_ser [OF new_wf] client_request_layout(1)
    by (metis append.assoc client_datagram_layout(3) option.inject)
  obtain y where y: "drop 4 f = r @ [y]" using bus_owner_frame_drop [OF f(1)] by blast
  have f4: "4 \<le> length f" "create_tag C (drop 4 f) = Some rt"
    using arg_cong [OF y, of length] bus_owner_frame_tag [OF f(1) q(3)] len by simp_all
  let ?fs = "[Deliver 1 f, Deliver 1 f, Handle, Handle, Receive 0]"
  have main: "client_main C env chk (Inr ()) (Inr ()) (Transmit 0 # ?fs) = Some (Ok (drop 4 f))"
    using client_receives [OF env(1) f4] q(4) by (simp add: t)
  have "slice_from 4 (client_request C) = (Ok (drop 4 (client_request C)) :: (mctp_emu_error, bytes) res)"
    by (simp add: slice_from_def client_request_layout(2))
  with main obtain w2 where w2: "sn_run C (smbus_ops C env) chk ?fs w1 = Some w2"
    "\<exists>b a. calls w2 ! 0 = Returned b (Ok (a, drop 4 f))"
    using sn_run_append [of C "smbus_ops C env" chk ?es ?fs w0] w1(1)
    by (auto simp: client_main_def w0 simp del: sn_run.simps split: option.splits sendto_call.splits res.splits prod.splits)
  let ?S1 = "\<lparr>client_side = w1, owner_side = bus_run_init\<rparr>" and ?S2 = "\<lparr>client_side = w1, owner_side = ?o\<rparr>"
  have "system_run C env chk env' D chk' ping (map ClientDoes ?es) \<lparr>client_side = w0, owner_side = bus_run_init\<rparr> = Some ?S1"
    using client_part [of env chk ?es "\<lparr>client_side = w0, owner_side = bus_run_init\<rparr>" w1 env' D chk' ping] w1(1) by simp
  moreover have "system_run C env chk env' D chk' ping (map OwnerDoes [ReadDatagram (Inr ?d), Dispatcher]) ?S1 = Some ?S2"
    using owner_part [of env' D chk' ping "[ReadDatagram (Inr ?d), Dispatcher]" ?S1 ?o env chk] o w1(3) by (simp add: client_wire_def)
  moreover have "system_run C env chk env' D chk' ping (map ClientDoes ?fs) ?S2 = Some (?S2\<lparr>client_side := w2\<rparr>)"
    by (rule client_part) (use w2(1) in \<open>auto simp: owner_wire_def\<close>)
  ultimately have "system_run C env chk env' D chk' ping
      (map ClientDoes ?es @ map OwnerDoes [ReadDatagram (Inr ?d), Dispatcher] @ map ClientDoes ?fs)
      \<lparr>client_side = w0, owner_side = bus_run_init\<rparr> = Some (?S2\<lparr>client_side := w2\<rparr>)"
    unfolding system_run_append by (simp del: system_run.simps list.map)
  with main w2(2) show ?thesis by (intro exI [of _ f] exI [of _ "?S2\<lparr>client_side := w2\<rparr>"]) simp
qed

end

section \<open>Properties\<close>

text \<open>
  C4: take any interleaving of a \<open>SimpleNetwork\<close> with the bus owner
  program, on a medium that may lose, repeat, reorder and delay datagrams. When a call of
  \<open>sendto\<close> has returned \<open>Ok\<close>, its result is, but for the error code behind it, what
  \<open>handle_request\<close> of the bus owner made of a datagram the network had sent, and this datagram
  has the message tag and the destination of the packet of the call. The bus owner's own requests,
  which travel on the same wire, are never returned.
\<close>

theorem responses_are_genuine:
  assumes "crates_spec C" "system_reachable C env chk env' D chk' ping S"
    "k < length (calls (client_side S))" "calls (client_side S) ! k = Returned p (Ok (a, b))"
  shows "\<exists>buf d c r c' x t td. p = Some buf \<and> d \<in> set (client_wire S) \<and>
    handle_request C c (drop 4 d) = (Ok r, c') \<and> b = r @ [x] \<and>
    create_tag C buf = Some t \<and> create_tag C (drop 4 d) = Some td \<and>
    flow_msg_tag td = flow_msg_tag t \<and> flow_dest_eid td = flow_dest_eid t"
proof -
  have "system_inv C chk' S" by (rule crates_spec.system_reachable_inv [OF assms(1,2)])
  moreover have "result_inv C (client_side S)"
    using crates_spec.reachable_inv [OF assms(1)] system_sides [OF assms(2)] by blast
  ultimately show ?thesis using crates_spec.genuine_response [OF assms(1) _ _ assms(3,4)] by metis
qed

text \<open>A run of the two programs: a copy of the request is lost, and the response arrives twice.\<close>

definition demo_deliveries :: "bytes \<Rightarrow> sn_event list" where
  "demo_deliveries f = [Deliver 1 f, Deliver 1 f, Handle, Handle, Receive 0]"

definition demo_medium :: "bytes \<Rightarrow> system_event list" where
  "demo_medium f =
     ClientDoes (Transmit 0) # map OwnerDoes [ReadDatagram (Inr (client_datagram std_crates)), Dispatcher] @
       map ClientDoes (demo_deliveries f)"

lemma demo_medium_run:
  obtains w0 f S q a where "client_setup std_crates demo_env True (Inr ()) (Inr ()) = Ok (0, w0)"
    "system_run std_crates demo_env True demo_socket plain_texts True 0
       (ClientDoes (Sendto 0 (drop 4 (client_request std_crates)) client_dest) # demo_medium f)
       \<lparr>client_side = w0, owner_side = bus_run_init\<rparr> = Some S"
    "client_main std_crates demo_env True (Inr ()) (Inr ()) (client_events (demo_medium f)) = Some (Ok (drop 4 f))"
    "calls (client_side S) ! 0 = Returned q (Ok (a, drop 4 f))" "list_all program_event (demo_medium f)"
proof -
  obtain w0 where w0: "client_setup std_crates demo_env True (Inr ()) (Inr ()) = Ok (0, w0)"
    using std.client_setup_ok by blast
  have env: "demo_env log f = Inr (length f)" for log f by (simp add: demo_env_def)
  have events: "map ClientDoes [Sendto 0 (drop 4 (client_request std_crates)) client_dest, Transmit 0] @
      map OwnerDoes [ReadDatagram (Inr (client_datagram std_crates)), Dispatcher] @
      map ClientDoes [Deliver 1 f, Deliver 1 f, Handle, Handle, Receive 0] =
      ClientDoes (Sendto 0 (drop 4 (client_request std_crates)) client_dest) # demo_medium f"
    "client_events (demo_medium f) = [Transmit 0, Deliver 1 f, Deliver 1 f, Handle, Handle, Receive 0]"
    "list_all program_event (demo_medium f)" for f
    by (simp_all add: demo_medium_def demo_deliveries_def client_events_def)
  from std.medium_exchange [where env = demo_env and env' = demo_socket and chk = True and D = plain_texts and chk' = True
      and ping = 0, OF env demo_socket_sends w0] events that [OF w0] show thesis by metis
qed

theorem responses_are_genuine_witness:
  "\<exists>S a b d c r c'. system_reachable std_crates demo_env True demo_socket plain_texts True 0 S \<and>
     calls (client_side S) ! 0 = Returned (Some (client_request std_crates)) (Ok (a, b)) \<and>
     d \<in> set (client_wire S) \<and> handle_request std_crates c (drop 4 d) = (Ok r, c')"
proof -
  obtain w0 f S q a where S: "client_setup std_crates demo_env True (Inr ()) (Inr ()) = Ok (0, w0)"
    "system_run std_crates demo_env True demo_socket plain_texts True 0
       (ClientDoes (Sendto 0 (drop 4 (client_request std_crates)) client_dest) # demo_medium f)
       \<lparr>client_side = w0, owner_side = bus_run_init\<rparr> = Some S"
    "calls (client_side S) ! 0 = Returned q (Ok (a, drop 4 f))" "list_all program_event (demo_medium f)"
    by (rule demo_medium_run)
  have env: "demo_env log f = Inr (length f)" for log f by (simp add: demo_env_def)
  from std.program_run_ok [OF env demo_socket_sends S(1,2,4)]
  have len: "0 < length (calls (client_side S))" "q = Some (client_request std_crates)"
    using S(3) by (auto simp: program_ok_def program_inv_def)
  have reach: "system_reachable std_crates demo_env True demo_socket plain_texts True 0 S"
    by (rule system_run_reachable [OF std.client_setup_reachable [OF S(1)] S(2)])
  from responses_are_genuine [OF std_crates_spec reach len(1) S(3)] S(3) reach show ?thesis unfolding len(2) by blast
qed

text \<open>
  C3: the client program and the bus owner program, over a medium that may
  lose, repeat, reorder and delay datagrams. The sockets are set up without an error and take every
  datagram in full; a socket that refuses one makes \<open>sendto\<close> panic, which is excluded here. In
  every interleaving, the client then either still waits, or its \<open>main\<close> ends with a response that decodes to
  a successful Get Endpoint ID response with identifier 0; it never ends with an error or a panic.
  The dispatcher of the bus owner stays up.
\<close>

theorem client_result_is_valid:
  assumes "crates_spec C" "\<And>log f. env log f = Inr (length f)" "\<And>log f. env' log f = Inr (length f)"
    and "client_setup C env chk (Inr ()) (Inr ()) = Ok (sd, w0)"
    and "system_run C env chk env' D chk' ping (ClientDoes (Sendto sd (drop 4 (client_request C)) client_dest) # es)
      \<lparr>client_side = w0, owner_side = bus_run_init\<rparr> = Some S"
    and "list_all program_event es"
  shows "dispatcher_up (machine (owner_side S)) \<and>
    (case client_main C env chk (Inr ()) (Inr ()) (client_events es) of
       None \<Rightarrow> call_wait (calls (client_side S) ! 0) \<noteq> None
     | Some r \<Rightarrow> \<exists>result p x. r = Ok result \<and>
         try_to_response C (get_eid_response_try_from C) result = Ok (p, x) \<and>
         response_is_success C (get_eid_resp_completion_code x) = Ok () \<and> get_eid_resp_eid x = 0)"
  by (rule crates_spec.client_any_medium [OF assms])

theorem client_result_is_valid_witness:
  "\<exists>es result p x. list_all program_event es \<and>
     client_main std_crates demo_env True (Inr ()) (Inr ()) (client_events es) = Some (Ok result) \<and>
     try_to_response std_crates (get_eid_response_try_from std_crates) result = Ok (p, x) \<and> get_eid_resp_eid x = 0"
proof -
  obtain w0 f S where S: "client_setup std_crates demo_env True (Inr ()) (Inr ()) = Ok (0, w0)"
    "system_run std_crates demo_env True demo_socket plain_texts True 0
       (ClientDoes (Sendto 0 (drop 4 (client_request std_crates)) client_dest) # demo_medium f)
       \<lparr>client_side = w0, owner_side = bus_run_init\<rparr> = Some S"
    "client_main std_crates demo_env True (Inr ()) (Inr ()) (client_events (demo_medium f)) = Some (Ok (drop 4 f))"
    "list_all program_event (demo_medium f)"
    by (rule demo_medium_run)
  have env: "demo_env log f = Inr (length f)" for log f by (simp add: demo_env_def)
  from client_result_is_valid [OF std_crates_spec env demo_socket_sends S(1,2,4)] S(3,4) show ?thesis
    by (intro exI [of _ "demo_medium f"]) auto
qed

end
