(* ===== verification/VirtualNet.thy ===== *)
theory VirtualNet
  imports Smbus
begin

text \<open>
  \<open>VirtualNetwork\<close> of \<open>src/network/virtual_network.rs\<close>: sockets, the list of physical
  bindings, the routing table and \<open>sendto\<close>, which is not finished in the code: it looks a
  route up and then reaches \<open>todo!()\<close>. Bindings are named by handles, as in
  \<open>SimpleNet\<close>.
\<close>

section \<open>The network\<close>

record virtual_network =
  vn_clients :: "i32 \<Rightarrow> client option"
  vn_num_clients :: i32
  vn_routes :: "route list"
  vn_net_devs :: "nat list"
  vn_num_bindings :: u64
  vn_callback_handles :: "task list"

definition virtual_network_new :: virtual_network where
  "virtual_network_new =
     \<lparr>vn_clients = Map.empty, vn_num_clients = 0, vn_routes = [], vn_net_devs = [],
      vn_num_bindings = 0, vn_callback_handles = [CallbackHandler]\<rparr>"

definition vn_get_binding :: "bool \<Rightarrow> virtual_network \<Rightarrow> u64 \<Rightarrow> (network_error, nat) res" where
  "vn_get_binding chk n binding_id =
     res_bind (sub_u chk (vn_num_bindings n) 1) (\<lambda>newest.
       if binding_id < newest then Err (InvalidBindingError binding_id)
       else if unat binding_id < length (vn_net_devs n)
            then Ok (vn_net_devs n ! unat binding_id)
            else Err (InvalidBindingError binding_id))"

text \<open>A turn of \<open>callback_handler\<close>: the binding is looked up and nothing is done with it.\<close>

definition vn_callback ::
  "bool \<Rightarrow> virtual_network \<Rightarrow> network_binding_callback_msg \<Rightarrow> (network_error, unit) res" where
  "vn_callback chk n msg =
     (case msg of BindingReceive ident buf \<Rightarrow>
        (case vn_get_binding chk n ident of Panic m \<Rightarrow> Panic m | _ \<Rightarrow> Ok ()))"

definition vn_get_client :: "virtual_network \<Rightarrow> i32 \<Rightarrow> (mctp_emu_error, client) res" where
  "vn_get_client n sd =
     (case vn_clients n sd of
        Some c \<Rightarrow> Ok c
      | None \<Rightarrow> Err (EmuNetwork (InvalidSocketError sd)))"

fun route_lookup_in :: "route list \<Rightarrow> u32 \<Rightarrow> u8 \<Rightarrow> route option" where
  "route_lookup_in [] dnet daddr = None"
| "route_lookup_in (r # rs) dnet daddr =
     (if route_matches r dnet daddr then Some r else route_lookup_in rs dnet daddr)"

definition route_lookup :: "virtual_network \<Rightarrow> u32 \<Rightarrow> u8 \<Rightarrow> route option" where
  "route_lookup n = route_lookup_in (vn_routes n)"

definition vn_socket :: "virtual_network \<Rightarrow> i32 \<times> virtual_network" where
  "vn_socket n = (vn_num_clients n, n\<lparr>vn_num_clients := vn_num_clients n + 1\<rparr>)"

definition vn_bind ::
  "bool \<Rightarrow> virtual_network \<Rightarrow> i32 \<Rightarrow> u8 \<Rightarrow> u8 \<Rightarrow> u8 \<Rightarrow> (mctp_emu_error, unit) res \<times> virtual_network" where
  "vn_bind chk n sd eid mt tag =
     (case sub_i chk (vn_num_clients n) 1 of
        Panic m \<Rightarrow> (Panic m, n)
      | Err e \<Rightarrow> (Err e, n)
      | Ok newest \<Rightarrow>
          if sint sd < sint newest
          then (Err (EmuNetwork (InvalidSocketError sd)), n)
          else (Ok (), n\<lparr>vn_clients := (vn_clients n)(sd \<mapsto> client_new eid mt tag)\<rparr>))"

text \<open>\<open>sendto\<close> ends before its first \<open>await\<close>; the network is unchanged.\<close>

definition vn_sendto ::
  "virtual_network \<Rightarrow> i32 \<Rightarrow> bytes \<Rightarrow> socket_address \<Rightarrow> (mctp_emu_error, socket_address \<times> bytes) res" where
  "vn_sendto n sd payload' addr =
     (case addr of
        Basic _ _ _ \<Rightarrow>
          Panic ''not yet implemented: Support looking up routes to get the physical address''
      | Extended address' network binding_id phy_addr \<Rightarrow>
          (case route_lookup n network address' of
             None \<Rightarrow>
               Err (EmuOther [''Route not found for '' @ to_string (unat network) @ '','' @
                              to_string (unat address')])
           | Some route_rt \<Rightarrow> Panic ''not yet implemented''))"

text \<open>
  \<open>add_physical_binding\<close> of the binding \<open>b\<close> behind the handle \<open>h\<close>. The binding is
  recorded before \<open>bind\<close> is called, and stays recorded if that fails.
\<close>

definition vn_add_physical_binding ::
  "crates \<Rightarrow> 'b binding_ops \<Rightarrow> virtual_network \<Rightarrow> nat \<Rightarrow> 'b
    \<Rightarrow> (mctp_emu_error, unit) res \<times> virtual_network \<times> 'b" where
  "vn_add_physical_binding C ops n h b =
     (let bind_id = vn_num_bindings n;
          n = n\<lparr>vn_num_bindings := bind_id + 1, vn_net_devs := vn_net_devs n @ [h]\<rparr>
      in (case op_bind ops b bind_id of
            (Ok handle, b') \<Rightarrow>
              (Ok (), n\<lparr>vn_callback_handles := vn_callback_handles n @ [handle]\<rparr>, b')
          | (Err e, b') \<Rightarrow>
              (Err (EmuNetwork (NetworkOther [''failed calling binding: '' @ debug_emu_error C e])), n, b')
          | (Panic m, b') \<Rightarrow> (Panic m, n, b')))"

definition vn_join_handles :: "virtual_network \<Rightarrow> task list \<times> virtual_network" where
  "vn_join_handles n = (vn_callback_handles n, n\<lparr>vn_callback_handles := []\<rparr>)"

interpretation vn: socket_layer vn_socket vn_bind vn_num_clients vn_clients
  by unfold_locales (auto simp: vn_socket_def vn_bind_def sub_i_def split: if_splits)

section \<open>The states a virtual network reaches\<close>

text \<open>
  The calls of the trait \<open>MctpNetwork\<close> that change the network. A binding is added with the
  state \<open>b\<close> it has at that moment.
\<close>

datatype 'b vn_call =
    VSocket
  | VBind i32 u8 u8 u8
  | VAddBinding nat 'b
  | VJoinHandles

definition vn_exec ::
  "crates \<Rightarrow> 'b binding_ops \<Rightarrow> bool \<Rightarrow> 'b vn_call \<Rightarrow> virtual_network \<Rightarrow> virtual_network" where
  "vn_exec C ops chk c n =
     (case c of
        VSocket \<Rightarrow> snd (vn_socket n)
      | VBind sd a t g \<Rightarrow> snd (vn_bind chk n sd a t g)
      | VAddBinding h b \<Rightarrow> fst (snd (vn_add_physical_binding C ops n h b))
      | VJoinHandles \<Rightarrow> snd (vn_join_handles n))"

definition vn_run ::
  "crates \<Rightarrow> 'b binding_ops \<Rightarrow> bool \<Rightarrow> 'b vn_call list \<Rightarrow> virtual_network" where
  "vn_run C ops chk cs = fold (vn_exec C ops chk) cs virtual_network_new"

definition vn_inv :: "virtual_network \<Rightarrow> bool" where
  "vn_inv n \<longleftrightarrow> vn_routes n = [] \<and> vn_num_bindings n = word_of_nat (length (vn_net_devs n))"

fun vn_added :: "'b vn_call list \<Rightarrow> nat list" where
  "vn_added [] = []"
| "vn_added (VAddBinding h b # cs) = h # vn_added cs"
| "vn_added (_ # cs) = vn_added cs"

lemma vn_exec_inv:
  assumes "vn_inv n"
  shows "vn_inv (vn_exec C ops chk c n) \<and>
    vn_net_devs (vn_exec C ops chk c n) = vn_net_devs n @ vn_added [c]"
proof (cases c)
  case (VBind sd a t g)
  then show ?thesis using assms
    by (auto simp: vn_exec_def vn_bind_def vn_inv_def split: res.splits)
next
  case (VAddBinding h b)
  then show ?thesis using assms
    by (auto simp: vn_exec_def vn_add_physical_binding_def vn_inv_def Let_def
        split: prod.splits res.splits)
qed (use assms in \<open>auto simp: vn_exec_def vn_socket_def vn_join_handles_def vn_inv_def\<close>)

lemma vn_added_Cons: "vn_added (c # cs) = vn_added [c] @ vn_added cs"
  by (cases c) simp_all

lemma vn_fold_inv:
  "vn_inv n \<Longrightarrow> vn_inv (fold (vn_exec C ops chk) cs n) \<and>
    vn_net_devs (fold (vn_exec C ops chk) cs n) = vn_net_devs n @ vn_added cs"
proof (induction cs arbitrary: n)
  case Nil
  then show ?case by simp
next
  case (Cons c cs)
  from vn_exec_inv [OF Cons.prems, of C ops chk c] Cons.IH [of "vn_exec C ops chk c n"]
  show ?case by (simp add: vn_added_Cons [of c cs])
qed

lemma vn_run_inv:
  "vn_inv (vn_run C ops chk cs)" "vn_net_devs (vn_run C ops chk cs) = vn_added cs"
  using vn_fold_inv [of virtual_network_new C ops chk cs]
  by (simp_all add: vn_run_def vn_inv_def virtual_network_new_def)

lemma route_lookup_spec:
  "route_lookup_in rs dnet daddr =
    (case filter (\<lambda>r. route_matches r dnet daddr) rs of [] \<Rightarrow> None | r # _ \<Rightarrow> Some r)"
  by (induction rs) auto

text \<open>Of the bindings a network has, \<open>get_binding\<close> returns the newest one only.\<close>

lemma get_binding_newest:
  assumes "vn_inv n" "vn_net_devs n \<noteq> []" "length (vn_net_devs n) < 2 ^ 64"
  shows "vn_get_binding chk n i =
    (if unat i = length (vn_net_devs n) - 1 then Ok (last (vn_net_devs n))
     else Err (InvalidBindingError i))"
proof -
  let ?l = "length (vn_net_devs n)"
  have nb: "vn_num_bindings n = word_of_nat ?l" using assms(1) by (simp add: vn_inv_def)
  have l: "0 < ?l" using assms(2) by simp
  have un: "unat (word_of_nat ?l :: u64) = ?l"
    using assms(3) by (simp add: unat_of_nat take_bit_nat_eq_self)
  have "unat (word_of_nat ?l - 1 :: u64) = ?l - 1"
    using l un by (subst unat_sub_if') (simp add: Suc_le_eq)
  then have lt: "i < word_of_nat ?l - 1 \<longleftrightarrow> unat i < ?l - 1"
    by (simp add: word_less_nat_alt)
  have sub: "(sub_u chk (word_of_nat ?l) 1 :: (network_error, u64) res) = Ok (word_of_nat ?l - 1)"
    using l un by (simp add: sub_u_def)
  show ?thesis
    using assms(2) by (auto simp: vn_get_binding_def nb sub lt last_conv_nth)
qed

section \<open>Properties\<close>

text \<open>
  Whatever calls a \<open>VirtualNetwork\<close> has served, it has no
  route, so \<open>sendto\<close> to an extended address returns the route error and to a basic address
  panics; it never succeeds.
\<close>

theorem virtual_sendto_never_ok:
  assumes "n = vn_run C ops chk cs"
  shows "vn_sendto n sd p (Extended e nw i phy) =
      Err (EmuOther [''Route not found for '' @ to_string (unat nw) @ '','' @ to_string (unat e)]) \<and>
    (\<forall>addr. \<not> is_ok (vn_sendto n sd p addr))"
proof -
  have "vn_routes n = []" using vn_run_inv(1) [of C ops chk cs] assms by (simp add: vn_inv_def)
  then show ?thesis by (auto simp: vn_sendto_def route_lookup_def split: socket_address.split)
qed

theorem virtual_sendto_never_ok_witness:
  "\<not> is_ok (vn_sendto (vn_run std_crates (smbus_ops std_crates (\<lambda>_ d. Inr 0)) True
      [VSocket, VBind 0 8 0 1, VAddBinding 0 smbus_binding_default]) 0 [1] (Extended 9 1 0 0x21))"
  using virtual_sendto_never_ok [OF refl] by blast

text \<open>
  Of the bindings that were added to a \<open>VirtualNetwork\<close>,
  \<open>get_binding\<close> returns the newest for its own id; the ids of all older ones are reported
  as invalid.
\<close>

theorem virtual_get_binding:
  assumes "n = vn_run C ops chk cs" "vn_added cs \<noteq> []" "length (vn_added cs) < 2 ^ 64"
  shows "vn_get_binding chk' n i =
    (if unat i = length (vn_added cs) - 1 then Ok (last (vn_added cs)) else Err (InvalidBindingError i))"
  using get_binding_newest [of n chk' i] vn_run_inv [of C ops chk cs] assms by simp

theorem virtual_get_binding_witness:
  "vn_get_binding True (vn_run std_crates (smbus_ops std_crates (\<lambda>_ d. Inr 0)) True
      [VAddBinding 4 smbus_binding_default, VAddBinding 7 smbus_binding_default]) 0 =
     Err (InvalidBindingError 0) \<and>
   vn_get_binding True (vn_run std_crates (smbus_ops std_crates (\<lambda>_ d. Inr 0)) True
      [VAddBinding 4 smbus_binding_default, VAddBinding 7 smbus_binding_default]) 1 = Ok 7"
  using virtual_get_binding [OF refl, where cs = "[VAddBinding 4 smbus_binding_default, VAddBinding 7 smbus_binding_default]"
      and C = std_crates and ops = "smbus_ops std_crates (\<lambda>_ d. Inr 0)" and chk = True and chk' = True]
  by simp

end
