(* ===== verification/NetTrait.thy ===== *)
theory NetTrait
  imports SimpleNet VirtualNet
begin

text \<open>
  The trait \<open>MctpNetwork\<close> of \<open>src/network/types.rs\<close> as a record of operations, its two
  implementations, and what both promise: the descriptors and the tasks they hand out.
\<close>

section \<open>The trait\<close>

text \<open>
  The methods on a network of type \<open>'n\<close> with bindings of type \<open>'b\<close>. \<open>bind\<close> depends on the build.
  \<open>sendto\<close> is the part up to its first \<open>await\<close>, with the sender of the reply channel as its last
  argument. A binding comes as its handle and the state it has at that moment.
\<close>

record ('n, 'b, 'o) mctp_network_ops =
  net_socket :: "'n \<Rightarrow> i32 \<times> 'n"
  net_bind :: "bool \<Rightarrow> 'n \<Rightarrow> i32 \<Rightarrow> u8 \<Rightarrow> u8 \<Rightarrow> u8 \<Rightarrow> (mctp_emu_error, unit) res \<times> 'n"
  net_sendto :: "'n \<Rightarrow> i32 \<Rightarrow> bytes \<Rightarrow> socket_address \<Rightarrow> chan \<Rightarrow> (mctp_emu_error, 'o) res \<times> 'n"
  net_add_physical_binding :: "'n \<Rightarrow> binding_handle \<Rightarrow> 'b \<Rightarrow> (mctp_emu_error, unit) res \<times> 'n \<times> 'b"
  net_join_handles :: "'n \<Rightarrow> task list \<times> 'n"

definition simple_network_ops ::
  "crates \<Rightarrow> 'b binding_ops
    \<Rightarrow> (simple_network, 'b, binding_handle \<times> bytes \<times> u64 \<times> msg_flow_tag) mctp_network_ops" where
  "simple_network_ops C ops =
     \<lparr>net_socket = sn_socket, net_bind = sn_bind, net_sendto = sendto_start C,
      net_add_physical_binding = (\<lambda>n h. sn_add_physical_binding C ops n), net_join_handles = sn_join_handles\<rparr>"

definition virtual_network_ops ::
  "crates \<Rightarrow> 'b binding_ops \<Rightarrow> (virtual_network, 'b, socket_address \<times> bytes) mctp_network_ops" where
  "virtual_network_ops C ops =
     \<lparr>net_socket = vn_socket, net_bind = vn_bind,
      net_sendto = (\<lambda>n sd p addr resp_tx. (vn_sendto n sd p addr, n)),
      net_add_physical_binding = vn_add_physical_binding C ops, net_join_handles = vn_join_handles\<rparr>"

text \<open>\<open>new_mctp_network\<close>: an \<open>Arc<dyn MctpNetwork>\<close> is the methods and the network.\<close>

definition simple_new_mctp_network ::
  "crates \<Rightarrow> 'b binding_ops \<Rightarrow> binding_handle
    \<Rightarrow> (mctp_emu_error, (simple_network, 'b, binding_handle \<times> bytes \<times> u64 \<times> msg_flow_tag) mctp_network_ops \<times> simple_network) res"
  where
  "simple_new_mctp_network C ops binding = Ok (simple_network_ops C ops, simple_network_new binding)"

definition virtual_new_mctp_network ::
  "crates \<Rightarrow> 'b binding_ops
    \<Rightarrow> (mctp_emu_error, (virtual_network, 'b, socket_address \<times> bytes) mctp_network_ops \<times> virtual_network) res" where
  "virtual_new_mctp_network C ops = Ok (virtual_network_ops C ops, virtual_network_new)"

section \<open>Calls of the trait\<close>

datatype 'b net_call =
    CallSocket
  | CallBind i32 u8 u8 u8
  | CallSendto i32 bytes socket_address chan
  | CallAddBinding binding_handle 'b
  | CallJoin

text \<open>
  A call of \<open>sendto\<close> runs up to its first \<open>await\<close>, where it asks for the lock of its binding, and
  is taken no further here: no lock is held when a binding is added. Theory \<open>SimpleRuns\<close> has
  the rest of the call, and the lock that \<open>add_physical_binding\<close> waits for.
\<close>

datatype 'o net_result =
    GaveSocket i32
  | GaveBind "(mctp_emu_error, unit) res"
  | GaveSendto "(mctp_emu_error, 'o) res"
  | GaveAdd "(mctp_emu_error, unit) res"
  | GaveHandles "task list"

definition net_exec :: "('n, 'b, 'o) mctp_network_ops \<Rightarrow> bool \<Rightarrow> 'b net_call \<Rightarrow> 'n \<Rightarrow> 'o net_result \<times> 'n" where
  "net_exec ops chk c n =
     (case c of
        CallSocket \<Rightarrow> (let (sd, n) = net_socket ops n in (GaveSocket sd, n))
      | CallBind sd a t g \<Rightarrow> (let (r, n) = net_bind ops chk n sd a t g in (GaveBind r, n))
      | CallSendto sd p addr ch \<Rightarrow> (let (r, n) = net_sendto ops n sd p addr ch in (GaveSendto r, n))
      | CallAddBinding h b \<Rightarrow> (let (r, n, b') = net_add_physical_binding ops n h b in (GaveAdd r, n))
      | CallJoin \<Rightarrow> (let (hs, n) = net_join_handles ops n in (GaveHandles hs, n)))"

fun net_run ::
  "('n, 'b, 'o) mctp_network_ops \<Rightarrow> bool \<Rightarrow> 'b net_call list \<Rightarrow> 'n \<Rightarrow> 'o net_result list \<times> 'n" where
  "net_run ops chk [] n = ([], n)"
| "net_run ops chk (c # cs) n =
     (let (x, n) = net_exec ops chk c n; (xs, n) = net_run ops chk cs n in (x # xs, n))"

text \<open>What the calls gave: descriptors, tasks to join, and the tasks they started.\<close>

fun descriptors :: "'o net_result list \<Rightarrow> i32 list" where
  "descriptors [] = []"
| "descriptors (GaveSocket sd # xs) = sd # descriptors xs"
| "descriptors (_ # xs) = descriptors xs"

fun joined :: "'o net_result list \<Rightarrow> task list" where
  "joined [] = []"
| "joined (GaveHandles hs # xs) = hs @ joined xs"
| "joined (_ # xs) = joined xs"

text \<open>\<open>ident i\<close> is the identifier the network gives to the \<open>i\<close>-th binding.\<close>

fun started :: "(nat \<Rightarrow> u64) \<Rightarrow> nat \<Rightarrow> 'o net_result list \<Rightarrow> task list" where
  "started ident i [] = []"
| "started ident i (GaveAdd r # xs) = (if r = Ok () then [PollSocket (ident i)] else []) @ started ident (Suc i) xs"
| "started ident i (_ # xs) = started ident i xs"

text \<open>A result without what only one network can know.\<close>

fun task_shape :: "task \<Rightarrow> task" where
  "task_shape (PollSocket i) = PollSocket 0"
| "task_shape CallbackHandler = CallbackHandler"

fun result_shape :: "'o net_result \<Rightarrow> unit net_result" where
  "result_shape (GaveSocket sd) = GaveSocket sd"
| "result_shape (GaveBind r) = GaveBind r"
| "result_shape (GaveSendto r) = GaveSendto (Ok ())"
| "result_shape (GaveAdd r) = GaveAdd r"
| "result_shape (GaveHandles hs) = GaveHandles (map task_shape hs)"

section \<open>The contract\<close>

text \<open>
  Beside the sockets of \<open>socket_layer\<close>: the handles a network keeps, the identifier \<open>bid\<close> it gives
  to the next binding, and the result \<open>attempt b\<close> of binding \<open>b\<close>. Only the call that is about a
  part changes it.
\<close>

locale mctp_network = socket_layer "net_socket ops" "net_bind ops" counter lookup
  for ops :: "('n, 'b, 'o) mctp_network_ops" and counter :: "'n \<Rightarrow> i32" and lookup :: "'n \<Rightarrow> i32 \<Rightarrow> client option" +
  fixes handles :: "'n \<Rightarrow> task list"
    and bid :: "'n \<Rightarrow> u64"
    and ident :: "nat \<Rightarrow> u64"
    and attempt :: "'b \<Rightarrow> (mctp_emu_error, unit) res"
  assumes socket_frame: "net_socket ops n = (sd, n') \<Longrightarrow> handles n' = handles n \<and> bid n' = bid n"
    and bind_frame: "net_bind ops chk n sd a t g = (r, n') \<Longrightarrow> handles n' = handles n \<and> bid n' = bid n"
    and sendto_frame: "net_sendto ops n sd p addr ch = (x, n') \<Longrightarrow>
      counter n' = counter n \<and> lookup n' = lookup n \<and> handles n' = handles n \<and> bid n' = bid n"
    and add_spec: "net_add_physical_binding ops n h b = (r, n', b') \<Longrightarrow>
      r = attempt b \<and> counter n' = counter n \<and> lookup n' = lookup n \<and>
      handles n' = handles n @ (if r = Ok () then [PollSocket (bid n)] else []) \<and>
      (bid n = ident i \<longrightarrow> bid n' = ident (Suc i))"
    and join_spec: "net_join_handles ops n = (hs, n') \<Longrightarrow>
      hs = handles n \<and> counter n' = counter n \<and> lookup n' = lookup n \<and> handles n' = [] \<and> bid n' = bid n"
begin

text \<open>What one call gives, and what it does to the parts of the network.\<close>

lemma exec_spec:
  assumes ex: "net_exec ops chk c n = (x, n')" and i: "bid n = ident i"
  defines "j \<equiv> (case c of CallAddBinding h b \<Rightarrow> Suc i | _ \<Rightarrow> i)"
  shows "(descriptors [x] = [] \<and> counter n' = counter n \<or> descriptors [x] = [counter n] \<and> counter n' = counter n + 1) \<and>
    joined [x] @ handles n' = handles n @ started ident i [x] \<and> bid n' = ident j \<and>
    (\<forall>xs. started ident i (x # xs) = started ident i [x] @ started ident j xs)"
proof (cases c)
  case CallSocket
  then obtain sd where "net_socket ops n = (sd, n')" "x = GaveSocket sd"
    using ex by (auto simp: net_exec_def split: prod.splits)
  with socket_spec [OF this(1)] socket_frame [OF this(1)] i CallSocket show ?thesis by (simp add: j_def)
next
  case (CallBind sd a t g)
  then obtain r where "net_bind ops chk n sd a t g = (r, n')" "x = GaveBind r"
    using ex by (auto simp: net_exec_def split: prod.splits)
  with bind_spec [OF this(1)] bind_frame [OF this(1)] i CallBind show ?thesis by (simp add: j_def)
next
  case (CallSendto sd p addr ch)
  then obtain r where "net_sendto ops n sd p addr ch = (r, n')" "x = GaveSendto r"
    using ex by (auto simp: net_exec_def split: prod.splits)
  with sendto_frame [OF this(1)] i CallSendto show ?thesis by (simp add: j_def)
next
  case (CallAddBinding h b)
  then obtain r b' where "net_add_physical_binding ops n h b = (r, n', b')" "x = GaveAdd r"
    using ex by (auto simp: net_exec_def split: prod.splits)
  with add_spec [OF this(1), of i] i CallAddBinding show ?thesis by (simp add: j_def)
next
  case CallJoin
  then obtain hs where "net_join_handles ops n = (hs, n')" "x = GaveHandles hs"
    using ex by (auto simp: net_exec_def split: prod.splits)
  with join_spec [OF this(1)] i CallJoin show ?thesis by (simp add: j_def)
qed

lemma descriptors_Cons: "descriptors (x # xs) = descriptors [x] @ descriptors xs"
  by (cases x) simp_all

lemma joined_Cons: "joined (x # xs) = joined [x] @ joined xs"
  by (cases x) simp_all

text \<open>The descriptors count up; every task that was started is handed out once or still kept.\<close>

lemma run_spec:
  assumes "net_run ops chk cs n = (xs, n')" "bid n = ident i"
  shows "descriptors xs = map (\<lambda>k. counter n + word_of_nat k) [0..<length (descriptors xs)] \<and>
    joined xs @ handles n' = handles n @ started ident i xs"
  using assms
proof (induction cs arbitrary: n xs i)
  case (Cons c cs)
  obtain x n1 ys where r: "net_exec ops chk c n = (x, n1)" "net_run ops chk cs n1 = (ys, n')" "xs = x # ys"
    using Cons.prems(1) by (auto split: prod.splits)
  let ?j = "case c of CallAddBinding h b \<Rightarrow> Suc i | _ \<Rightarrow> i"
  from exec_spec [OF r(1) Cons.prems(2)] have
    d: "descriptors [x] = [] \<and> counter n1 = counter n \<or> descriptors [x] = [counter n] \<and> counter n1 = counter n + 1"
    and t: "joined [x] @ handles n1 = handles n @ started ident i [x]" "bid n1 = ident ?j"
      "\<And>xs. started ident i (x # xs) = started ident i [x] @ started ident ?j xs" by blast+
  from Cons.IH [OF r(2) t(2)] have
    ih: "descriptors ys = map (\<lambda>k. counter n1 + word_of_nat k) [0..<length (descriptors ys)]"
      "joined ys @ handles n' = handles n1 @ started ident ?j ys" by simp_all
  have "joined xs @ handles n' = handles n @ started ident i xs"
    using ih(2) t(1) unfolding r(3) joined_Cons [of x ys] t(3) [of ys] by (metis append.assoc)
  moreover have "descriptors xs = map (\<lambda>k. counter n + word_of_nat k) [0..<length (descriptors xs)]"
    using d
  proof (elim disjE conjE)
    assume "descriptors [x] = []" "counter n1 = counter n"
    then show ?thesis using ih(1) unfolding r(3) descriptors_Cons [of x ys] by simp
  next
    assume x: "descriptors [x] = [counter n]" "counter n1 = counter n + 1"
    show ?thesis
      unfolding r(3) descriptors_Cons [of x ys] x(1)
      by (subst ih(1)) (simp add: x(2) upt_conv_Cons map_Suc_upt [symmetric] add.assoc comp_def del: upt_Suc)
  qed
  ultimately show ?case by simp
qed simp

end

section \<open>The two networks\<close>

definition smbus_attempt :: "crates \<Rightarrow> smbus_net_dev_binding \<Rightarrow> (mctp_emu_error, unit) res" where
  "smbus_attempt C b =
     (case smbus_bind b 0 of
        (Ok _, _) \<Rightarrow> Ok ()
      | (Err e, _) \<Rightarrow> Err (EmuNetwork (NetworkOther [''failed calling binding: '' @ debug_emu_error C e]))
      | (Panic m, _) \<Rightarrow> Panic m)"

lemma smbus_bind_result:
  "smbus_bind b i = (case smbus_attempt C b of Ok _ \<Rightarrow> (Ok (PollSocket i), b\<lparr>network_id := i\<rparr>)
     | _ \<Rightarrow> (Err (EmuPhys (PhysOther [''failed grabbing socket vector''])), b\<lparr>network_id := i\<rparr>))"
  by (simp add: smbus_attempt_def smbus_bind_def Let_def split: option.splits)

lemma smbus_add_result:
  "sn_add_physical_binding C (smbus_ops C env) n b =
     (smbus_attempt C b, if smbus_attempt C b = Ok () then n\<lparr>callback_handles := callback_handles n @ [PollSocket 1]\<rparr> else n,
      b\<lparr>network_id := 1\<rparr>)"
  "vn_add_physical_binding C (smbus_ops C env) v h b =
     (smbus_attempt C b,
      v\<lparr>vn_num_bindings := vn_num_bindings v + 1, vn_net_devs := vn_net_devs v @ [h],
        vn_callback_handles := vn_callback_handles v @ (if smbus_attempt C b = Ok () then [PollSocket (vn_num_bindings v)] else [])\<rparr>,
      b\<lparr>network_id := vn_num_bindings v\<rparr>)"
  by (simp_all add: sn_add_physical_binding_def vn_add_physical_binding_def smbus_attempt_def smbus_ops_def smbus_bind_def Let_def
      split: option.splits)

interpretation simple: mctp_network "simple_network_ops C (smbus_ops C env)" num_clients clients
  callback_handles "\<lambda>_. 1" "\<lambda>_. 1" "smbus_attempt C"
  for C env
proof (intro mctp_network.intro mctp_network_axioms.intro)
  show "socket_layer (net_socket (simple_network_ops C (smbus_ops C env))) (net_bind (simple_network_ops C (smbus_ops C env)))
      num_clients clients"
    using sn.socket_layer_axioms by (simp add: simple_network_ops_def)
qed (auto simp: simple_network_ops_def sn_socket_def sn_join_handles_def smbus_add_result sn_bind_def sendto_start_def Let_def
    split: if_splits res.splits)

interpretation virtual: mctp_network "virtual_network_ops C (smbus_ops C env)" vn_num_clients vn_clients
  vn_callback_handles vn_num_bindings word_of_nat "smbus_attempt C"
  for C env
proof (intro mctp_network.intro mctp_network_axioms.intro)
  show "socket_layer (net_socket (virtual_network_ops C (smbus_ops C env))) (net_bind (virtual_network_ops C (smbus_ops C env)))
      vn_num_clients vn_clients"
    using vn.socket_layer_axioms by (simp add: virtual_network_ops_def)
qed (auto simp: virtual_network_ops_def vn_socket_def vn_join_handles_def smbus_add_result vn_bind_def add.commute
    split: if_splits res.splits)

section \<open>One network for the other\<close>

text \<open>The networks hold the same clients, count the same sockets and keep the same kinds of tasks.\<close>

definition alike :: "simple_network \<Rightarrow> virtual_network \<Rightarrow> bool" where
  "alike n v \<longleftrightarrow>
     num_clients n = vn_num_clients v \<and> clients n = vn_clients v \<and>
     map task_shape (callback_handles n) = map task_shape (vn_callback_handles v)"

lemma alike_exec:
  assumes "alike n v" "net_exec (simple_network_ops C (smbus_ops C env)) chk c n = (x, n')"
    "net_exec (virtual_network_ops C (smbus_ops C env)) chk c v = (y, v')"
  shows "result_shape x = result_shape y \<and> alike n' v'"
  using assms
  by (cases c)
    (auto simp: net_exec_def simple_network_ops_def virtual_network_ops_def alike_def sn_socket_def vn_socket_def
      sn_bind_def vn_bind_def sn_join_handles_def vn_join_handles_def sendto_start_def smbus_add_result Let_def
      split: res.splits prod.splits if_splits)

lemma alike_run:
  "alike n v \<Longrightarrow>
    map result_shape (fst (net_run (simple_network_ops C (smbus_ops C env)) chk cs n)) =
    map result_shape (fst (net_run (virtual_network_ops C (smbus_ops C env)) chk cs v))"
proof (induction cs arbitrary: n v)
  case (Cons c cs)
  obtain x n' y v' where xy: "net_exec (simple_network_ops C (smbus_ops C env)) chk c n = (x, n')"
    "net_exec (virtual_network_ops C (smbus_ops C env)) chk c v = (y, v')" by fastforce
  from alike_exec [OF Cons.prems xy] Cons.IH show ?case by (simp add: xy split_beta)
qed simp

section \<open>Properties\<close>

text \<open>
  C16: whatever calls a network has served, the descriptors that \<open>socket\<close> gave
  count up from 0, and the tasks that \<open>join_handles\<close> gave, together with those the network still
  keeps, are the callback handler and the poll tasks of the bindings added with success, each
  once and in order. A \<open>SimpleNetwork\<close> gives every binding the identifier 1, a
  \<open>VirtualNetwork\<close> its position among the bindings that were tried.
\<close>

theorem networks_hand_out:
  "(let (xs, n) = net_run (simple_network_ops C (smbus_ops C env)) chk cs (simple_network_new h) in
     descriptors xs = map word_of_nat [0..<length (descriptors xs)] \<and>
     joined xs @ callback_handles n = CallbackHandler # started (\<lambda>_. 1) 0 xs) \<and>
   (let (ys, v) = net_run (virtual_network_ops C (smbus_ops C env)) chk cs virtual_network_new in
     descriptors ys = map word_of_nat [0..<length (descriptors ys)] \<and>
     joined ys @ vn_callback_handles v = CallbackHandler # started word_of_nat 0 ys)"
  using simple.run_spec [of C env chk cs "simple_network_new h" _ _ 0] virtual.run_spec [of C env chk cs virtual_network_new _ _ 0]
  by (auto simp: simple_network_new_def virtual_network_new_def split: prod.split)

text \<open>
  C17: for every sequence of calls of the trait, a new \<open>SimpleNetwork\<close> and a new
  \<open>VirtualNetwork\<close> return the same descriptors, the same results of \<open>bind\<close> and of
  \<open>add_physical_binding\<close>, errors and panics included, and equally many tasks of the same kinds;
  only the outcome of \<open>sendto\<close> and the identifiers in the tasks differ.
\<close>

theorem networks_alike:
  "map result_shape (fst (net_run (simple_network_ops C (smbus_ops C env)) chk cs (simple_network_new h))) =
   map result_shape (fst (net_run (virtual_network_ops C (smbus_ops C env)) chk cs virtual_network_new))"
  by (rule alike_run) (simp add: alike_def simple_network_new_def virtual_network_new_def)

text \<open>Two sockets, a binding, and its task handed out once.\<close>

lemma networks_demo:
  "net_run (simple_network_ops C (smbus_ops C env)) True
      [CallSocket, CallSocket, CallAddBinding 0 (smbus_binding_default\<lparr>socket := Some s\<rparr>), CallJoin, CallJoin] (simple_network_new 0) =
     ([GaveSocket 0, GaveSocket 1, GaveAdd (Ok ()), GaveHandles [CallbackHandler, PollSocket 1], GaveHandles []],
      (simple_network_new 0)\<lparr>num_clients := 2, callback_handles := []\<rparr>)"
  by (simp add: net_exec_def simple_network_ops_def sn_socket_def sn_join_handles_def smbus_add_result smbus_attempt_def
      smbus_bind_def simple_network_new_def Let_def)

end
