(* ===== verification/BusRefine.thy ===== *)
theory BusRefine
  imports BusPeer
begin

text \<open>
  Every run of the whole program (\<open>BusRun\<close>) is a run of the loop by itself (\<open>BusLoop\<close>) in some
  world: what the other tasks do becomes the requests the world answers in between, and the
  replies become its exchanges.
\<close>

section \<open>Worlds that agree so far\<close>

text \<open>
  Two worlds agree on the turns before \<open>a\<close>, the sleeps before \<open>b\<close>, the building of the first
  \<open>c\<close> requests and the first \<open>d\<close> exchanges.
\<close>

definition same_world :: "nat \<Rightarrow> nat \<Rightarrow> nat \<Rightarrow> nat \<Rightarrow> bus_env \<Rightarrow> bus_env \<Rightarrow> bool" where
  "same_world a b c d E E' \<longleftrightarrow>
     (\<forall>i < a. top_env E' i = top_env E i) \<and> (\<forall>i < b. idle_env E' i = idle_env E i) \<and>
     (\<forall>log. length log < c \<longrightarrow> before_env E' log = before_env E log) \<and>
     (\<forall>log bs. length log < d \<longrightarrow> exchange_env E' log bs = exchange_env E log bs)"

lemma same_world_refl [simp]: "same_world a b c d E E"
  by (simp add: same_world_def)

lemma same_world_trans:
  "same_world a b c d E E1 \<Longrightarrow> same_world a' b' c' d' E1 E' \<Longrightarrow> a \<le> a' \<Longrightarrow> b \<le> b' \<Longrightarrow> c \<le> c' \<Longrightarrow> d \<le> d' \<Longrightarrow>
    same_world a b c d E E'"
  by (simp add: same_world_def)

text \<open>The next thing the world does, decided.\<close>

definition set_top :: "nat \<Rightarrow> bytes list \<Rightarrow> bus_env \<Rightarrow> bus_env" where
  "set_top i os E = E\<lparr>top_env := (top_env E)(i := os)\<rparr>"

definition set_idle :: "nat \<Rightarrow> bytes list \<Rightarrow> bus_env \<Rightarrow> bus_env" where
  "set_idle i os E = E\<lparr>idle_env := (idle_env E)(i := os)\<rparr>"

definition set_before :: "nat \<Rightarrow> bytes list \<Rightarrow> bus_env \<Rightarrow> bus_env" where
  "set_before i os E = E\<lparr>before_env := (\<lambda>log. if length log = i then os else before_env E log)\<rparr>"

definition set_exchange :: "nat \<Rightarrow> bytes list \<times> exchange \<Rightarrow> bus_env \<Rightarrow> bus_env" where
  "set_exchange i x E = E\<lparr>exchange_env := (\<lambda>log bs. if length log = i then x else exchange_env E log bs)\<rparr>"

lemma same_world_set:
  "a \<le> i \<Longrightarrow> same_world a b c d E (set_top i os E)"
  "b \<le> i \<Longrightarrow> same_world a b c d E (set_idle i os E)"
  "c \<le> i \<Longrightarrow> same_world a b c d E (set_before i os E)"
  "d \<le> i \<Longrightarrow> same_world a b c d E (set_exchange i x E)"
  by (auto simp: same_world_def set_top_def set_idle_def set_before_def set_exchange_def)

section \<open>The simulation\<close>

text \<open>The loop by itself, from the start of the program.\<close>

abbreviation loop_alone :: "crates \<Rightarrow> loop_texts \<Rightarrow> bool \<Rightarrow> u8 \<Rightarrow> nat \<Rightarrow> bus_env \<Rightarrow> (anyhow, u8) res \<times> bus_owner" where
  "loop_alone C D chk p k E \<equiv> run_bus_owner_loop C E D chk p k \<lparr>ctx = main_context, sent = []\<rparr>"

lemma turns_snoc:
  "bus_owner_turns C E D chk p (Suc k) i n =
     act_bind (bus_owner_turns C E D chk p k i n) (bus_owner_turn C E D chk p (i + k))"
proof (induction k arbitrary: i n)
  case 0
  show ?case by (rule ext) (simp add: act_bind_def act_lift_def split: prod.splits res.splits)
next
  case (Suc k)
  have "bus_owner_turns C E D chk p (Suc (Suc k)) i n =
      act_bind (bus_owner_turn C E D chk p i n) (bus_owner_turns C E D chk p (Suc k) (Suc i))" by simp
  also have "\<dots> = act_bind (bus_owner_turn C E D chk p i n)
      (\<lambda>n'. act_bind (bus_owner_turns C E D chk p k (Suc i) n') (bus_owner_turn C E D chk p (Suc i + k)))"
    by (rule arg_cong [of _ _ "act_bind (bus_owner_turn C E D chk p i n)"], rule ext, rule Suc.IH)
  finally show ?case by (simp add: act_bind_assoc)
qed

lemma loop_alone_Suc:
  "loop_alone C D chk p k E = (Ok n, s) \<Longrightarrow> loop_alone C D chk p (Suc k) E = bus_owner_turn C E D chk p k n s"
  using turns_snoc [of C E D chk p k 0 "min_eid_in_pool main_context"]
  by (simp add: run_bus_owner_loop_def act_bind_def del: bus_owner_turns.simps)

text \<open>
  \<open>mirrors\<close>: the requests of the state \<open>s\<close> are those answered so far, and the endpoint of the
  program is the one of \<open>s\<close> after some more requests of others. \<open>replayed\<close>: the world's replies
  are the program's.
\<close>

definition mirrors :: "crates \<Rightarrow> bytes list \<Rightarrow> bus_owner \<Rightarrow> bus_main \<Rightarrow> bool" where
  "mirrors C os s m \<longleftrightarrow>
     (loop_at m \<noteq> LoopFailed \<longrightarrow>
        sent s = map fst (exchanges m) \<and> endpoint m = others_handled C os (ctx s))"

definition replayed :: "bus_env \<Rightarrow> bus_main \<Rightarrow> bool" where
  "replayed E m \<longleftrightarrow>
     (\<forall>i < length (exchanges m). \<exists>os.
        exchange_env E (map fst (take i (exchanges m))) (fst (exchanges m ! i)) =
          (os, Replied (Inr (snd (exchanges m ! i)))))"

text \<open>
  In the middle of turn \<open>k\<close>, the loop by itself is at the same point, in every world that
  agrees with \<open>E\<close> on what has been decided.
\<close>

definition at_phase ::
  "crates \<Rightarrow> loop_texts \<Rightarrow> bool \<Rightarrow> u8 \<Rightarrow> nat \<Rightarrow> bus_env \<Rightarrow> bus_owner \<Rightarrow> bus_run \<Rightarrow> bool" where
  "at_phase C D chk p k E s w \<longleftrightarrow>
     (let r = length (exchanges (machine w)) in
      case phase w of
        AtTop n \<Rightarrow> \<forall>E'. same_world k k r r E E' \<longrightarrow> loop_alone C D chk p k E' = (Ok n, s)
      | Asleep n \<Rightarrow> \<forall>E'. same_world (Suc k) k r r E E' \<longrightarrow>
          loop_alone C D chk p (Suc k) E' = perform C E' (idle_turn C p n) (answer_others C (idle_env E' k) s)
      | Running t \<Rightarrow> \<forall>E'.
          (if loop_at (machine w) = LoopFailed then same_world (Suc k) (Suc k) (Suc r) (Suc r) E E'
           else same_world (Suc k) (Suc k) r r E E') \<longrightarrow>
          loop_alone C D chk p (Suc k) E' = perform C E' t s
      | Waiting q \<Rightarrow> \<exists>buf. loop_buf (loop_at (machine w)) = Some buf \<and>
          (\<forall>E' others x. same_world (Suc k) (Suc k) (Suc r) r E E' \<and> exchange_env E' (sent s) buf = (others, x) \<longrightarrow>
             loop_alone C D chk p (Suc k) E' = perform C E' (q x) (exchanged C buf others x s))
      | Ended (Ok u) \<Rightarrow> False
      | Ended (Err e) \<Rightarrow> loop_alone C D chk p (Suc k) E = (Err e, s)
      | Ended (Panic e) \<Rightarrow> loop_alone C D chk p (Suc k) E = (Panic e, s))"

definition simulated :: "crates \<Rightarrow> loop_texts \<Rightarrow> bool \<Rightarrow> u8 \<Rightarrow> bus_run \<Rightarrow> bool" where
  "simulated C D chk p w \<longleftrightarrow>
     (\<exists>k E s os. mirrors C os s (machine w) \<and> replayed E (machine w) \<and> at_phase C D chk p k E s w)"

lemma simulatedI:
  "mirrors C os s (machine w) \<Longrightarrow> replayed E (machine w) \<Longrightarrow> at_phase C D chk p k E s w \<Longrightarrow> simulated C D chk p w"
  unfolding simulated_def by blast

lemma replayed_same:
  "replayed E m \<Longrightarrow> same_world a b c d E E' \<Longrightarrow> length (exchanges m) \<le> d \<Longrightarrow> exchanges m' = exchanges m \<Longrightarrow> replayed E' m'"
  by (auto simp: replayed_def same_world_def)

lemma answer_others_append: "ctx (answer_others C ps (answer_others C os s)) = others_handled C (os @ ps) (ctx s)"
  by (simp add: answer_others_def)

context crates_spec
begin

lemma simulated_background:
  assumes "simulated C D chk p w" "agrees w" "main_exec C env chk e (machine w) = Some m"
    and e: "e = Dispatch \<or> (\<exists>r. e = Datagram r)"
  shows "simulated C D chk p (w\<lparr>machine := m\<rparr>)"
proof -
  note same = background_same [OF assms(3) e]
  have "is_background e" using e by (auto simp: is_background_def)
  from background_step [OF this assms(3)] obtain ps where ps: "endpoint m = others_handled C ps (endpoint (machine w))" by blast
  from assms(1) obtain k E s os where s: "mirrors C os s (machine w)" "replayed E (machine w)" "at_phase C D chk p k E s w"
    unfolding simulated_def by blast
  have "mirrors C (os @ ps) s m" using s(1) ps same by (simp add: mirrors_def)
  moreover have "replayed E m" using s(2) same by (simp add: replayed_def)
  moreover have "at_phase C D chk p k E s (w\<lparr>machine := m\<rparr>)"
    using s(3) same by (cases "phase w") (simp_all add: at_phase_def Let_def split: res.splits)
  ultimately show ?thesis by (intro simulatedI [of C "os @ ps" s _ E]) simp_all
qed

lemma simulated_swap:
  assumes sim: "simulated C D chk p w" and w: "phase w = AtTop n" "loop_at (machine w) = LoopIdle"
    and m: "main_poll (machine w) = Some m"
    and w': "w' = \<lparr>machine = m, phase = if perform_discovery (endpoint (machine w)) then Running (discover C D chk n) else Asleep n\<rparr>"
  shows "simulated C D chk p w'"
proof -
  from sim obtain k E s os where s: "mirrors C os s (machine w)" "replayed E (machine w)" "at_phase C D chk p k E s w"
    unfolding simulated_def by blast
  let ?r = "length (exchanges (machine w))"
  have m: "m = (machine w)\<lparr>endpoint := (endpoint (machine w))\<lparr>perform_discovery := False\<rparr>\<rparr>"
    using m w(2) by (simp add: main_poll_def)
  let ?E = "set_top k os E"
  let ?t = "answer_others C os s"
  let ?s = "?t\<lparr>ctx := (ctx ?t)\<lparr>perform_discovery := False\<rparr>\<rparr>"
  have ctx: "ctx ?t = endpoint (machine w)" using s(1) w(2) by (simp add: mirrors_def answer_others_def)
  have run: "loop_alone C D chk p (Suc k) E' =
      (if perform_discovery (endpoint (machine w)) then perform C E' (discover C D chk n) ?s
       else perform C E' (idle_turn C p n) (answer_others C (idle_env E' k) ?s))"
    if "same_world (Suc k) k ?r ?r ?E E'" for E'
  proof -
    have "same_world k k ?r ?r E E'" by (rule same_world_trans [OF same_world_set(1) that]) simp_all
    then have "loop_alone C D chk p k E' = (Ok n, s)" using s(3) w(1) by (simp add: at_phase_def Let_def)
    moreover have "top_env E' k = os" using that by (simp add: same_world_def set_top_def)
    ultimately show ?thesis using ctx by (simp add: loop_alone_Suc bus_owner_turn_def Let_def)
  qed
  have "at_phase C D chk p k ?E ?s w'"
  proof (cases "perform_discovery (endpoint (machine w))")
    case True
    have "same_world (Suc k) k ?r ?r ?E E'" if "same_world (Suc k) (Suc k) ?r ?r ?E E'" for E'
      using that by (simp add: same_world_def)
    then show ?thesis using run True w(2) by (simp add: at_phase_def w' m Let_def)
  qed (use run w(2) in \<open>simp add: at_phase_def w' m Let_def\<close>)
  moreover have "mirrors C [] ?s (machine w')" using s(1) w(2) ctx by (simp add: mirrors_def w' m)
  moreover have "replayed ?E (machine w')"
    by (rule replayed_same [OF s(2) same_world_set(1) [of k k k _ ?r]]) (simp_all add: w' m)
  ultimately show ?thesis by (intro simulatedI)
qed

lemma simulated_wake:
  assumes sim: "simulated C D chk p w" and w: "phase w = Asleep n" "loop_at (machine w) = LoopIdle"
  shows "simulated C D chk p (w\<lparr>phase := Running (idle_turn C p n)\<rparr>)"
proof -
  from sim obtain k E s os where s: "mirrors C os s (machine w)" "replayed E (machine w)" "at_phase C D chk p k E s w"
    unfolding simulated_def by blast
  let ?r = "length (exchanges (machine w))" and ?E = "set_idle k os E" and ?s = "answer_others C os s"
  have "loop_alone C D chk p (Suc k) E' = perform C E' (idle_turn C p n) ?s" if "same_world (Suc k) (Suc k) ?r ?r ?E E'" for E'
  proof -
    have "same_world (Suc k) k ?r ?r E E'" by (rule same_world_trans [OF same_world_set(2) that]) simp_all
    moreover have "idle_env E' k = os" using that by (simp add: same_world_def set_idle_def)
    ultimately show ?thesis using s(3) w(1) by (simp add: at_phase_def Let_def)
  qed
  then have "at_phase C D chk p k ?E ?s (w\<lparr>phase := Running (idle_turn C p n)\<rparr>)"
    using w(2) by (simp add: at_phase_def Let_def)
  moreover have "mirrors C [] ?s (machine w)" using s(1) w(2) by (simp add: mirrors_def answer_others_def)
  moreover have "replayed ?E (machine w)"
    by (rule replayed_same [OF s(2) same_world_set(2) [of k k k _ ?r]]) simp_all
  ultimately show ?thesis by (intro simulatedI [where w = "w\<lparr>phase := Running (idle_turn C p n)\<rparr>"]) simp_all
qed

lemma simulated_ask:
  assumes sim: "simulated C D chk p w" and w: "phase w = Running (Ask q k')" and m: "main_request C q (machine w) = Some m"
  shows "simulated C D chk p \<lparr>machine = m, phase = Waiting k'\<rparr>"
proof -
  from sim obtain k E s os where s: "mirrors C os s (machine w)" "replayed E (machine w)" "at_phase C D chk p k E s w"
    unfolding simulated_def by blast
  let ?r = "length (exchanges (machine w))" and ?E = "set_before (length (exchanges (machine w))) os E"
  obtain buf c where bytes: "\<And>s :: bus_owner. ctx s = endpoint (machine w) \<Longrightarrow> loop_request_bytes C q s = (Ok buf, s\<lparr>ctx := c\<rparr>)"
    using loop_request_bytes_ctx [of "endpoint (machine w)" C q] by blast
  have idle: "loop_at (machine w) = LoopIdle" and m: "m = (machine w)\<lparr>endpoint := c, next_reply := Suc (next_reply (machine w)),
      loop_at := LoopPutting (next_reply (machine w)) buf\<rparr>"
    using m bytes [of "\<lparr>ctx = endpoint (machine w), sent = []\<rparr>"] by (auto elim!: main_request_cases)
  let ?s = "(answer_others C os s)\<lparr>ctx := c\<rparr>"
  have mir: "sent s = map fst (exchanges (machine w))" "ctx (answer_others C os s) = endpoint (machine w)"
    using s(1) idle by (simp_all add: mirrors_def answer_others_def)
  have "loop_alone C D chk p (Suc k) E' = perform C E' (k' x) (exchanged C buf others x ?s)"
    if "same_world (Suc k) (Suc k) (Suc ?r) ?r ?E E'" "exchange_env E' (sent ?s) buf = (others, x)" for E' others x
  proof -
    have "same_world (Suc k) (Suc k) ?r ?r E E'" by (rule same_world_trans [OF same_world_set(3) that(1)]) simp_all
    then have "loop_alone C D chk p (Suc k) E' = perform C E' (Ask q k') s"
      using s(3) w idle by (simp add: at_phase_def Let_def)
    moreover have "before_env E' (sent s) = os" using that(1) by (simp add: same_world_def set_before_def mir)
    ultimately show ?thesis using perform_Ask [of C q E' s buf ?s others x k'] bytes [OF mir(2)] that(2) by simp
  qed
  then have "at_phase C D chk p k ?E ?s \<lparr>machine = m, phase = Waiting k'\<rparr>"
    by (simp add: at_phase_def m Let_def)
  moreover have "mirrors C [] ?s m" using mir by (simp add: mirrors_def m)
  moreover have "replayed ?E m"
    by (rule replayed_same [OF s(2) same_world_set(3) [of ?r ?r k k ?r]]) (simp_all add: m)
  ultimately show ?thesis by (intro simulatedI [of C "[]" ?s]) simp_all
qed

text \<open>The exchange ends: with the reply, or without.\<close>

lemma simulated_exchanged:
  assumes s: "mirrors C os s (machine w)" "replayed E (machine w)" "at_phase C D chk p k E s w"
    and w: "phase w = Waiting q" and buf: "loop_buf (loop_at (machine w)) = Some buf"
    and E': "same_world (Suc k) (Suc k) (Suc r) (Suc r) (set_exchange r (os, x) E) E'" "r = length (exchanges (machine w))"
  shows "loop_alone C D chk p (Suc k) E' = perform C E' (q x) (exchanged C buf os x s)"
proof -
  have "loop_at (machine w) \<noteq> LoopFailed" using buf by auto
  then have mir: "sent s = map fst (exchanges (machine w))" using s(1) by (simp add: mirrors_def)
  have "same_world (Suc k) (Suc k) (Suc r) r E E'"
    by (rule same_world_trans [OF same_world_set(4) E'(1)]) simp_all
  moreover have "exchange_env E' (sent s) buf = (os, x)" using E' by (simp add: same_world_def set_exchange_def mir)
  ultimately show ?thesis using s(3) w buf E'(2) by (auto simp: at_phase_def Let_def)
qed

lemma simulated_failed:
  assumes sim: "simulated C D chk p w" and ag: "agrees w" and w: "phase w = Waiting q"
    and m: "loop_at m = LoopFailed" "exchanges m = exchanges (machine w)"
  shows "simulated C D chk p \<lparr>machine = m, phase = Running (q x)\<rparr>"
proof -
  from sim obtain k E s os where s: "mirrors C os s (machine w)" "replayed E (machine w)" "at_phase C D chk p k E s w"
    unfolding simulated_def by blast
  let ?r = "length (exchanges (machine w))"
  obtain buf where buf: "loop_buf (loop_at (machine w)) = Some buf" using ag w by (auto simp: agrees_def)
  note ex = simulated_exchanged [OF s w buf]
  have "at_phase C D chk p k (set_exchange ?r (os, x) E) (exchanged C buf os x s) \<lparr>machine = m, phase = Running (q x)\<rparr>"
    using ex by (simp add: at_phase_def m Let_def)
  moreover have "replayed (set_exchange ?r (os, x) E) m"
    by (rule replayed_same [OF s(2) same_world_set(4) [of ?r ?r k k ?r]]) (simp_all add: m)
  ultimately show ?thesis by (intro simulatedI [of C "[]" "exchanged C buf os x s"]) (simp_all add: mirrors_def m)
qed

lemma simulated_take:
  assumes sim: "simulated C D chk p w" and w: "phase w = Waiting q"
    and at: "loop_at (machine w) = LoopWaiting ch buf" and m: "m = (machine w)\<lparr>loop_at := LoopIdle, exchanges := exchanges (machine w) @ [(buf, b)]\<rparr>"
  shows "simulated C D chk p \<lparr>machine = m, phase = Running (q (Replied (Inr b)))\<rparr>"
proof -
  from sim obtain k E s os where s: "mirrors C os s (machine w)" "replayed E (machine w)" "at_phase C D chk p k E s w"
    unfolding simulated_def by blast
  let ?r = "length (exchanges (machine w))" and ?x = "Replied (Inr b) :: exchange"
  let ?E = "set_exchange ?r (os, ?x) E" and ?s = "exchanged C buf os ?x s"
  have buf: "loop_buf (loop_at (machine w)) = Some buf" using at by simp
  note ex = simulated_exchanged [OF s w buf]
  have mir: "sent s = map fst (exchanges (machine w))" "endpoint (machine w) = others_handled C os (ctx s)"
    using s(1) at by (simp_all add: mirrors_def)
  have "at_phase C D chk p k ?E ?s \<lparr>machine = m, phase = Running (q ?x)\<rparr>"
    using ex by (simp add: at_phase_def m Let_def)
  moreover have "mirrors C [] ?s m" using mir by (simp add: mirrors_def m exchanged_def answer_others_def)
  moreover have "replayed ?E m"
    using s(2) by (auto simp: replayed_def m set_exchange_def nth_append less_Suc_eq)
  ultimately show ?thesis by (intro simulatedI [of C "[]" ?s]) simp_all
qed

text \<open>The turn ends, or the loop returns.\<close>

lemma simulated_done:
  assumes sim: "simulated C D chk p w" and ag: "agrees w" and w: "phase w = Running (Done r)"
    and ph: "(\<exists>n. r = Ok n \<and> ph = AtTop n) \<or> (\<exists>x. r = Err x \<and> ph = Ended (Err x)) \<or> (\<exists>x. r = Panic x \<and> ph = Ended (Panic x))"
  shows "simulated C D chk p (w\<lparr>phase := ph\<rparr>)"
proof -
  from sim obtain k E s os where s: "mirrors C os s (machine w)" "replayed E (machine w)" "at_phase C D chk p k E s w"
    unfolding simulated_def by blast
  have ended: "loop_alone C D chk p (Suc k) E = act_lift r s"
    using s(3) w by (cases "loop_at (machine w) = LoopFailed") (simp_all add: at_phase_def Let_def)
  have next_turn: "loop_alone C D chk p (Suc k) E' = act_lift r s"
    if "is_ok r" "same_world (Suc k) (Suc k) (length (exchanges (machine w))) (length (exchanges (machine w))) E E'" for E'
    using s(3) ag w that by (auto simp: at_phase_def Let_def agrees_def)
  have "\<exists>k. at_phase C D chk p k E s (w\<lparr>phase := ph\<rparr>)"
    using ph
  proof (elim disjE exE conjE)
    fix n assume "r = Ok n" "ph = AtTop n"
    then have "at_phase C D chk p (Suc k) E s (w\<lparr>phase := ph\<rparr>)"
      using next_turn by (simp add: at_phase_def Let_def act_lift_def)
    then show ?thesis ..
  qed (use ended in \<open>auto simp: at_phase_def Let_def act_lift_def\<close>)
  with s(1,2) show ?thesis unfolding simulated_def by fastforce
qed

lemma simulated_put:
  assumes sim: "simulated C D chk p w" and w: "phase w = Waiting q" and m: "main_put (machine w) = Some m" "loop_at m \<noteq> LoopFailed"
  shows "simulated C D chk p (w\<lparr>machine := m\<rparr>)"
proof -
  from sim obtain k E s os where s: "mirrors C os s (machine w)" "replayed E (machine w)" "at_phase C D chk p k E s w"
    unfolding simulated_def by blast
  from m(1) show ?thesis
  proof (rule main_put_cases)
    fix ch buf
    assume m: "loop_at (machine w) = LoopPutting ch buf"
      "m = (machine w)\<lparr>loop_at := LoopWaiting ch buf, commands := commands (machine w) @ [SendMsg Control buf (Some ch)]\<rparr>"
    have "at_phase C D chk p k E s (w\<lparr>machine := m\<rparr>)" using s(3) w m by (simp add: at_phase_def Let_def)
    moreover have "mirrors C os s m" "replayed E m" using s(1,2) m by (simp_all add: mirrors_def replayed_def)
    ultimately show ?thesis by (intro simulatedI [of C os s _ E]) simp_all
  qed (use m(2) in simp)
qed

lemma simulated_step:
  assumes sim: "simulated C D chk p w" and ag: "agrees w" and ex: "run_exec C env D chk p e w = Some w'"
  shows "simulated C D chk p w'"
  using ex
proof (cases rule: run_exec_cases)
  case (background m e')
  show ?thesis unfolding background(3) by (rule simulated_background [OF sim ag background(2,1)])
next
  case (swap n m)
  have "loop_at (machine w) = LoopIdle" using ag swap(1) by (simp add: agrees_def)
  from simulated_swap [OF sim swap(1) this swap(2,3)] show ?thesis .
next
  case (wake n)
  have "loop_at (machine w) = LoopIdle" using ag wake(1) by (simp add: agrees_def)
  from simulated_wake [OF sim wake(1) this] show ?thesis unfolding wake(2) .
next
  case (ask q k' m)
  show ?thesis unfolding ask(3) by (rule simulated_ask [OF sim ask(1,2)])
next
  case (next_turn n)
  show ?thesis unfolding next_turn(2) by (rule simulated_done [OF sim ag next_turn(1)]) simp
next
  case (ended r r')
  show ?thesis unfolding ended(2) by (rule simulated_done [OF sim ag ended(1)]) (use ended(3) in auto)
next
  case (put k' m)
  show ?thesis unfolding put(4) by (rule simulated_put [OF sim put(1-3)])
next
  case (put_failed k' m)
  have "exchanges m = exchanges (machine w)" using put_failed(2) by (rule main_put_cases) simp_all
  then show ?thesis unfolding put_failed(4) by (rule simulated_failed [OF sim ag put_failed(1,3)])
next
  case (take k' m)
  from take(2) show ?thesis
    by (rule main_receive_cases) (use take(3) simulated_take [OF sim take(1)] in \<open>simp_all add: take(4)\<close>)
next
  case (take_failed k' m)
  have "exchanges m = exchanges (machine w)"
    using take_failed(2) by (rule main_receive_cases) (use take_failed(3) in simp_all)
  then show ?thesis unfolding take_failed(4) by (rule simulated_failed [OF sim ag take_failed(1,3)])
qed

lemma run_reachable_simulated: "run_reachable C env D chk p w \<Longrightarrow> simulated C D chk p w"
proof (induction rule: run_reachable.induct)
  case start
  show ?case
    by (rule simulatedI [of C "[]" "\<lparr>ctx = main_context, sent = []\<rparr>" _ undefined _ _ _ 0])
      (simp_all add: mirrors_def replayed_def at_phase_def bus_run_init_def bus_main_init_def run_bus_owner_loop_def
        act_lift_def)
next
  case (step w e w')
  show ?case by (rule simulated_step [OF step.IH run_reachable_agrees [OF step.hyps(1)] step.hyps(2)])
qed

end

section \<open>Properties\<close>

text \<open>
  C7: take any state that the whole program reaches, with its reader, its
  dispatcher and its loop interleaved in any way. There is a world in which the loop by itself
  gets there: at the top of a turn it has the same next identifier, it has sent exactly the
  requests that were answered, and its endpoint is the one of the program but for requests of
  others handled since; when \<open>main\<close> has returned, the loop by itself ends with the same error or
  panic. The world's replies are the ones the program received.
\<close>

theorem run_refines_loop:
  assumes "crates_spec C" "run_reachable C env D chk ping w"
  shows "\<exists>E k s os.
    (let xs = exchanges (machine w);
         alone = (\<lambda>n. run_bus_owner_loop C E D chk ping n \<lparr>ctx = main_context, sent = []\<rparr>) in
     (case phase w of
        AtTop n \<Rightarrow> alone k = (Ok n, s) \<and> sent s = map fst xs \<and> endpoint (machine w) = others_handled C os (ctx s)
      | Ended (Err e) \<Rightarrow> alone k = (Err e, s)
      | Ended (Panic e) \<Rightarrow> alone k = (Panic e, s)
      | Ended (Ok u) \<Rightarrow> False
      | _ \<Rightarrow> True) \<and>
     (\<forall>i < length xs. \<exists>ps. exchange_env E (map fst (take i xs)) (fst (xs ! i)) = (ps, Replied (Inr (snd (xs ! i))))))"
proof -
  obtain k E s os where s: "mirrors C os s (machine w)" "replayed E (machine w)" "at_phase C D chk ping k E s w"
    using crates_spec.run_reachable_simulated [OF assms] unfolding simulated_def by blast
  note ag = crates_spec.run_reachable_agrees [OF assms]
  show ?thesis
  proof (cases "phase w")
    case (AtTop n)
    then have "loop_alone C D chk ping k E = (Ok n, s)" using s(3) by (simp add: at_phase_def Let_def)
    moreover have "loop_at (machine w) \<noteq> LoopFailed" using ag AtTop by (simp add: agrees_def)
    ultimately show ?thesis
      using AtTop s(1,2) unfolding mirrors_def replayed_def Let_def by (intro exI [of _ E] exI [of _ k] exI [of _ s] exI [of _ os]) simp
  next
    case (Ended r)
    then show ?thesis
      using s(2,3) unfolding replayed_def Let_def
      by (intro exI [of _ E] exI [of _ "Suc k"] exI [of _ s] exI [of _ os]) (cases r; simp add: at_phase_def Let_def)
  qed (use s(2) in \<open>unfold replayed_def Let_def, intro exI [of _ E] exI [of _ k] exI [of _ s] exI [of _ os], simp\<close>)+
qed

theorem run_refines_loop_witness:
  "\<exists>w E k s. run_reachable std_crates demo_socket plain_texts True 0 w \<and>
     run_bus_owner_loop std_crates E plain_texts True 0 k \<lparr>ctx = main_context, sent = []\<rparr> = (Ok 0x81, s) \<and>
     sent s = map fst (exchanges (machine w)) \<and> ranges std_crates (sent s) = [(0x80, 0x81)]"
proof -
  from std.discovery_run [where env = demo_socket and env' = demo_socket and D = plain_texts and chk = True and p = 0
      and chk' = True, OF demo_notify demo_socket_sends demo_socket_sends] obtain es w where
    w: "run_run std_crates demo_socket plain_texts True 0 es bus_run_init = Some w" "phase w = AtTop 0x81"
      "ranges std_crates (loop_requests (machine w)) = [(0x80, 0x81)]" by blast
  have reach: "run_reachable std_crates demo_socket plain_texts True 0 w"
    by (rule run_run_reachable [OF run_reachable.start w(1)])
  have "loop_requests (machine w) = map fst (exchanges (machine w))"
    using std.run_reachable_agrees [OF reach] w(2) by (simp add: agrees_def loop_requests_def)
  moreover from run_refines_loop [OF std_crates_spec reach] w(2) obtain E k s where
    "run_bus_owner_loop std_crates E plain_texts True 0 k \<lparr>ctx = main_context, sent = []\<rparr> = (Ok 0x81, s)"
    "sent s = map fst (exchanges (machine w))" by (auto simp: Let_def)
  ultimately show ?thesis
    using w(3) reach by (intro exI [of _ w] exI [of _ E] exI [of _ k] exI [of _ s]) simp
qed

end
