(* ===== verification/Derive.thy ===== *)
theory Derive
  imports SetEid GetEid AllocateEids RoutingTable Smbus
begin

text \<open>
  What the derive macros of \<open>mctp-emu-derive/src/lib.rs\<close> generate for a structure, as a record
  of its conversions, and the thirteen structures of the workspace they are applied to. The
  contract \<open>codec\<close> makes every set of conversions well typed.
\<close>

section \<open>The generated implementations\<close>

text \<open>\<open>FromBinary\<close>: \<open>From\<close> into the two byte types, \<open>TryFrom\<close> of either.\<close>

record 'a binary_impl =
  bin_into_vec :: "'a \<Rightarrow> bytes"
  bin_into_bytes :: "'a \<Rightarrow> bytes"
  bin_try_from_vec :: "bytes \<Rightarrow> (mctp_base_lib_error, 'a) res"
  bin_try_from_bytes :: "bytes \<Rightarrow> (mctp_base_lib_error, 'a) res"

text \<open>
  \<open>ser\<close> and \<open>de\<close> are the \<open>Serialize\<close> and \<open>Deserialize\<close> that \<open>add_binary_derives\<close> asks for in
  front. The \<open>unwrap\<close> of \<open>bincode::serialize\<close> cannot fail into a vector.
\<close>

definition from_binary_try_from_vec ::
  "crates \<Rightarrow> nat \<Rightarrow> (bytes \<Rightarrow> ('a \<times> bytes) option) \<Rightarrow> bytes \<Rightarrow> (mctp_base_lib_error, 'a) res" where
  "from_binary_try_from_vec C struct_size de vec =
     (if length vec < struct_size
      then Err (InvalidPayloadSize (to_string struct_size) (to_string (length vec)))
      else bincode_deserialize C de vec)"

definition derive_from_binary ::
  "crates \<Rightarrow> nat \<Rightarrow> ('a \<Rightarrow> bytes) \<Rightarrow> (bytes \<Rightarrow> ('a \<times> bytes) option) \<Rightarrow> 'a binary_impl" where
  "derive_from_binary C struct_size ser de =
     \<lparr>bin_into_vec = ser, bin_into_bytes = ser,
      bin_try_from_vec = from_binary_try_from_vec C struct_size de,
      bin_try_from_bytes = from_binary_try_from C struct_size de\<rparr>"

text \<open>\<open>FromControlPayload\<close>: \<open>From\<close> into the byte types, \<open>TryFrom\<close> of bytes and of a payload.\<close>

record 'a payload_impl =
  msg_into_vec :: "'a \<Rightarrow> bytes"
  msg_into_bytes :: "'a \<Rightarrow> bytes"
  msg_try_from_bytes :: "bytes \<Rightarrow> (mctp_base_lib_error, 'a) res"
  msg_try_from_payload :: "control_payload \<Rightarrow> (mctp_base_lib_error, 'a) res"

definition derive_from_control_payload ::
  "crates \<Rightarrow> nat \<Rightarrow> ('a \<Rightarrow> bytes) \<Rightarrow> (bytes \<Rightarrow> ('a \<times> bytes) option) \<Rightarrow> 'a payload_impl" where
  "derive_from_control_payload C struct_size ser de =
     \<lparr>msg_into_vec = ser, msg_into_bytes = ser,
      msg_try_from_bytes = from_control_payload_try_from C struct_size de,
      msg_try_from_payload = try_from_control_payload C struct_size de\<rparr>"

text \<open>\<open>AddControlMsgResponse\<close>: the trait \<open>ControlMsgReponseStatus\<close>, from the completion code of a response.\<close>

record 'a response_status_impl =
  status_completion_code :: "'a \<Rightarrow> completion_code"
  status_is_success :: "'a \<Rightarrow> (anyhow, unit) res"

definition derive_response_status :: "crates \<Rightarrow> ('a \<Rightarrow> u8) \<Rightarrow> 'a response_status_impl" where
  "derive_response_status C code =
     \<lparr>status_completion_code = (\<lambda>x. response_completion_code C (code x)),
      status_is_success = (\<lambda>x. response_is_success C (code x))\<rparr>"

section \<open>The structures\<close>

definition transport_header_impl :: "crates \<Rightarrow> transport_header binary_impl" where
  "transport_header_impl C =
     derive_from_binary C transport_header_size (transport_header_ser C) (transport_header_de C)"

definition control_msg_header_impl :: "crates \<Rightarrow> control_msg_header binary_impl" where
  "control_msg_header_impl C =
     derive_from_binary C control_msg_header_size (control_msg_header_ser C) (control_msg_header_de C)"

definition smbus_header_impl :: "crates \<Rightarrow> smbus_phys_transport_header binary_impl" where
  "smbus_header_impl C =
     derive_from_binary C smbus_header_size (smbus_header_ser C) (smbus_header_de C)"

definition empty_request_impl :: "crates \<Rightarrow> empty_request payload_impl" where
  "empty_request_impl C =
     derive_from_control_payload C empty_request_size (empty_request_ser C) (empty_request_de C)"

definition empty_response_impl :: "crates \<Rightarrow> empty_response payload_impl" where
  "empty_response_impl C =
     derive_from_control_payload C empty_response_size (empty_response_ser C) (empty_response_de C)"

definition set_eid_request_impl :: "crates \<Rightarrow> set_eid_request payload_impl" where
  "set_eid_request_impl C =
     derive_from_control_payload C set_eid_request_size (set_eid_request_ser C) (set_eid_request_de C)"

definition set_eid_response_impl :: "crates \<Rightarrow> set_eid_response payload_impl" where
  "set_eid_response_impl C =
     derive_from_control_payload C set_eid_response_size (set_eid_response_ser C) (set_eid_response_de C)"

definition get_eid_request_impl :: "crates \<Rightarrow> get_eid_request payload_impl" where
  "get_eid_request_impl C =
     derive_from_control_payload C get_eid_request_size (get_eid_request_ser C) (get_eid_request_de C)"

definition get_eid_response_impl :: "crates \<Rightarrow> get_eid_response payload_impl" where
  "get_eid_response_impl C =
     derive_from_control_payload C get_eid_response_size (get_eid_response_ser C) (get_eid_response_de C)"

definition allocate_request_impl :: "crates \<Rightarrow> allocate_request payload_impl" where
  "allocate_request_impl C =
     derive_from_control_payload C allocate_request_size (allocate_request_ser C) (allocate_request_de C)"

definition allocate_response_impl :: "crates \<Rightarrow> allocate_response payload_impl" where
  "allocate_response_impl C =
     derive_from_control_payload C allocate_response_size (allocate_response_ser C) (allocate_response_de C)"

definition routing_table_request_impl :: "crates \<Rightarrow> routing_table_request payload_impl" where
  "routing_table_request_impl C =
     derive_from_control_payload C routing_table_request_size (routing_table_request_ser C) (routing_table_request_de C)"

definition routing_table_response_impl :: "crates \<Rightarrow> routing_table_response payload_impl" where
  "routing_table_response_impl C =
     derive_from_control_payload C routing_table_response_size (routing_table_response_ser C) (routing_table_response_de C)"

text \<open>Into a vector, a control payload goes through \<open>Bytes\<close>.\<close>

definition control_payload_to_vec :: "crates \<Rightarrow> control_payload \<Rightarrow> bytes" where
  "control_payload_to_vec C t = (let bytes = control_payload_to_bytes C t in bytes)"

section \<open>What it means for conversions to be well typed\<close>

text \<open>
  \<open>into\<close> maps a value whose bit field arrays have the lengths of the structure to \<open>sz\<close> bytes,
  and \<open>try_from\<close> maps bytes to such a value, or to the size error if there are too few. What
  it makes of any bytes it makes of their first \<open>sz\<close> alone, and it inverts \<open>into\<close>.
\<close>

definition typed_conversion ::
  "nat \<Rightarrow> ('a \<Rightarrow> bool) \<Rightarrow> ('a \<Rightarrow> bytes) \<Rightarrow> (bytes \<Rightarrow> (mctp_base_lib_error, 'a) res) \<Rightarrow> bool" where
  "typed_conversion sz ok into try_from \<longleftrightarrow>
     (\<forall>x r. ok x \<longrightarrow> length (into x) = sz \<and> try_from (into x @ r) = Ok x) \<and>
     (\<forall>bs. if length bs < sz
           then try_from bs = Err (InvalidPayloadSize (to_string sz) (to_string (length bs)))
           else \<exists>x. ok x \<and> try_from bs = Ok x \<and> try_from (take sz bs) = Ok x)"

definition typed_binary :: "nat \<Rightarrow> ('a \<Rightarrow> bool) \<Rightarrow> 'a binary_impl \<Rightarrow> bool" where
  "typed_binary sz ok i \<longleftrightarrow>
     typed_conversion sz ok (bin_into_bytes i) (bin_try_from_bytes i) \<and>
     typed_conversion sz ok (bin_into_vec i) (bin_try_from_vec i)"

definition typed_message :: "nat \<Rightarrow> ('a \<Rightarrow> bool) \<Rightarrow> 'a payload_impl \<Rightarrow> bool" where
  "typed_message sz ok i \<longleftrightarrow>
     typed_conversion sz ok (msg_into_bytes i) (msg_try_from_bytes i) \<and>
     typed_conversion sz ok (msg_into_vec i) (msg_try_from_bytes i) \<and>
     (\<forall>p. msg_try_from_payload i p = msg_try_from_bytes i (payload p))"

lemma vec_eq_bytes: "from_binary_try_from_vec = from_binary_try_from"
  by (intro ext) (simp add: from_binary_try_from_vec_def from_binary_try_from_def)

lemma codec_typed:
  assumes "codec enc dec sz ok"
  shows "typed_conversion sz ok enc (from_binary_try_from C sz dec)"
  using codec.try_from_short [OF assms, of _ C] codec.try_from_long [OF assms, of _ C]
    codec.try_from_enc [OF assms, of _ C] codec.enc_length [OF assms] codec.try_from_take [OF assms, of _ C]
  by (auto simp: typed_conversion_def not_less)

lemma derived_typed:
  assumes "codec enc dec sz ok"
  shows "typed_binary sz ok (derive_from_binary C sz enc dec)"
    and "typed_message sz ok (derive_from_control_payload C sz enc dec)"
  using codec_typed [OF assms, of C]
  by (simp_all add: typed_binary_def typed_message_def derive_from_binary_def derive_from_control_payload_def
      vec_eq_bytes control_payload_eq_binary try_from_control_payload_eq)

context crates_spec
begin

lemmas binary_impls_typed =
  derived_typed(1) [OF th.codec_axioms, of C] derived_typed(1) [OF ctrl.codec_axioms, of C]
  derived_typed(1) [OF smb.codec_axioms, of C]

lemmas message_impls_typed =
  derived_typed(2) [OF ereq.codec_axioms, of C] derived_typed(2) [OF eresp.codec_axioms, of C]
  derived_typed(2) [OF seteid_req.codec_axioms, of C] derived_typed(2) [OF seteid_resp.codec_axioms, of C]
  derived_typed(2) [OF geteid_req.codec_axioms, of C] derived_typed(2) [OF geteid_resp.codec_axioms, of C]
  derived_typed(2) [OF alloc_req.codec_axioms, of C] derived_typed(2) [OF alloc_resp.codec_axioms, of C]
  derived_typed(2) [OF rt_req.codec_axioms, of C] derived_typed(2) [OF rt_resp.codec_axioms, of C]

lemma response_status:
  "status_is_success (derive_response_status C code) x = Ok () \<longleftrightarrow>
    status_completion_code (derive_response_status C code) x = Success"
  by (simp add: derive_response_status_def response_is_success_def response_completion_code_def)

lemma structures_typed:
  "typed_binary 4 wf_transport_header (transport_header_impl C)"
  "typed_binary 3 wf_control_msg_header (control_msg_header_impl C)"
  "typed_binary 4 (\<lambda>_. True) (smbus_header_impl C)"
  "typed_message 3 wf_empty_request (empty_request_impl C)"
  "typed_message 4 wf_empty_response (empty_response_impl C)"
  "typed_message 5 wf_set_eid_request (set_eid_request_impl C)"
  "typed_message 7 wf_set_eid_response (set_eid_response_impl C)"
  "typed_message 3 wf_get_eid_request (get_eid_request_impl C)"
  "typed_message 7 wf_get_eid_response (get_eid_response_impl C)"
  "typed_message 6 wf_allocate_request (allocate_request_impl C)"
  "typed_message 7 wf_allocate_response (allocate_response_impl C)"
  "typed_message 4 wf_routing_table_request (routing_table_request_impl C)"
  "typed_message 6 wf_routing_table_response (routing_table_response_impl C)"
  using binary_impls_typed message_impls_typed
  by (simp_all only: transport_header_impl_def control_msg_header_impl_def smbus_header_impl_def
      empty_request_impl_def empty_response_impl_def set_eid_request_impl_def set_eid_response_impl_def
      get_eid_request_impl_def get_eid_response_impl_def allocate_request_impl_def allocate_response_impl_def
      routing_table_request_impl_def routing_table_response_impl_def
      transport_header_size_def control_msg_header_size_def smbus_header_size_def empty_request_size_def
      empty_response_size_def set_eid_request_size_def set_eid_response_size_def get_eid_request_size_def
      get_eid_response_size_def allocate_request_size_def allocate_response_size_def
      routing_table_request_size_def routing_table_response_size_def)

end

section \<open>Properties\<close>



end
