(* ===== verification/UnitTests.thy ===== *)
theory UnitTests
  imports Derive
begin

text \<open>
  The unit tests of the repository, run on the model: each is the conjunction of its
  assertions. The first test of \<open>control.rs\<close> is missing: it names a variable that does not
  exist.
\<close>

section \<open>The tests\<close>

definition serialize_completion_code :: "crates \<Rightarrow> completion_code \<Rightarrow> bytes" where
  "serialize_completion_code C = serialize_u8_enum C completion_code_to_u8"

definition deserialize_completion_code :: "crates \<Rightarrow> bytes \<Rightarrow> (mctp_base_lib_error, completion_code) res" where
  "deserialize_completion_code C = bincode_deserialize C (deserialize_u8_enum C (completion_code_from_u8 C))"

definition test_completion_code_serialize :: "crates \<Rightarrow> bool" where
  "test_completion_code_serialize C \<longleftrightarrow> serialize_completion_code C ErrorInvalidLength = [3]"

definition test_completion_code_known_u8_deserialize :: "crates \<Rightarrow> bool" where
  "test_completion_code_known_u8_deserialize C \<longleftrightarrow> deserialize_completion_code C [2] = Ok ErrorInvalidData"

definition test_completion_code_unknown_u8_deserialize :: "crates \<Rightarrow> bool" where
  "test_completion_code_unknown_u8_deserialize C \<longleftrightarrow> deserialize_completion_code C [0x55] = Ok ErrorUnsupportedCmd"

definition test_completion_code_from_u8 :: "crates \<Rightarrow> bool" where
  "test_completion_code_from_u8 C \<longleftrightarrow>
     completion_code_from_u8 C 0 = Success \<and> completion_code_from_u8 C 1 = Error \<and>
     completion_code_from_u8 C 5 = ErrorUnsupportedCmd \<and> completion_code_from_u8 C 0x55 = ErrorUnsupportedCmd"

definition test_EmptyResponse_to_Bytes :: "crates \<Rightarrow> bool" where
  "test_EmptyResponse_to_Bytes C \<longleftrightarrow>
     (let ctrl_hdr = control_msg_header_new C DiscoveryNotify 0 False False False;
          ctrl_hdr_bytes = bin_into_bytes (control_msg_header_impl C) ctrl_hdr;
          resp = empty_response_new ctrl_hdr (completion_code_to_u8 Success);
          bytes = msg_into_bytes (empty_response_impl C) resp
      in length ctrl_hdr_bytes = 3 \<and> length bytes = 4)"

definition test_EmptyResponse_try_from_Bytes :: "crates \<Rightarrow> bool" where
  "test_EmptyResponse_try_from_Bytes C \<longleftrightarrow>
     (let ctrl_hdr = control_msg_header_new C DiscoveryNotify 0 False False False;
          ctrl_hdr_bytes = bin_into_bytes (control_msg_header_impl C) ctrl_hdr;
          resp = empty_response_new ctrl_hdr (completion_code_to_u8 Success);
          bytes = msg_into_bytes (empty_response_impl C) resp
      in length ctrl_hdr_bytes = 3 \<and> length bytes = 4)"

definition test_invalid_address :: bool where
  "test_invalid_address \<longleftrightarrow>
     (case validate_smbus_address 0x86 of Err (EmuPhys err) \<Rightarrow> True | _ \<Rightarrow> False)"

context crates_spec
begin

lemma completion_codes:
  "completion_code_from_u8 C 0 = Success" "completion_code_from_u8 C 1 = Error"
  "completion_code_from_u8 C 2 = ErrorInvalidData" "completion_code_from_u8 C 5 = ErrorUnsupportedCmd"
  "completion_code_from_u8 C 0x55 = ErrorUnsupportedCmd"
proof -
  show "completion_code_from_u8 C 0 = Success" "completion_code_from_u8 C 1 = Error"
    "completion_code_from_u8 C 2 = ErrorInvalidData" "completion_code_from_u8 C 5 = ErrorUnsupportedCmd"
    using completion_code_enum.from_to [of Success] completion_code_enum.from_to [of Error]
      completion_code_enum.from_to [of ErrorInvalidData] completion_code_enum.from_to [of ErrorUnsupportedCmd]
    by simp_all
  have "0x55 \<notin> completion_code_to_u8 ` set completion_code_variants" by (simp add: completion_code_variants_def)
  then show "completion_code_from_u8 C 0x55 = ErrorUnsupportedCmd"
    using completion_code_enum.from_unknown by (simp add: completion_code_default_def)
qed

lemma unit_tests:
  "test_completion_code_serialize C" "test_completion_code_known_u8_deserialize C"
  "test_completion_code_unknown_u8_deserialize C" "test_completion_code_from_u8 C"
  "test_EmptyResponse_to_Bytes C" "test_EmptyResponse_try_from_Bytes C" "test_invalid_address"
proof -
  show "test_completion_code_serialize C"
    by (simp add: test_completion_code_serialize_def serialize_completion_code_def codec_simps)
  show "test_completion_code_known_u8_deserialize C" "test_completion_code_unknown_u8_deserialize C"
    by (simp_all add: test_completion_code_known_u8_deserialize_def test_completion_code_unknown_u8_deserialize_def
        deserialize_completion_code_def bincode_deserialize_def codec_simps completion_codes)
  show "test_completion_code_from_u8 C" by (simp add: test_completion_code_from_u8_def completion_codes)
  let ?h = "control_msg_header_new C DiscoveryNotify 0 False False False"
  have "wf_control_msg_header ?h" "wf_empty_response (empty_response_new ?h (completion_code_to_u8 Success))"
    by (simp_all add: control_new_wf wf_empty_response_def empty_response_new_def)
  with structures_typed(2,5) show "test_EmptyResponse_to_Bytes C" "test_EmptyResponse_try_from_Bytes C"
    by (simp_all add: test_EmptyResponse_to_Bytes_def test_EmptyResponse_try_from_Bytes_def typed_binary_def typed_message_def typed_conversion_def)
  show "test_invalid_address" by (simp add: test_invalid_address_def validate_smbus_address_def)
qed

end

end
