(* ===== verification/Spec2Isabelle.thy ===== *)
theory Spec2Isabelle
  imports Medium NetTrait BusRefine UnitTests
begin

text \<open>
  A verification development of \<open>mctp-emu\<close>, a Rust workspace that emulates MCTP (DSP0236)
  endpoints over SMBus frames in UDP datagrams. It has three crates: \<open>mctp-emu-derive\<close> (derive
  macros), \<open>mctp-base-lib\<close> (the wire formats of the transport header and of the control
  messages), and \<open>mctp-emu\<close> (networks, sockets, the SMBus binding), with example programs. Paths
  below are relative to the repository.

  \<^bold>\<open>How the parts interact.\<close> A client opens a socket of a network, binds it and calls \<open>sendto\<close>.
  The network puts a transport header in front of the payload, records a flow under the header's
  tag, and hands the packet to a physical binding, which frames it and sends it as a datagram.
  The binding's poll task forwards received datagrams to the network's callback handler, which
  looks for the flow a packet answers and completes the call that waits on it. The bus owner of
  the example has its own reader, dispatcher and table of pending commands; it answers control
  requests and runs a discovery loop that hands out endpoint identifiers.

  \<^bold>\<open>Foundations.\<close>
  \<^item> \<open>Prelude\<close>: machine integers as words, the outcome of a Rust function (\<open>Ok\<close>, \<open>Err\<close> or a
    panic), arithmetic with the overflow rule of the build as the argument \<open>chk\<close>, slices.
  \<^item> \<open>Errors\<close>: the error enumerations of the crates (\<open>base/errors.rs\<close>, \<open>src/lib.rs\<close> and the
    \<open>error.rs\<close> files), with the messages of an \<open>anyhow\<close> chain.
  \<^item> \<open>Crates\<close>: what the code uses of third-party crates (bit fields, \<open>bincode\<close>, \<open>num_enum\<close>,
    \<open>smbus_pec\<close>, renderings of errors) as the record \<open>crates\<close>, an argument \<open>C\<close> of every
    definition that calls it. The locale \<open>crates_spec\<close> states their documented behaviour;
    \<open>std_crates\<close> is an implementation that satisfies it, and the witnesses use it.
  \<^item> \<open>Codec\<close>: the conversions \<open>mctp-emu-derive/src/lib.rs\<close> generates. The locales \<open>codec\<close> and
    \<open>exact_codec\<close> are their contract; every message theory interprets them.

  \<^bold>\<open>Wire formats.\<close> \<open>Enums\<close> (\<open>control/enums.rs\<close>), \<open>Transport\<close> (\<open>base/models.rs\<close>), \<open>Control\<close>
  and \<open>Payload\<close> (\<open>control/models.rs\<close>, \<open>control.rs\<close>), \<open>SetEid\<close>, \<open>GetEid\<close>, \<open>AllocateEids\<close>,
  \<open>RoutingTable\<close> (the files of \<open>control/\<close> of those names). A structure is a record with the bit
  field bytes the struct has; getters and setters read and write bits of them; \<open>_new\<close>, \<open>_from\<close>,
  \<open>_ser\<close>, \<open>_de\<close> and \<open>_try_from\<close> are the constructors, the derived serialization and the
  conversion from bytes. The lemmas are round trips, exact failure conditions and the value of
  every field. \<open>Derive\<close> collects what the macros generate for each of the thirteen structures as a
  record of conversions and shows all of them well typed; \<open>UnitTests\<close> runs the unit tests of the
  repository on the model.

  \<^bold>\<open>Flows and networks.\<close>
  \<^item> \<open>Flows\<close> (\<open>endpoint/types.rs\<close>, \<open>create_tag\<close> and the scan of \<open>callback_handler\<close>): tags, the
    flow table with its contract as the locale \<open>flow_table\<close>, and a reference search the scan is
    equal to.
  \<^item> \<open>NetTypes\<close> (\<open>network/types.rs\<close>): addresses, clients, routes; the trait \<open>NetworkBinding\<close> as
    the record \<open>binding_ops\<close> with the locale \<open>network_binding\<close>; the locale \<open>socket_layer\<close> of
    what both networks do with sockets.
  \<^item> \<open>Smbus\<close> (\<open>phys/smbus_types.rs\<close>, \<open>phys/smbus_netdev.rs\<close>): header, frame, \<open>transmit\<close>,
    \<open>bind\<close>, \<open>poll_socket\<close>; an interpretation of \<open>network_binding\<close>. The socket's log holds every
    datagram it was given with its answer, and \<open>smbus_wire\<close> what it did not refuse.
  \<^item> \<open>SimpleNet\<close> (\<open>network/simple_network.rs\<close>): the operations of \<open>SimpleNetwork\<close> and a turn of
    the callback handler. \<open>SimpleRuns\<close> cuts \<open>sendto\<close> at its \<open>await\<close> points and interleaves calls,
    handler and binding: \<open>sn_exec\<close> is one event, \<open>sn_reachable\<close> the reachable states, with
    invariants of the flow table, the calls, the lock and the faults. \<open>SimpleProps\<close>, \<open>SimpleWire\<close>
    and \<open>Service\<close> hold what follows: responses reach the call they answer (a packet too short for
    a header goes to a request with tag 0 to endpoint 0), one request is on the wire at a time,
    what is waited for was sent, the handler drains its queue and survives unless a call fails,
    and every event refines the abstract service \<open>service_step\<close>.
  \<^item> \<open>VirtualNet\<close> (\<open>network/virtual_network.rs\<close>): the operations of \<open>VirtualNetwork\<close>, whose
    \<open>sendto\<close> is unfinished. \<open>NetTrait\<close>: the trait \<open>MctpNetwork\<close> as the record \<open>mctp_network_ops\<close>
    with the locale \<open>mctp_network\<close>, interpreted for both networks, and the comparison of the two.

  \<^bold>\<open>The example programs.\<close>
  \<^item> \<open>BusOwner\<close> (\<open>examples/basic_bus_owner_loop.rs\<close>): the endpoint, \<open>handle_request\<close> with all
    its arms, and the dispatcher's work on a command.
  \<^item> \<open>BusLoop\<close>: \<open>run_bus_owner_loop\<close> and the functions it calls, as tasks: the code between two
    \<open>await\<close> points is evaluated, an exchange is a node with a continuation. \<open>perform\<close> runs a task
    by itself in an environment that answers its requests; \<open>perform_bind\<close> and \<open>perform_result\<close>
    are its laws.
  \<^item> \<open>BusProps\<close>: the answers of the endpoint, what a task hands out whatever its exchanges come to
    (\<open>hands_out\<close>), the discovery of a device that runs the same endpoint, and how its turns go
    past the end of the pool.
  \<^item> \<open>BusMain\<close>: the tasks of \<open>main\<close> that serve the loop (reader, dispatcher) and the loop's use
    of the command channel and the reply channels, interleaved. The exchanges of the loop refine
    the sequential \<open>send_and_decode\<close>; what can end the reader and the dispatcher.
  \<^item> \<open>BusRun\<close>: the whole of \<open>main\<close>, these tasks beside the code of the loop; every run is a run of
    \<open>BusMain\<close>, the identifiers handed out never overlap, and the program is never stuck.
    \<open>BusPeer\<close>: a run of two such programs on one bus, from the notification of a device to its
    identifier.
    \<open>BusRefine\<close>: every run of the whole program is simulated by the loop alone, in a world that
    is decided step by step (\<open>same_world\<close>, \<open>simulated\<close>).
  \<^item> \<open>Client\<close> (\<open>examples/example_simple_network.rs\<close>): the client program, and the exchange of the
    two programs.
  \<^item> \<open>Medium\<close>: the two programs and the datagrams between them as one system, \<open>system_exec\<close>. A
    side receives only what the other has sent, as often as the medium likes and in any order.
    \<open>owner_inv\<close> and \<open>client_inv\<close> say where every frame and every received packet comes from; with
    \<open>program_inv\<close> they give the result of the client program in every interleaving.

  \<^bold>\<open>Bounds.\<close> The scan of the flow table terminates by the measure \<open>length - index\<close>. The discovery
  loop has no end in the code: \<open>run_bus_owner_loop\<close> runs a given number of turns, and its lemmas
  hold for every number. \<open>poll_socket\<close> runs over the list of results of its calls of \<open>recv_from\<close>.
  The tasks are step functions, so no fuel is needed: a property speaks about every finite
  sequence of events. The two command channels hold 32 messages, as in the code.

  \<^bold>\<open>Not modelled.\<close> \<open>hex_dump.rs\<close>, tracing and \<open>println!\<close> are output. The token handling of the
  derive macros runs in the compiler; what they generate is modelled. The unit tests of
  \<open>control.rs\<close> do not compile. \<open>SockAddrMctp\<close>, \<open>SockAddrMctpExt\<close>, \<open>MctpAddr\<close>, \<open>MctpSenderCommand\<close> and the
  trait \<open>NetDevice\<close> are used by nothing and appear as data only; \<open>mctp_tx_thread\<close>, called by
  nothing, is left out. \<open>examples/example_virtual_network.rs\<close> does not fit the interface it calls. UDP sockets are
  parameters: their results are arguments, no property assumes that a datagram arrives, and those
  that take every datagram to be sent in full say so. Time is not modelled; a sleep is a point where the
  other tasks may step.
\<close>

section \<open>Properties\<close>

text \<open>
  C8: the client of \<open>example_simple_network.rs\<close> and the bus owner of
  \<open>basic_bus_owner_loop.rs\<close>, each on a socket that takes every datagram. The client's
  \<open>sendto\<close> puts the same datagram on the wire twice; the bus owner, just started, answers each
  with the same frame and is unchanged; with both frames delivered, the client's \<open>main\<close> ends
  with the response, which decodes to a successful Get Endpoint ID response with identifier 0.
\<close>

theorem client_reaches_bus_owner:
  assumes "crates_spec C" "\<And>log f. env log f = Inr (length f)" "\<And>log f. env' log f = Inr (length f)"
  shows "\<exists>w0 w m f result p x. client_setup C env chk (Inr ()) (Inr ()) = Ok (0, w0) \<and>
    sn_run C (smbus_ops C env) chk [Sendto 0 (drop 4 (client_request C)) client_dest, Transmit 0] w0 = Some w \<and>
    smbus_wire (binding_of w 0) = [client_datagram C, client_datagram C] \<and>
    main_run C env' chk' [Datagram (Inr (client_datagram C)), Datagram (Inr (client_datagram C)), Dispatch, Dispatch]
      bus_main_init = Some m \<and> frames_out m = [f, f] \<and> endpoint m = main_context \<and>
    client_main C env chk (Inr ()) (Inr ())
      [Transmit 0, Deliver 1 f, Deliver 1 f, Handle, Handle, Receive 0] = Some (Ok result) \<and>
    try_to_response C (get_eid_response_try_from C) result = Ok (p, x) \<and>
    response_is_success C (get_eid_resp_completion_code x) = Ok () \<and> get_eid_resp_eid x = 0"
  by (rule crates_spec.client_exchange [OF assms])

theorem client_reaches_bus_owner_witness:
  "\<exists>f result. client_main std_crates demo_env True (Inr ()) (Inr ())
     [Transmit 0, Deliver 1 f, Deliver 1 f, Handle, Handle, Receive 0] = Some (Ok result)"
  using client_reaches_bus_owner [OF std_crates_spec, of demo_env demo_socket True True]
  by (auto simp: demo_env_def demo_socket_def)

end
